(* ===== verification/GoBase.thy ===== *)
theory GoBase
  imports Main "HOL-Library.AList"
begin

text \<open>
  The prelude of the development: the Go values every component shares.

  Go strings are byte sequences, so a \<^typ>\<open>char list\<close> (a char is one byte) is a Go string.
  A Go map is an association list with distinct keys, and the unspecified iteration order of
  \<open>range\<close> over a map is an explicit permutation of its keys. A \<open>time.Time\<close> is the number of
  nanoseconds since Go's zero time (so the zero value is 0); a \<open>time.Duration\<close> is an int64
  number of nanoseconds, kept as an \<^typ>\<open>int\<close> with the saturation of \<open>Time.Sub\<close> and the
  wrap-around of \<open>Duration\<close> products written out. The second half holds the interface
  shared by every component that is driven by a sequence of calls under one mutex.
\<close>

named_theorems go_defs
  \<comment> \<open>constants and small library functions, unfolded together\<close>

type_synonym gostring = "char list"

type_synonym duration = int

type_synonym time = int

section \<open>Durations and times\<close>

definition wrap64 :: "int \<Rightarrow> int" where
  "wrap64 x = (x + 2 ^ 63) mod 2 ^ 64 - 2 ^ 63"

definition min_duration :: duration where
  "min_duration = - (2 ^ 63)"

definition max_duration :: duration where
  "max_duration = 2 ^ 63 - 1"

definition nanosecond :: duration where [go_defs]: "nanosecond = 1"

definition second :: duration where [go_defs]: "second = 1000000000"

definition minute :: duration where [go_defs]: "minute = 60000000000"

definition hour :: duration where [go_defs]: "hour = 3600000000000"

text \<open>\<open>t.Sub(u)\<close> saturates at the ends of the int64 range.\<close>

definition time_sub :: "time \<Rightarrow> time \<Rightarrow> duration" where
  "time_sub t u = max min_duration (min max_duration (t - u))"

definition time_add :: "time \<Rightarrow> duration \<Rightarrow> time" where
  "time_add t d = t + d"

definition is_zero_time :: "time \<Rightarrow> bool" where
  "is_zero_time t = (t = 0)"

text \<open>The product of two durations wraps around; their quotient truncates towards zero.\<close>

definition dur_mul :: "duration \<Rightarrow> duration \<Rightarrow> duration" where
  "dur_mul a b = wrap64 (a * b)"

definition dur_div :: "duration \<Rightarrow> duration \<Rightarrow> duration" where
  "dur_div a b = sgn a * sgn b * (\<bar>a\<bar> div \<bar>b\<bar>)"

definition int64_ok :: "int \<Rightarrow> bool" where
  "int64_ok x = (- (2 ^ 63) \<le> x \<and> x < 2 ^ 63)"

lemma wrap64_id [simp]: "int64_ok x \<Longrightarrow> wrap64 x = x"
  by (simp add: int64_ok_def wrap64_def)

lemma wrap64_range: "int64_ok (wrap64 x)"
  unfolding int64_ok_def wrap64_def
  using pos_mod_bound [of "2 ^ 64 :: int" "x + 2 ^ 63"] pos_mod_sign [of "2 ^ 64 :: int" "x + 2 ^ 63"]
  by simp

lemma time_sub_self [simp]: "time_sub t t = 0"
  by (simp add: time_sub_def min_duration_def max_duration_def)

lemma time_sub_exact: "int64_ok (t - u) \<Longrightarrow> time_sub t u = t - u"
  by (simp add: time_sub_def min_duration_def max_duration_def int64_ok_def)

lemma time_sub_nonneg: "u \<le> t \<Longrightarrow> 0 \<le> time_sub t u"
  by (simp add: time_sub_def min_duration_def max_duration_def)

lemma time_sub_le: "u \<le> t \<Longrightarrow> time_sub t u \<le> t - u"
  by (simp add: time_sub_def min_duration_def max_duration_def)

text \<open>A difference below the int64 maximum was not saturated from above.\<close>

lemma time_sub_below:
  assumes "time_sub t u < max_duration" and "u \<le> t"
  shows "time_sub t u = t - u"
  using assms by (auto simp: time_sub_def min_duration_def max_duration_def min_def max_def
      split: if_splits)

lemma time_sub_mono: "t \<le> t' \<Longrightarrow> time_sub t u \<le> time_sub t' u"
  by (simp add: time_sub_def max_def min_def)

section \<open>Go maps\<close>

type_synonym ('k, 'v) gomap = "('k \<times> 'v) list"

definition gm_wf :: "('k, 'v) gomap \<Rightarrow> bool" where
  "gm_wf m = distinct (map fst m)"

definition gm_keys :: "('k, 'v) gomap \<Rightarrow> 'k list" where
  "gm_keys m = map fst m"

lemma gm_wf_Nil [simp, intro]: "gm_wf []"
  by (simp add: gm_wf_def)

lemma gm_wf_update [intro]: "gm_wf m \<Longrightarrow> gm_wf (AList.update k v m)"
  by (simp add: gm_wf_def distinct_update)

lemma gm_wf_delete [intro]: "gm_wf m \<Longrightarrow> gm_wf (AList.delete k m)"
  by (simp add: gm_wf_def distinct_delete)

lemma gm_wf_filter [intro]: "gm_wf m \<Longrightarrow> gm_wf (filter P m)"
  by (simp add: gm_wf_def distinct_map_filter)

lemma length_update_new:
  "map_of m k = None \<Longrightarrow> length (AList.update k v m) = Suc (length m)"
  by (induction m) (auto split: if_splits)

lemma length_update_old:
  "map_of m k = Some w \<Longrightarrow> length (AList.update k v m) = length m"
  by (induction m) (auto split: if_splits)

lemma length_update_le: "length (AList.update k v m) \<le> Suc (length m)"
  by (induction m) auto

lemma length_update_bound: "Suc (length m) \<le> n \<Longrightarrow> length (AList.update k v m) \<le> n"
  by (rule order_trans [OF length_update_le])

lemma length_delete_le: "length (AList.delete k m) \<le> length m"
  by (simp add: AList.delete_eq)

lemma length_delete_present:
  assumes "gm_wf m" and "k \<in> set (gm_keys m)"
  shows "Suc (length (AList.delete k m)) = length m"
  using assms
proof (induction m)
  case Nil
  then show ?case by (simp add: gm_keys_def)
next
  case (Cons p m)
  show ?case
  proof (cases "fst p = k")
    case True
    with Cons.prems have "k \<notin> fst ` set m" by (auto simp: gm_wf_def)
    then have "AList.delete k m = m" by (simp add: delete_idem)
    with True show ?thesis by (cases p) simp
  next
    case False
    with Cons show ?thesis by (cases p) (auto simp: gm_wf_def gm_keys_def)
  qed
qed

lemma gm_keys_update: "set (gm_keys (AList.update k v m)) = insert k (set (gm_keys m))"
  by (simp add: gm_keys_def dom_update)

lemma gm_keys_delete: "set (gm_keys (AList.delete k m)) = set (gm_keys m) - {k}"
  by (auto simp: gm_keys_def AList.delete_eq)

lemma gm_lookup_key: "map_of m k = Some v \<Longrightarrow> k \<in> set (gm_keys m)"
  by (force simp: gm_keys_def dest: map_of_SomeD)

lemma gm_key_lookup: "k \<in> set (gm_keys m) \<Longrightarrow> \<exists>v. map_of m k = Some v"
  by (simp add: gm_keys_def weak_map_of_SomeI flip: dom_map_of_conv_image_fst) blast

lemma map_of_gm_delete [simp]: "map_of (AList.delete k m) = (map_of m)(k := None)"
  by (rule delete_conv')

lemma map_of_gm_update [simp]: "map_of (AList.update k v m) = (map_of m)(k \<mapsto> v)"
  by (rule update_conv')

text \<open>
  The order in which \<open>range\<close> visits a map is some permutation of its keys. It is given as
  a function on key lists; every statement holds for all of them.
\<close>

type_synonym 'k iter_order = "'k list \<Rightarrow> 'k list"

definition iter_ok :: "'k iter_order \<Rightarrow> bool" where
  "iter_ok perm = (\<forall>ks. set (perm ks) = set ks \<and> (distinct ks \<longrightarrow> distinct (perm ks)))"

lemma iter_ok_set: "iter_ok perm \<Longrightarrow> set (perm ks) = set ks"
  by (simp add: iter_ok_def)

lemma iter_ok_id [simp, intro]: "iter_ok (\<lambda>ks. ks)"
  by (simp add: iter_ok_def)

lemma iter_ok_rev [simp, intro]: "iter_ok rev"
  by (simp add: iter_ok_def)

text \<open>
  Deleting, during the iteration, the visited keys whose entry satisfies a predicate.
  Whatever the order, the entries left are the ones that do not satisfy it.
\<close>

fun gm_sweep :: "('k \<Rightarrow> 'v \<Rightarrow> bool) \<Rightarrow> 'k list \<Rightarrow> ('k, 'v) gomap \<Rightarrow> ('k, 'v) gomap" where
  "gm_sweep drop_it [] m = m"
| "gm_sweep drop_it (k # ks) m =
     gm_sweep drop_it ks
       (case map_of m k of
          None \<Rightarrow> m
        | Some v \<Rightarrow> if drop_it k v then AList.delete k m else m)"

lemma gm_sweep_wf [intro]: "gm_wf m \<Longrightarrow> gm_wf (gm_sweep d ks m)"
  by (induction ks arbitrary: m) (auto split: option.splits)

lemma gm_sweep_length: "length (gm_sweep d ks m) \<le> length m"
proof (induction ks arbitrary: m)
  case Nil
  then show ?case by simp
next
  case (Cons k ks)
  show ?case
    using Cons.IH order_trans [OF Cons.IH length_delete_le]
    by (simp split: option.splits)
qed

lemma gm_sweep_lookup:
  "map_of (gm_sweep d ks m) k =
     (case map_of m k of
        None \<Rightarrow> None
      | Some v \<Rightarrow> if k \<in> set ks \<and> d k v then None else Some v)"
  by (induction ks arbitrary: m) (auto split: option.splits)

lemma gm_sweep_keys: "set (gm_keys (gm_sweep d ks m)) \<subseteq> set (gm_keys m)"
proof
  fix k
  assume "k \<in> set (gm_keys (gm_sweep d ks m))"
  then obtain v where "map_of (gm_sweep d ks m) k = Some v" by (blast dest: gm_key_lookup)
  then show "k \<in> set (gm_keys m)"
    by (auto simp: gm_sweep_lookup split: option.splits if_splits intro: gm_lookup_key)
qed

section \<open>Components driven by calls under one mutex\<close>

text \<open>
  A component whose methods each run under the component's lock is a state machine: a call
  is one step. The admissible calls are those that respect the assumptions of the component
  (a legal iteration order, a clock reading). An invariant kept by every admissible call holds
  after every sequence of admissible calls.
\<close>

locale machine =
  fixes step :: "'e \<Rightarrow> 's \<Rightarrow> 's"
    and admissible :: "'e \<Rightarrow> bool"
    and inv :: "'s \<Rightarrow> bool"
  assumes inv_step: "inv s \<Longrightarrow> admissible e \<Longrightarrow> inv (step e s)"
begin

lemma inv_run: "inv s \<Longrightarrow> list_all admissible es \<Longrightarrow> inv (fold step es s)"
  by (induction es arbitrary: s) (auto intro: inv_step)

end

text \<open>
  A component that tracks a bounded number of entries: no admissible call takes it past its
  capacity, so no sequence of calls does.
\<close>

locale capped_machine = machine step admissible inv
  for step :: "'e \<Rightarrow> 's \<Rightarrow> 's" and admissible :: "'e \<Rightarrow> bool" and inv :: "'s \<Rightarrow> bool" +
  fixes entries :: "'s \<Rightarrow> nat"
    and capacity :: "'s \<Rightarrow> nat"
  assumes capacity_step: "capacity (step e s) = capacity s"
    and entries_step:
      "inv s \<Longrightarrow> admissible e \<Longrightarrow> entries s \<le> capacity s \<Longrightarrow> entries (step e s) \<le> capacity s"
begin

lemma capacity_run: "capacity (fold step es s) = capacity s"
  by (induction es arbitrary: s) (auto simp: capacity_step)

lemma entries_run:
  "inv s \<Longrightarrow> list_all admissible es \<Longrightarrow> entries s \<le> capacity s \<Longrightarrow>
     entries (fold step es s) \<le> capacity s"
proof (induction es arbitrary: s)
  case Nil
  then show ?case by simp
next
  case (Cons e es)
  then have "inv (step e s)" and "entries (step e s) \<le> capacity (step e s)"
    by (auto intro: inv_step entries_step simp: capacity_step)
  with Cons.prems Cons.IH [of "step e s"] show ?case by (simp add: capacity_step)
qed

end

section \<open>Components with interleaved goroutines\<close>

text \<open>
  Where goroutines share a component, a step is one atomic segment of one of them (between two
  lock operations or one channel operation), and an event names the goroutine that moves. A step
  that is not enabled is \<^const>\<open>None\<close>.
\<close>

fun run_events :: "('e \<Rightarrow> 's \<Rightarrow> 's option) \<Rightarrow> 'e list \<Rightarrow> 's \<Rightarrow> 's option" where
  "run_events step [] s = Some s"
| "run_events step (e # es) s =
     (case step e s of None \<Rightarrow> None | Some s1 \<Rightarrow> run_events step es s1)"

lemma run_events_append:
  "run_events step (es @ fs) s =
     (case run_events step es s of None \<Rightarrow> None | Some s1 \<Rightarrow> run_events step fs s1)"
  by (induction es arbitrary: s) (auto split: option.split)

text \<open>What the steps of a run show to an observer, in order.\<close>

fun observe :: "('e \<Rightarrow> 's \<Rightarrow> 'o list) \<Rightarrow> ('e \<Rightarrow> 's \<Rightarrow> 's option) \<Rightarrow> 'e list \<Rightarrow> 's \<Rightarrow> 'o list" where
  "observe obs step [] s = []"
| "observe obs step (e # es) s =
     obs e s @ (case step e s of None \<Rightarrow> [] | Some s1 \<Rightarrow> observe obs step es s1)"

locale interleaving =
  fixes step :: "'e \<Rightarrow> 's \<Rightarrow> 's option"
    and start :: 's
    and inv :: "'s \<Rightarrow> bool"
  assumes inv_start: "inv start"
    and inv_next: "inv s \<Longrightarrow> step e s = Some s' \<Longrightarrow> inv s'"
begin

lemma inv_from: "inv s \<Longrightarrow> run_events step es s = Some s' \<Longrightarrow> inv s'"
  by (induction es arbitrary: s) (auto split: option.splits intro: inv_next)

lemma inv_reached: "run_events step es start = Some s \<Longrightarrow> inv s"
  by (rule inv_from [OF inv_start])

text \<open>An invariant relative to what was observed so far.\<close>

lemma observed:
  assumes "inv s" and "P xs ys s"
    and next_step: "\<And>xs ys s e s'. inv s \<Longrightarrow> P xs ys s \<Longrightarrow> e \<in> set es \<Longrightarrow> step e s = Some s' \<Longrightarrow> P (xs @ f e s) (ys @ g e s) s'"
    and "run_events step es s = Some s'"
  shows "P (xs @ observe f step es s) (ys @ observe g step es s) s'"
  using assms
proof (induction es arbitrary: xs ys s)
  case (Cons e es)
  then obtain s1 where s1: "step e s = Some s1" "run_events step es s1 = Some s'"
    by (auto split: option.splits)
  have "inv s1" using Cons.prems(1) s1(1) by (rule inv_next)
  moreover have "P (xs @ f e s) (ys @ g e s) s1" using Cons.prems s1(1) by simp
  ultimately have "P ((xs @ f e s) @ observe f step es s1) ((ys @ g e s) @ observe g step es s1) s'"
    using Cons.prems(3) s1(2) by (intro Cons.IH) auto
  with s1 show ?case by simp
qed simp

end

section \<open>Labelled steps\<close>

text \<open>
  Where a step is given by rules, a run is the chain of its labelled steps. An invariant of the
  labels seen so far and the state reached is proved once, by rule induction.
\<close>

inductive runs :: "('s \<Rightarrow> 'e \<Rightarrow> 's \<Rightarrow> bool) \<Rightarrow> 's \<Rightarrow> 'e list \<Rightarrow> 's \<Rightarrow> bool" for step where
  runs_nil: "runs step s [] s"
| runs_snoc: "runs step s es s1 \<Longrightarrow> step s1 e s2 \<Longrightarrow> runs step s (es @ [e]) s2"

inductive_cases runs_nilE: "runs step s [] s'"
inductive_cases runs_snocE: "runs step s (es @ [e]) s'"

lemma runs_one: "step s e s' \<Longrightarrow> runs step s [e] s'"
  using runs_snoc [OF runs_nil, of step s e s'] by simp

lemma runs_append: "runs step s1 fs s2 \<Longrightarrow> runs step s es s1 \<Longrightarrow> runs step s (es @ fs) s2"
proof (induction rule: runs.induct)
  case (runs_snoc s1 fs s2 e s3)
  from runs.runs_snoc [OF runs_snoc.IH [OF runs_snoc.prems] runs_snoc.hyps(2)] show ?case by simp
qed simp

lemma runs_cons: "step s e s1 \<Longrightarrow> runs step s1 es s2 \<Longrightarrow> runs step s (e # es) s2"
  using runs_append [of step s1 es s2 s "[e]"] runs_one [of step s e s1] by simp

locale labelled =
  fixes step :: "'s \<Rightarrow> 'e \<Rightarrow> 's \<Rightarrow> bool"
    and start :: "'s \<Rightarrow> bool"
    and inv :: "'e list \<Rightarrow> 's \<Rightarrow> bool"
  assumes inv_start: "start s \<Longrightarrow> inv [] s"
    and inv_step: "inv es s \<Longrightarrow> step s e s' \<Longrightarrow> inv (es @ [e]) s'"
begin

lemma inv_runs: "runs step s es s' \<Longrightarrow> start s \<Longrightarrow> inv es s'"
  by (induction rule: runs.induct) (auto intro: inv_start inv_step)

end

end
