(* ===== verification/GoUtf8.thy ===== *)
theory GoUtf8
  imports GoBase "HOL-Library.Sublist"
begin

text \<open>
  UTF-8 as the Go runtime and \<open>unicode/utf8\<close> read it: the rune at the front of a string and at
  its end, validity, and \<open>range\<close> over the runes of a string. An invalid byte decodes to the rune
  U+FFFD with size 1.
\<close>

type_synonym rune = nat

definition runeError :: rune where
  "runeError = 65533"

abbreviation byte_of :: "char \<Rightarrow> nat" where
  "byte_of c \<equiv> of_char c"

definition cont_byte :: "nat \<Rightarrow> bool" where
  "cont_byte b = (128 \<le> b \<and> b \<le> 191)"

definition rune_start :: "char \<Rightarrow> bool" where
  "rune_start c = (\<not> cont_byte (byte_of c))"

text \<open>The range of the second byte depends on the first one (no overlong forms, no surrogates).\<close>

definition second_ok :: "nat \<Rightarrow> nat \<Rightarrow> bool" where
  "second_ok b0 b1 =
     ((if b0 = 224 then 160 else if b0 = 240 then 144 else 128) \<le> b1 \<and>
      b1 \<le> (if b0 = 237 then 159 else if b0 = 244 then 143 else 191))"

fun decodeRune :: "gostring \<Rightarrow> rune \<times> nat" where
  "decodeRune [] = (runeError, 0)"
| "decodeRune (c0 # s) =
     (let b0 = byte_of c0 in
      if b0 < 128 then (b0, 1)
      else if 194 \<le> b0 \<and> b0 \<le> 223 then
        (case s of
           c1 # _ \<Rightarrow> if cont_byte (byte_of c1)
                     then ((b0 - 192) * 64 + (byte_of c1 - 128), 2) else (runeError, 1)
         | _ \<Rightarrow> (runeError, 1))
      else if 224 \<le> b0 \<and> b0 \<le> 239 then
        (case s of
           c1 # c2 # _ \<Rightarrow>
             if second_ok b0 (byte_of c1) \<and> cont_byte (byte_of c2)
             then ((b0 - 224) * 4096 + (byte_of c1 - 128) * 64 + (byte_of c2 - 128), 3)
             else (runeError, 1)
         | _ \<Rightarrow> (runeError, 1))
      else if 240 \<le> b0 \<and> b0 \<le> 244 then
        (case s of
           c1 # c2 # c3 # _ \<Rightarrow>
             if second_ok b0 (byte_of c1) \<and> cont_byte (byte_of c2) \<and> cont_byte (byte_of c3)
             then ((b0 - 240) * 262144 + (byte_of c1 - 128) * 4096
                   + (byte_of c2 - 128) * 64 + (byte_of c3 - 128), 4)
             else (runeError, 1)
         | _ \<Rightarrow> (runeError, 1))
      else (runeError, 1))"

definition bad_rune :: "rune \<times> nat \<Rightarrow> bool" where
  "bad_rune d = (fst d = runeError \<and> snd d = 1)"

fun validString :: "gostring \<Rightarrow> bool" where
  "validString [] = True"
| "validString (c # s) =
     (\<not> bad_rune (decodeRune (c # s)) \<and> validString (drop (snd (decodeRune (c # s)) - 1) s))"

text \<open>The runes a \<open>range\<close> loop visits.\<close>

fun runes :: "gostring \<Rightarrow> rune list" where
  "runes [] = []"
| "runes (c # s) =
     fst (decodeRune (c # s)) # runes (drop (snd (decodeRune (c # s)) - 1) s)"

text \<open>
  \<open>DecodeLastRuneInString\<close> searches at most four bytes back for the start of a rune; if the
  rune decoded from there does not end at the end of the string, the last byte is invalid.
\<close>

definition last_start :: "gostring \<Rightarrow> nat" where
  "last_start s =
     (let n = length s in
      if 2 \<le> n \<and> rune_start (s ! (n - 2)) then 2
      else if 3 \<le> n \<and> rune_start (s ! (n - 3)) then 3
      else if 4 \<le> n \<and> rune_start (s ! (n - 4)) then 4
      else min n 5)"

definition decodeLastRune :: "gostring \<Rightarrow> rune \<times> nat" where
  "decodeLastRune s =
     (if s = [] then (runeError, 0)
      else if byte_of (last s) < 128 then (byte_of (last s), 1)
      else (let k = last_start s; d = decodeRune (drop (length s - k) s) in
            if snd d = k then d else (runeError, 1)))"

fun utf8_char :: "nat \<Rightarrow> char" where
  "utf8_char n = char_of n"

definition encodeRune :: "rune \<Rightarrow> gostring" where
  "encodeRune r =
     (if r < 128 then [char_of r]
      else if r < 2048 then [char_of (192 + r div 64), char_of (128 + r mod 64)]
      else if r < 65536 then
        [char_of (224 + r div 4096), char_of (128 + (r div 64) mod 64), char_of (128 + r mod 64)]
      else
        [char_of (240 + r div 262144), char_of (128 + (r div 4096) mod 64),
         char_of (128 + (r div 64) mod 64), char_of (128 + r mod 64)])"

text \<open>A string constant given by its bytes.\<close>

definition utf8_lit :: "nat list \<Rightarrow> gostring" where
  "utf8_lit bs = map char_of bs"

section \<open>Decoding\<close>

lemma decodeRune_size_pos: "s \<noteq> [] \<Longrightarrow> 1 \<le> snd (decodeRune s)"
  by (cases s) (auto simp: Let_def split: list.split)

lemma decodeRune_size_le: "snd (decodeRune s) \<le> length s"
  by (cases s) (auto simp: Let_def split: list.split)

lemma decodeRune_ascii [simp]: "byte_of c < 128 \<Longrightarrow> decodeRune (c # s) = (byte_of c, 1)"
  by simp

lemma second_ok_cont: "second_ok b0 b1 \<Longrightarrow> cont_byte b1"
  by (auto simp: second_ok_def cont_byte_def split: if_splits)

text \<open>Within a decoded rune, every byte but the first is a continuation byte.\<close>

lemma decodeRune_tail_cont:
  assumes "0 < i" and "i < snd (decodeRune s)"
  shows "\<not> rune_start (s ! i)"
proof (cases s)
  case Nil
  with assms show ?thesis by simp
next
  case (Cons c0 t)
  have "i = 1 \<or> i = 2 \<or> i = 3"
    using assms Cons by (auto simp: Let_def split: list.splits if_splits)
  then show ?thesis
    using assms Cons second_ok_cont
    by (auto simp: Let_def rune_start_def split: list.splits if_splits)
qed

text \<open>A multi-byte rune is only decoded when all its bytes are there.\<close>

lemma decodeRune_first_byte:
  "2 \<le> snd (decodeRune (c # s)) \<Longrightarrow> 128 \<le> byte_of c \<and> rune_start c"
  by (auto simp: Let_def rune_start_def cont_byte_def split: list.splits if_splits)

lemma decodeRune_multi:
  assumes "2 \<le> snd (decodeRune s)"
  obtains (two) c0 c1 t where "s = c0 # c1 # t" "194 \<le> byte_of c0" "byte_of c0 \<le> 223"
      "cont_byte (byte_of c1)" "snd (decodeRune s) = 2"
  | (three) c0 c1 c2 t where "s = c0 # c1 # c2 # t" "224 \<le> byte_of c0" "byte_of c0 \<le> 239"
      "second_ok (byte_of c0) (byte_of c1)" "cont_byte (byte_of c2)" "snd (decodeRune s) = 3"
  | (four) c0 c1 c2 c3 t where "s = c0 # c1 # c2 # c3 # t" "240 \<le> byte_of c0" "byte_of c0 \<le> 244"
      "second_ok (byte_of c0) (byte_of c1)" "cont_byte (byte_of c2)" "cont_byte (byte_of c3)"
      "snd (decodeRune s) = 4"
proof (cases s)
  case Nil
  with assms show ?thesis by simp
next
  case (Cons c0 u)
  consider "byte_of c0 < 128" | "128 \<le> byte_of c0" "byte_of c0 < 194"
    | "194 \<le> byte_of c0" "byte_of c0 \<le> 223" | "224 \<le> byte_of c0" "byte_of c0 \<le> 239"
    | "240 \<le> byte_of c0" "byte_of c0 \<le> 244" | "244 < byte_of c0"
    by linarith
  then show ?thesis
  proof cases
    case 3
    with assms Cons two show ?thesis by (auto simp: Let_def split: list.splits if_splits)
  next
    case 4
    with assms Cons three show ?thesis by (auto simp: Let_def split: list.splits if_splits)
  next
    case 5
    with assms Cons four show ?thesis by (auto simp: Let_def split: list.splits if_splits)
  qed (use assms Cons in \<open>simp_all add: Let_def\<close>)
qed

lemma decodeRune_single:
  assumes "snd (decodeRune (c # s)) = 1"
  shows "decodeRune (c # s) = ((if byte_of c < 128 then byte_of c else runeError), 1)"
  using assms by (auto simp: Let_def split: list.splits if_splits)

lemma decodeRune_truncated:
  assumes "2 \<le> snd (decodeRune s)" and "0 < k" and "k < snd (decodeRune s)"
  shows "bad_rune (decodeRune (take k s))"
  using assms(1)
proof (cases rule: decodeRune_multi)
  case (two c0 c1 t)
  with assms have "k = 1" by simp
  with two show ?thesis by (simp add: bad_rune_def)
next
  case (three c0 c1 c2 t)
  with assms consider "k = 1" | "k = 2" by linarith
  then show ?thesis using three by cases (simp_all add: bad_rune_def numeral_2_eq_2)
next
  case (four c0 c1 c2 c3 t)
  with assms consider "k = 1" | "k = 2" | "k = 3" by linarith
  then show ?thesis
    using four by cases (simp_all add: bad_rune_def numeral_2_eq_2 numeral_3_eq_3)
qed

lemma decodeRune_extend:
  assumes "2 \<le> snd (decodeRune s)"
  shows "decodeRune (s @ t) = decodeRune s"
  using assms by (cases rule: decodeRune_multi) (simp_all add: Let_def)

lemma decodeRune_restrict:
  assumes "2 \<le> snd (decodeRune (s @ t))" and "snd (decodeRune (s @ t)) \<le> length s"
  shows "2 \<le> snd (decodeRune s)"
proof -
  from assms(1) show ?thesis
  proof (cases rule: decodeRune_multi)
    case (two c0 c1 u)
    from two(5) assms(2) have "2 \<le> length s" by simp
    then obtain a b v where "s = a # b # v"
      by (auto simp: numeral_2_eq_2 Suc_le_length_iff)
    with two show ?thesis by (simp add: Let_def)
  next
    case (three c0 c1 c2 u)
    from three(6) assms(2) have "3 \<le> length s" by simp
    then obtain a b c v where "s = a # b # c # v"
      by (auto simp: numeral_3_eq_3 Suc_le_length_iff)
    with three show ?thesis by (simp add: Let_def)
  next
    case (four c0 c1 c2 c3 u)
    from four(7) assms(2) have "4 \<le> length s" by simp
    then obtain a b c d v where "s = a # b # c # d # v"
      by (auto simp: numeral_eq_Suc Suc_le_length_iff)
    with four show ?thesis by (simp add: Let_def)
  qed
qed

lemma decodeRune_append:
  assumes "snd (decodeRune (s @ t)) \<le> length s" and "s \<noteq> []"
  shows "decodeRune (s @ t) = decodeRune s"
proof (cases "2 \<le> snd (decodeRune s)")
  case True
  then show ?thesis by (rule decodeRune_extend)
next
  case False
  obtain c u where s: "s = c # u" using assms(2) by (cases s) auto
  have "\<not> 2 \<le> snd (decodeRune (s @ t))" using decodeRune_restrict assms(1) False by blast
  then have "snd (decodeRune (c # u)) = 1" and "snd (decodeRune (c # u @ t)) = 1"
    using False decodeRune_size_pos [of "c # u"] decodeRune_size_pos [of "c # u @ t"] s by auto
  then show ?thesis
    using decodeRune_single [of c u] decodeRune_single [of c "u @ t"] s by (simp only: append_Cons)
qed

lemma validString_step:
  assumes "s \<noteq> []"
  shows "validString s \<longleftrightarrow>
    \<not> bad_rune (decodeRune s) \<and> validString (drop (snd (decodeRune s)) s)"
proof -
  have "1 \<le> snd (decodeRune s)" using assms by (rule decodeRune_size_pos)
  then show ?thesis using assms by (cases s) (auto simp: drop_Cons' simp del: decodeRune.simps(2))
qed

lemma runes_step:
  assumes "s \<noteq> []"
  shows "runes s = fst (decodeRune s) # runes (drop (snd (decodeRune s)) s)"
proof -
  have "1 \<le> snd (decodeRune s)" using assms by (rule decodeRune_size_pos)
  then show ?thesis using assms by (cases s) (auto simp: drop_Cons' simp del: decodeRune.simps(2))
qed

declare decodeRune.simps(2) [simp del] validString.simps(2) [simp del] runes.simps(2) [simp del]

section \<open>Validity splits at the start of a rune\<close>

lemma validString_split:
  assumes "validString (u @ r)" and "r \<noteq> []" and "rune_start (hd r)"
  shows "validString u \<and> validString r"
  using assms
proof (induction u rule: length_induct)
  case (1 u)
  show ?case
  proof (cases u)
    case Nil
    with 1 show ?thesis by simp
  next
    case (Cons c v)
    let ?n = "snd (decodeRune (u @ r))"
    have pos: "1 \<le> ?n" using Cons by (intro decodeRune_size_pos) simp
    have le: "?n \<le> length u"
    proof (rule ccontr)
      assume "\<not> ?n \<le> length u"
      then have "\<not> rune_start ((u @ r) ! length u)"
        using Cons by (intro decodeRune_tail_cont) auto
      with "1.prems" show False by (simp add: nth_append hd_conv_nth)
    qed
    have same: "decodeRune (u @ r) = decodeRune u"
      using le Cons by (intro decodeRune_append) auto
    have "validString (drop ?n (u @ r))" and good: "\<not> bad_rune (decodeRune (u @ r))"
      using "1.prems"(1) validString_step [of "u @ r"] Cons by auto
    then have "validString (drop ?n u @ r)" using le by simp
    moreover have "length (drop ?n u) < length u" using pos Cons by simp
    ultimately have "validString (drop ?n u) \<and> validString r"
      using "1.IH" "1.prems" by blast
    with good same Cons show ?thesis using validString_step [of u] by simp
  qed
qed

lemma last_start_bounds: "s \<noteq> [] \<Longrightarrow> 1 \<le> last_start s \<and> last_start s \<le> length s"
  by (auto simp: last_start_def Let_def Suc_le_eq)

lemma decodeLastRune_size_le: "snd (decodeLastRune s) \<le> length s"
  using last_start_bounds [of s] by (cases s) (auto simp: decodeLastRune_def Let_def)

lemma decodeLastRune_size_pos: "s \<noteq> [] \<Longrightarrow> 1 \<le> snd (decodeLastRune s)"
  using last_start_bounds [of s] by (auto simp: decodeLastRune_def Let_def)

text \<open>
  Dropping the last rune never cuts a valid prefix: every proper prefix that is valid UTF-8
  lies within what is left.
\<close>

lemma decodeLastRune_keeps_valid_prefix:
  assumes "prefix p s" and "p \<noteq> s" and "validString p"
  shows "length p \<le> length s - snd (decodeLastRune s)"
proof (cases "2 \<le> snd (decodeLastRune s)")
  case False
  have "length p < length s" using assms(1,2) by (simp add: prefix_length_less strict_prefix_def)
  with False show ?thesis by linarith
next
  case True
  let ?k = "last_start s" and ?u = "take (length s - last_start s) s"
  let ?r = "drop (length s - last_start s) s"
  have size: "snd (decodeRune ?r) = ?k" "snd (decodeLastRune s) = ?k"
    using True by (auto simp: decodeLastRune_def Let_def split: if_splits)
  then have k2: "2 \<le> ?k" using True by simp
  have klen: "?k \<le> length s"
    by (auto simp: last_start_def Let_def)
  then have rlen: "length ?r = ?k" by simp
  then obtain c t where r: "?r = c # t" using k2 by (cases ?r) auto
  have start: "rune_start c" using decodeRune_first_byte [of c t] size k2 r by simp
  show ?thesis
  proof (rule ccontr)
    assume "\<not> length p \<le> length s - snd (decodeLastRune s)"
    then have longer: "length ?u < length p" using size by simp
    let ?j = "length p - length ?u"
    have "length p < length s" using assms(1,2) by (simp add: prefix_length_less strict_prefix_def)
    then have j: "0 < ?j" "?j < ?k" using longer klen by auto
    have "p = take (length p) s" using assms(1) by (metis prefix_def append_eq_conv_conj)
    also have "\<dots> = ?u @ take ?j ?r"
    proof -
      have "length p = (length s - ?k) + ?j" using longer by simp
      then show ?thesis by (metis take_add)
    qed
    finally have p: "p = ?u @ take ?j ?r" .
    have "validString (take ?j ?r)"
      using assms(3) p validString_split [of ?u "take ?j ?r"] start r j by (cases ?j) auto
    moreover have "bad_rune (decodeRune (take ?j ?r))"
      using size k2 j by (intro decodeRune_truncated) auto
    moreover obtain d e where "take ?j ?r = d # e" using j r by (cases ?j) auto
    ultimately show False by (simp add: validString_step)
  qed
qed

section \<open>Scans for ASCII characters\<close>

lemma decodeRune_not_ascii:
  assumes "128 \<le> byte_of c"
  shows "128 \<le> fst (decodeRune (c # s))"
  using assms
  by (auto simp: decodeRune.simps(2) Let_def runeError_def second_ok_def cont_byte_def
      split: list.splits if_splits)

text \<open>
  A \<open>range\<close> loop that accepts ASCII characters only sees the same as a loop over the bytes.
\<close>

lemma list_all_runes_ascii:
  assumes ascii: "\<And>r. ok r \<Longrightarrow> r < 128"
  shows "list_all ok (runes s) = list_all (\<lambda>c. ok (byte_of c)) s"
proof (induction s rule: runes.induct)
  case (2 c s)
  show ?case
  proof (cases "byte_of c < 128")
    case True
    with 2 show ?thesis by (simp add: runes.simps(2))
  next
    case False
    then have "128 \<le> fst (decodeRune (c # s))" by (simp add: decodeRune_not_ascii)
    with False show ?thesis by (auto simp: runes.simps(2) dest: ascii)
  qed
qed simp

end
