(* ===== verification/GoStr.thy ===== *)
theory GoStr
  imports GoUtf8
begin

text \<open>
  The functions of Go's \<open>strings\<close>, \<open>strconv\<close> and \<open>net\<close> packages the program calls, on byte
  strings. The Unicode lower-case table of \<open>unicode.ToLower\<close> beyond ASCII is an argument
  (\<open>uni_lower\<close>); everything else is defined.
\<close>

section \<open>Trimming, splitting, case\<close>

definition is_space_rune :: "rune \<Rightarrow> bool" where
  "is_space_rune r =
     (r = 32 \<or> (9 \<le> r \<and> r \<le> 13) \<or> r = 133 \<or> r = 160 \<or> r = 5760 \<or> (8192 \<le> r \<and> r \<le> 8202) \<or>
      r = 8232 \<or> r = 8233 \<or> r = 8239 \<or> r = 8287 \<or> r = 12288)"

fun trim_left_space :: "gostring \<Rightarrow> gostring" where
  "trim_left_space [] = []"
| "trim_left_space (c # s) =
     (if is_space_rune (fst (decodeRune (c # s)))
      then trim_left_space (drop (snd (decodeRune (c # s)) - 1) s) else c # s)"

function trim_right_space :: "gostring \<Rightarrow> gostring" where
  "trim_right_space s =
     (if s = [] \<or> \<not> is_space_rune (fst (decodeLastRune s)) then s
      else trim_right_space (take (length s - snd (decodeLastRune s)) s))"
  by pat_completeness auto
termination
proof (relation "measure length", goal_cases)
  case 1
  show ?case by simp
next
  case (2 s)
  then have "1 \<le> snd (decodeLastRune s)" by (intro decodeLastRune_size_pos) simp
  with 2 show ?case by (cases s) auto
qed

declare trim_right_space.simps [simp del]

definition trimSpace :: "gostring \<Rightarrow> gostring" where
  "trimSpace s = trim_right_space (trim_left_space s)"

text \<open>\<open>strings.TrimRight(s, "/")\<close>.\<close>

definition trim_right_slash :: "gostring \<Rightarrow> gostring" where
  "trim_right_slash s = rev (dropWhile (\<lambda>c. c = CHR ''/'') (rev s))"

text \<open>\<open>strings.Split(s, ".")\<close> and its kin: the pieces between the separators.\<close>

fun split_on :: "char \<Rightarrow> gostring \<Rightarrow> gostring list" where
  "split_on c [] = [[]]"
| "split_on c (x # s) =
     (if x = c then [] # split_on c s
      else (case split_on c s of [] \<Rightarrow> [[x]] | p # ps \<Rightarrow> (x # p) # ps))"

definition trimPrefix :: "gostring \<Rightarrow> gostring \<Rightarrow> gostring" where
  "trimPrefix s p = (if prefix p s then drop (length p) s else s)"

definition ascii_lower :: "nat \<Rightarrow> nat" where
  "ascii_lower b = (if 65 \<le> b \<and> b \<le> 90 then b + 32 else b)"

definition toLower :: "(rune \<Rightarrow> rune) \<Rightarrow> gostring \<Rightarrow> gostring" where
  "toLower uni_lower s =
     (if list_all (\<lambda>c. byte_of c < 128) s
      then map (\<lambda>c. char_of (ascii_lower (byte_of c))) s
      else concat (map (\<lambda>r. encodeRune (if r < 128 then ascii_lower r else uni_lower r)) (runes s)))"

fun index_of :: "char \<Rightarrow> gostring \<Rightarrow> nat option" where
  "index_of c [] = None"
| "index_of c (x # s) = (if x = c then Some 0 else map_option Suc (index_of c s))"

fun last_index_of :: "char \<Rightarrow> gostring \<Rightarrow> nat option" where
  "last_index_of c [] = None"
| "last_index_of c (x # s) =
     (case last_index_of c s of Some i \<Rightarrow> Some (Suc i) | None \<Rightarrow> if x = c then Some 0 else None)"

lemma split_on_nonempty [simp]: "split_on c s \<noteq> []"
  by (cases s) (auto split: list.split)

lemma index_of_None: "index_of c s = None \<longleftrightarrow> c \<notin> set s"
  by (induction s) auto

lemma index_of_Some: "index_of c s = Some i \<Longrightarrow> i < length s \<and> s ! i = c \<and> c \<notin> set (take i s)"
  by (induction s arbitrary: i) (auto split: if_splits)

lemma last_index_of_None: "last_index_of c s = None \<longleftrightarrow> c \<notin> set s"
  by (induction s) (auto split: option.splits)

lemma last_index_of_append: "c \<notin> set t \<Longrightarrow> last_index_of c (s @ c # t) = Some (length s)"
  by (induction s) (auto simp: last_index_of_None split: option.split)

lemma trim_right_slash_idem [simp]: "trim_right_slash (trim_right_slash s) = trim_right_slash s"
  by (simp add: trim_right_slash_def)

lemma trim_right_slash_last: "trim_right_slash s = [] \<or> last (trim_right_slash s) \<noteq> CHR ''/''"
proof (cases "dropWhile (\<lambda>c. c = CHR ''/'') (rev s)")
  case Nil
  then show ?thesis by (simp add: trim_right_slash_def)
next
  case (Cons x xs)
  then have "x \<noteq> CHR ''/''" using hd_dropWhile [of "\<lambda>c. c = CHR ''/''" "rev s"] by simp
  with Cons show ?thesis by (simp add: trim_right_slash_def)
qed

section \<open>Numbers\<close>

definition is_digit :: "char \<Rightarrow> bool" where
  "is_digit c = (48 \<le> byte_of c \<and> byte_of c \<le> 57)"

definition digits_value :: "gostring \<Rightarrow> int" where
  "digits_value s = foldl (\<lambda>n c. n * 10 + int (byte_of c - 48)) 0 s"

text \<open>\<open>strconv.Atoi\<close>: an optional sign, at least one decimal digit, a value in the int range.\<close>

definition atoi :: "gostring \<Rightarrow> int option" where
  "atoi s =
     (let (neg, ds) = (case s of
            [] \<Rightarrow> (False, [])
          | c # t \<Rightarrow> if c = CHR ''-'' then (True, t) else if c = CHR ''+'' then (False, t) else (False, s)) in
      if ds = [] \<or> \<not> list_all is_digit ds then None
      else (let v = (if neg then - digits_value ds else digits_value ds) in
            if int64_ok v then Some v else None))"

text \<open>\<open>strconv.FormatInt\<close> in base 10.\<close>

fun decimal :: "nat \<Rightarrow> gostring" where
  "decimal n = (if n < 10 then [] else decimal (n div 10)) @ [char_of (48 + n mod 10)]"

declare decimal.simps [simp del]

definition formatInt :: "int \<Rightarrow> gostring" where
  "formatInt n = (if n < 0 then CHR ''-'' # decimal (nat (- n)) else decimal (nat n))"

lemma digit_byte: "n < 10 \<Longrightarrow> byte_of (char_of (48 + n)) = 48 + n"
  by simp

lemma decimal_digits: "decimal n \<noteq> [] \<and> list_all is_digit (decimal n)"
proof (induction n rule: decimal.induct)
  case (1 n)
  moreover have "n mod 10 \<le> 9" by presburger
  ultimately show ?case unfolding decimal.simps [of n] by (simp add: is_digit_def)
qed

lemma digits_value_snoc: "digits_value (s @ [c]) = digits_value s * 10 + int (byte_of c - 48)"
  by (simp add: digits_value_def)

lemma digits_value_decimal: "digits_value (decimal n) = int n"
proof (induction n rule: decimal.induct)
  case (1 n)
  have "digits_value (if n < 10 then [] else decimal (n div 10)) = int (n div 10)"
    using 1 by (simp add: digits_value_def)
  then have "digits_value (decimal n) = int (n div 10) * 10 + int (n mod 10)"
    unfolding decimal.simps [of n] by (simp add: digits_value_snoc digit_byte)
  also have "\<dots> = int n" by (simp add: zdiv_int zmod_int)
  finally show ?case .
qed

text \<open>What \<open>FormatInt\<close> prints, \<open>Atoi\<close> reads back.\<close>

lemma atoi_formatInt: "int64_ok n \<Longrightarrow> atoi (formatInt n) = Some n"
proof -
  obtain c t where ds: "decimal (nat (abs n)) = c # t" using decimal_digits [of "nat (abs n)"] by (cases "decimal (nat (abs n))") auto
  then have "is_digit c" using decimal_digits [of "nat (abs n)"] by simp
  then have "c \<noteq> CHR ''-''" "c \<noteq> CHR ''+''" by (auto simp: is_digit_def)
  moreover assume "int64_ok n"
  ultimately show ?thesis
    using ds decimal_digits [of "nat (abs n)"] digits_value_decimal [of "nat (abs n)"]
    by (auto simp: atoi_def formatInt_def Let_def abs_if split: if_splits)
qed

section \<open>Host and port\<close>

datatype addr_error = MissingPort | TooManyColons | MissingBracket | UnexpectedOpen | UnexpectedClose

definition splitHostPort :: "gostring \<Rightarrow> addr_error + gostring \<times> gostring" where
  "splitHostPort hp =
     (case last_index_of (CHR '':'') hp of
        None \<Rightarrow> Inl MissingPort
      | Some i \<Rightarrow>
          (let finish = (\<lambda>host j k.
                 if CHR ''['' \<in> set (drop j hp) then Inl UnexpectedOpen
                 else if CHR '']'' \<in> set (drop k hp) then Inl UnexpectedClose
                 else Inr (host, drop (Suc i) hp)) in
           if hd hp = CHR ''['' then
             (case index_of (CHR '']'') hp of
                None \<Rightarrow> Inl MissingBracket
              | Some e \<Rightarrow>
                  if e + 1 = length hp then Inl MissingPort
                  else if e + 1 = i then finish (drop 1 (take e hp)) 1 (e + 1)
                  else if hp ! (e + 1) = CHR '':'' then Inl TooManyColons
                  else Inl MissingPort)
           else if CHR '':'' \<in> set (take i hp) then Inl TooManyColons
           else finish (take i hp) 0 0))"

definition joinHostPort :: "gostring \<Rightarrow> gostring \<Rightarrow> gostring" where
  "joinHostPort host port =
     (if CHR '':'' \<in> set host then ''['' @ host @ '']:'' @ port else host @ '':'' @ port)"

text \<open>Joining and splitting are inverse on hosts and ports without brackets and ports without colons.\<close>

lemma splitHostPort_join:
  assumes "CHR ''['' \<notin> set host" "CHR '']'' \<notin> set host"
    and "CHR ''['' \<notin> set port" "CHR '']'' \<notin> set port" "CHR '':'' \<notin> set port"
  shows "splitHostPort (joinHostPort host port) = Inr (host, port)"
proof (cases "CHR '':'' \<in> set host")
  case True
  let ?hp = "''['' @ host @ '']:'' @ port"
  have last: "last_index_of (CHR '':'') ((''['' @ host @ '']'') @ CHR '':'' # port) = Some (length host + 2)"
    using assms(5) by (subst last_index_of_append) auto
  have "index_of (CHR '']'') (host @ CHR '']'' # t) = Some (length host)" for t
    using assms(2) by (induction host) auto
  then have close: "index_of (CHR '']'') ?hp = Some (length host + 1)" by simp
  show ?thesis
    using True assms last close by (simp add: joinHostPort_def splitHostPort_def Let_def)
next
  case False
  have last: "last_index_of (CHR '':'') (host @ CHR '':'' # port) = Some (length host)"
    using assms(5) by (rule last_index_of_append)
  have "hd (host @ CHR '':'' # port) \<noteq> CHR ''[''"
    using assms(1) by (cases host) auto
  then show ?thesis
    using False assms last by (simp add: joinHostPort_def splitHostPort_def Let_def)
qed

section \<open>Header names\<close>

text \<open>The canonical form of a header name: upper case at the start and after a hyphen.\<close>

definition ascii_upper :: "nat \<Rightarrow> nat" where
  "ascii_upper b = (if 97 \<le> b \<and> b \<le> 122 then b - 32 else b)"

fun canon_from :: "bool \<Rightarrow> gostring \<Rightarrow> gostring" where
  "canon_from up [] = []"
| "canon_from up (c # s) =
     char_of (if up then ascii_upper (byte_of c) else ascii_lower (byte_of c))
     # canon_from (c = CHR ''-'') s"

definition canonicalHeaderKey :: "gostring \<Rightarrow> gostring" where
  "canonicalHeaderKey s = canon_from True s"

end
