(* ===== verification/GoFloat.thy ===== *)
theory GoFloat
  imports Complex_Main GoBase
begin

text \<open>
  Go's \<open>float64\<close> arithmetic, as far as the program uses it. A finite float64 is its exact
  rational value, and every operation of the source is the exact operation followed by \<open>fl64\<close>,
  the rounding of IEEE 754 binary64 to the nearest value, ties to even, with gradual underflow.
  Values stay far below the overflow threshold (they come from int64 values), and no division
  by zero is reached, so infinities and NaN do not occur. Each operation is rounded on its own
  (no fused multiply-add), as on the amd64 and 386 targets the Makefile builds.

  The locale \<open>rounding\<close> is what the clients need to know of the rounding; \<open>fl64\<close> is its
  interpretation.
\<close>

type_synonym float64 = rat

definition round_even :: "rat \<Rightarrow> int" where
  "round_even q =
     (let f = \<lfloor>q\<rfloor>; r = q - of_int f in
      if r < 1 / 2 then f else if 1 / 2 < r then f + 1 else if even f then f else f + 1)"

text \<open>
  Above \<open>2 ^ 53\<close> the value is halved until its significand fits; below \<open>2 ^ 52\<close> it is doubled
  at most 1074 times, so the quantum is never finer than \<open>2 ^ -1074\<close>, the subnormal one.
\<close>

function fl_up :: "rat \<Rightarrow> rat" where
  "fl_up q = (if q < 2 ^ 53 then of_int (round_even q) else 2 * fl_up (q / 2))"
  by pat_completeness auto
termination
proof (relation "measure (\<lambda>q. nat \<lfloor>q\<rfloor>)", goal_cases)
  case 1
  show ?case by simp
next
  case (2 q)
  then have q: "2 ^ 53 \<le> q" by simp
  then have "q / 2 \<le> q - 1" by simp
  then have "\<lfloor>q / 2\<rfloor> \<le> \<lfloor>q\<rfloor> - 1"
    by (metis floor_diff_one floor_mono)
  moreover have "1 \<le> \<lfloor>q\<rfloor>" using q by (simp add: le_floor_iff)
  ultimately show ?case by simp
qed

declare fl_up.simps [simp del]

fun fl_down :: "nat \<Rightarrow> rat \<Rightarrow> rat" where
  "fl_down 0 q = (if 2 ^ 52 \<le> q then fl_up q else of_int (round_even q))"
| "fl_down (Suc n) q = (if 2 ^ 52 \<le> q then fl_up q else fl_down n (2 * q) / 2)"

definition fl64 :: "rat \<Rightarrow> float64" where
  "fl64 q = (if q = 0 then 0 else if q < 0 then - fl_down 1074 (- q) else fl_down 1074 q)"

section \<open>Rounding is monotone and exact on small integers\<close>

lemma round_even_of_int [simp]: "round_even (of_int k) = k"
  by (simp add: round_even_def)

lemma round_even_near: "\<lfloor>q\<rfloor> \<le> round_even q \<and> round_even q \<le> \<lfloor>q\<rfloor> + 1"
  by (simp add: round_even_def Let_def)

lemma round_even_mono:
  assumes "p \<le> q"
  shows "round_even p \<le> round_even q"
proof (cases "\<lfloor>p\<rfloor> = \<lfloor>q\<rfloor>")
  case True
  with assms show ?thesis by (auto simp: round_even_def Let_def)
next
  case False
  from assms have "\<lfloor>p\<rfloor> \<le> \<lfloor>q\<rfloor>" by (rule floor_mono)
  with False have "\<lfloor>p\<rfloor> + 1 \<le> \<lfloor>q\<rfloor>" by simp
  then show ?thesis
    using round_even_near [of p] round_even_near [of q] by linarith
qed

lemma round_even_le: "p \<le> of_int k \<Longrightarrow> round_even p \<le> k"
  using round_even_mono [of p "of_int k"] by simp

lemma round_even_ge: "of_int k \<le> p \<Longrightarrow> k \<le> round_even p"
  using round_even_mono [of "of_int k" p] by simp

lemma fl_up_small: "q < 2 ^ 53 \<Longrightarrow> fl_up q = of_int (round_even q)"
  by (subst fl_up.simps) simp

lemma fl_up_big: "2 ^ 53 \<le> q \<Longrightarrow> fl_up q = 2 * fl_up (q / 2)"
  by (subst fl_up.simps) simp

lemma fl_up_small_le:
  assumes "q < 2 ^ 53"
  shows "fl_up q \<le> 2 ^ 53"
proof -
  have "round_even q \<le> 2 ^ 53" using assms by (intro round_even_le) simp
  then have "(of_int (round_even q) :: rat) \<le> of_int (2 ^ 53)" by (simp only: of_int_le_iff)
  with assms show ?thesis by (simp add: fl_up_small)
qed

lemma fl_up_ge: "2 ^ 52 \<le> q \<Longrightarrow> 2 ^ 52 \<le> fl_up q"
proof (induction q rule: fl_up.induct)
  case (1 q)
  show ?case
  proof (cases "q < 2 ^ 53")
    case True
    have "(2 ^ 52 :: int) \<le> round_even q"
      using "1.prems" by (intro round_even_ge) simp
    then have "(of_int (2 ^ 52) :: rat) \<le> of_int (round_even q)"
      by (simp only: of_int_le_iff)
    with True show ?thesis by (simp add: fl_up_small)
  next
    case False
    with 1 show ?thesis by (simp add: fl_up_big)
  qed
qed

lemma fl_up_mono: "p \<le> q \<Longrightarrow> fl_up p \<le> fl_up q"
proof (induction q arbitrary: p rule: fl_up.induct)
  case (1 q)
  consider "q < 2 ^ 53" | "p < 2 ^ 53" "2 ^ 53 \<le> q" | "2 ^ 53 \<le> p"
    by linarith
  then show ?case
  proof cases
    case 1
    with \<open>p \<le> q\<close> show ?thesis by (simp add: fl_up_small round_even_mono)
  next
    case 2
    have "2 ^ 52 \<le> fl_up (q / 2)" using 2 by (intro fl_up_ge) simp
    then have "2 ^ 53 \<le> fl_up q" using 2 by (simp add: fl_up_big)
    with fl_up_small_le [of p] 2 show ?thesis by linarith
  next
    case 3
    with 1 show ?thesis by (simp add: fl_up_big)
  qed
qed

lemma fl_up_of_nat: "fl_up (of_nat n) = of_nat n" if "n \<le> 2 ^ 53"
proof (cases "n = 2 ^ 53")
  case True
  have "fl_up (2 ^ 52) = 2 ^ 52"
    using round_even_of_int [of "2 ^ 52"] by (simp add: fl_up_small)
  with True show ?thesis by (simp add: fl_up_big)
next
  case False
  with that have "n < 2 ^ 53" by simp
  then have "(of_nat n :: rat) < of_nat (2 ^ 53)" by (simp only: of_nat_less_iff)
  then have "(of_nat n :: rat) < 2 ^ 53" by simp
  then show ?thesis
    using round_even_of_int [of "int n"] by (simp add: fl_up_small)
qed

lemma fl_down_ge: "2 ^ 52 \<le> q \<Longrightarrow> fl_down n q = fl_up q"
  by (cases n) auto

lemma fl_down_small_le: "q < 2 ^ 52 \<Longrightarrow> fl_down n q \<le> 2 ^ 52"
proof (induction n arbitrary: q)
  case 0
  then have "round_even q \<le> 2 ^ 52" by (intro round_even_le) simp
  then have "(of_int (round_even q) :: rat) \<le> of_int (2 ^ 52)" by (simp only: of_int_le_iff)
  with 0 show ?case by simp
next
  case (Suc n)
  show ?case
  proof (cases "2 * q < 2 ^ 52")
    case True
    then have "fl_down n (2 * q) \<le> 2 ^ 52" by (rule Suc.IH)
    with Suc.prems show ?thesis by simp
  next
    case False
    then have "fl_down n (2 * q) = fl_up (2 * q)" by (intro fl_down_ge) simp
    also have "\<dots> \<le> 2 ^ 53" using Suc.prems by (intro fl_up_small_le) simp
    finally show ?thesis using Suc.prems by simp
  qed
qed

lemma fl_down_mono: "p \<le> q \<Longrightarrow> fl_down n p \<le> fl_down n q"
proof (induction n arbitrary: p q)
  case 0
  have "fl_down 0 p \<le> 2 ^ 52" if "p < 2 ^ 52" using that by (rule fl_down_small_le)
  with 0 fl_up_ge [of q] show ?case
    by (cases "2 ^ 52 \<le> p"; cases "2 ^ 52 \<le> q") (force simp: fl_up_mono round_even_mono)+
next
  case (Suc n)
  consider "2 ^ 52 \<le> p" | "p < 2 ^ 52" "2 ^ 52 \<le> q" | "q < 2 ^ 52"
    by linarith
  then show ?case
  proof cases
    case 1
    with Suc.prems show ?thesis by (simp add: fl_up_mono)
  next
    case 2
    have "fl_down (Suc n) p \<le> 2 ^ 52" using 2 by (intro fl_down_small_le) simp
    with fl_up_ge [of q] 2 show ?thesis by simp
  next
    case 3
    with Suc show ?thesis by simp
  qed
qed

lemma fl_down_of_nat: "n \<le> 2 ^ 53 \<Longrightarrow> fl_down k (of_nat n) = of_nat n"
proof (induction k arbitrary: n)
  case 0
  then show ?case
    using fl_up_of_nat [of n] round_even_of_int [of "int n"] by simp
next
  case (Suc k)
  show ?case
  proof (cases "2 ^ 52 \<le> (of_nat n :: rat)")
    case True
    with Suc.prems show ?thesis by (simp add: fl_up_of_nat)
  next
    case False
    then have "(of_nat n :: rat) < of_nat (2 ^ 52)" by simp
    then have "n < 2 ^ 52" by (simp only: of_nat_less_iff)
    then have "fl_down k (of_nat (2 * n)) = of_nat (2 * n)" by (intro Suc.IH) simp
    with False show ?thesis by simp
  qed
qed

lemma fl_down_nonneg: "0 \<le> q \<Longrightarrow> 0 \<le> fl_down k q"
  using fl_down_mono [of 0 q k] fl_down_of_nat [of 0 k] by simp

lemma fl64_nonneg_eq: "0 \<le> q \<Longrightarrow> fl64 q = fl_down 1074 q"
  using fl_down_of_nat [of 0 1074] by (auto simp: fl64_def)

lemma fl64_neg_eq: "q < 0 \<Longrightarrow> fl64 q = - fl_down 1074 (- q)"
  by (simp add: fl64_def)

lemma fl64_mono: "p \<le> q \<Longrightarrow> fl64 p \<le> fl64 q"
proof -
  assume le: "p \<le> q"
  consider "0 \<le> p" | "p < 0" "0 \<le> q" | "q < 0"
    by linarith
  then show ?thesis
  proof cases
    case 1
    with le show ?thesis by (simp add: fl64_nonneg_eq fl_down_mono)
  next
    case 2
    then show ?thesis
      using fl_down_nonneg [of "- p" 1074] fl_down_nonneg [of q 1074]
      by (simp add: fl64_nonneg_eq fl64_neg_eq)
  next
    case 3
    with le show ?thesis by (simp add: fl64_neg_eq fl_down_mono)
  qed
qed

lemma fl64_of_nat: "n \<le> 2 ^ 53 \<Longrightarrow> fl64 (of_nat n) = of_nat n"
  by (simp add: fl64_nonneg_eq fl_down_of_nat)

section \<open>What the clients use\<close>

locale rounding =
  fixes rnd :: "rat \<Rightarrow> rat"
  assumes rnd_mono: "p \<le> q \<Longrightarrow> rnd p \<le> rnd q"
    and rnd_nat: "n \<le> 2 ^ 53 \<Longrightarrow> rnd (of_nat n) = of_nat n"
begin

lemma rnd_zero [simp]: "rnd 0 = 0"
  using rnd_nat [of 0] by simp

lemma rnd_one [simp]: "rnd 1 = 1"
  using rnd_nat [of 1] by simp

lemma rnd_int: "0 \<le> k \<Longrightarrow> k \<le> 2 ^ 53 \<Longrightarrow> rnd (of_int k) = of_int k"
  using rnd_nat [of "nat k"] by (simp add: nat_le_iff)

lemma rnd_nonneg: "0 \<le> q \<Longrightarrow> 0 \<le> rnd q"
  using rnd_mono [of 0 q] by simp

lemma rnd_le_one: "q \<le> 1 \<Longrightarrow> rnd q \<le> 1"
  using rnd_mono [of q 1] by simp

text \<open>The computed quotient of two non-negative values with \<open>a \<le> b\<close> lies in the unit interval.\<close>

lemma rnd_quotient_unit:
  assumes "0 \<le> a" and "a \<le> b"
  shows "0 \<le> rnd (rnd a / rnd b) \<and> rnd (rnd a / rnd b) \<le> 1"
proof -
  have "0 \<le> rnd a" and "rnd a \<le> rnd b"
    using assms by (auto intro: rnd_nonneg rnd_mono)
  then have "0 \<le> rnd a / rnd b" and "rnd a / rnd b \<le> 1"
    by (auto simp: divide_le_eq_1)
  then show ?thesis by (simp add: rnd_nonneg rnd_le_one)
qed

text \<open>
  A count plus a computed non-negative weight is at least the count, and exactly the count when
  the weight is 0: rounding never pushes the sum below a representable integer.
\<close>

lemma rnd_add_ge:
  assumes "0 \<le> x" and "0 \<le> k" and "k \<le> 2 ^ 53"
  shows "of_int k \<le> rnd (x + rnd (of_int k))"
proof -
  have "rnd (of_int k) \<le> rnd (x + of_int k)"
    using assms(1) by (intro rnd_mono) simp
  with assms(2,3) show ?thesis by (simp add: rnd_int)
qed

end

interpretation f64: rounding fl64
  by unfold_locales (auto intro: fl64_mono fl64_of_nat)

end
