(* ===== verification/Http.thy ===== *)
theory Http
  imports GoStr GoFloat
begin

text \<open>
  What the handlers and middlewares share of \<open>net/http\<close> and \<open>encoding/json\<close>: requests, the
  response writer with its write-once status line, JSON values (the bytes \<open>encoding/json\<close> makes
  of them are not modelled: a body chunk holds the value), the JSON helpers of
  middleware/middleware.go and server/handlers.go, and the state a handler runs in. Handlers
  return normally or panic.
\<close>

section \<open>JSON values\<close>

datatype json =
    JNull
  | JBool bool
  | JInt int
  | JNum rat
  | JStr gostring
  | JArr "json list"
  | JObj "(gostring \<times> json) list"

text \<open>
  A chunk of a response body: raw bytes, the bytes \<open>json.Marshal\<close> makes of a value, or what a
  \<open>json.Encoder\<close> writes for it (the same with a newline).
\<close>

datatype chunk = RawChunk gostring | MarshalChunk json | EncodeChunk json

section \<open>Requests and the response writer\<close>

type_synonym headers = "(gostring, gostring list) gomap"

record request =
  req_method :: gostring
  req_path :: gostring
  req_headers :: headers
  req_query :: "(gostring, gostring list) gomap"
  req_remote :: gostring
  req_body :: "json option"
  req_ctx_ip :: "gostring option"

text \<open>
  \<open>req_body\<close> is the first JSON value of the body, \<^const>\<open>None\<close> where the decoder fails
  (malformed, empty or cut off by the size limit). \<open>req_ctx_ip\<close> is the context value under
  \<open>clientIPKey\<close>.
\<close>

definition header_get :: "headers \<Rightarrow> gostring \<Rightarrow> gostring" where
  "header_get h k =
     (case map_of h (canonicalHeaderKey k) of Some (v # _) \<Rightarrow> v | _ \<Rightarrow> [])"

definition query_get :: "request \<Rightarrow> gostring \<Rightarrow> gostring" where
  "query_get r k = (case map_of (req_query r) k of Some (v # _) \<Rightarrow> v | _ \<Rightarrow> [])"

text \<open>
  \<open>rw_sent\<close> is the header as it was when the status line went out. \<open>rw_lrw\<close> is the status code
  kept by the logging wrapper, when the writer a handler sees is wrapped.
\<close>

record response =
  rw_header :: headers
  rw_status :: "nat option"
  rw_sent :: headers
  rw_body :: "chunk list"
  rw_lrw :: "nat option"

definition empty_response :: response where
  "empty_response = \<lparr>rw_header = [], rw_status = None, rw_sent = [], rw_body = [], rw_lrw = None\<rparr>"

definition set_header :: "gostring \<Rightarrow> gostring \<Rightarrow> response \<Rightarrow> response" where
  "set_header k v rw = rw\<lparr>rw_header := AList.update (canonicalHeaderKey k) [v] (rw_header rw)\<rparr>"

definition add_header :: "gostring \<Rightarrow> gostring \<Rightarrow> response \<Rightarrow> response" where
  "add_header k v rw =
     (let key = canonicalHeaderKey k;
          old = (case map_of (rw_header rw) key of None \<Rightarrow> [] | Some vs \<Rightarrow> vs) in
      rw\<lparr>rw_header := AList.update key (old @ [v]) (rw_header rw)\<rparr>)"

text \<open>The underlying writer sends one status line; later calls are ignored.\<close>

definition send_status :: "nat \<Rightarrow> response \<Rightarrow> response" where
  "send_status code rw =
     (case rw_status rw of
        Some _ \<Rightarrow> rw
      | None \<Rightarrow> rw\<lparr>rw_status := Some code, rw_sent := rw_header rw\<rparr>)"

text \<open>
  \<open>WriteHeader\<close> through \<open>loggingResponseWriter\<close>: the wrapper records the code, then passes it on.
\<close>

definition writeHeader :: "nat \<Rightarrow> response \<Rightarrow> response" where
  "writeHeader code rw =
     send_status code
       (case rw_lrw rw of None \<Rightarrow> rw | Some _ \<Rightarrow> rw\<lparr>rw_lrw := Some code\<rparr>)"

definition write_chunk :: "chunk \<Rightarrow> response \<Rightarrow> response" where
  "write_chunk c rw = (let rw1 = send_status 200 rw in rw1\<lparr>rw_body := rw_body rw1 @ [c]\<rparr>)"

section \<open>The JSON helpers\<close>

definition error_json :: "gostring \<Rightarrow> gostring \<Rightarrow> json" where
  "error_json message errorType = JObj [(''error'', JStr message), (''error_type'', JStr errorType)]"

definition writeJSONError :: "gostring \<Rightarrow> nat \<Rightarrow> gostring \<Rightarrow> response \<Rightarrow> response" where
  "writeJSONError message statusCode errorType rw =
     write_chunk (MarshalChunk (error_json message errorType))
       (writeHeader statusCode (set_header ''Content-Type'' ''application/json'' rw))"

definition jsonResponse :: "json \<Rightarrow> nat \<Rightarrow> response \<Rightarrow> response" where
  "jsonResponse data statusCode rw =
     write_chunk (EncodeChunk data)
       (writeHeader statusCode (set_header ''Content-Type'' ''application/json'' rw))"

definition jsonError :: "gostring \<Rightarrow> nat \<Rightarrow> gostring \<Rightarrow> response \<Rightarrow> response" where
  "jsonError message statusCode errorType rw = writeJSONError message statusCode errorType rw"

section \<open>The state a handler runs in\<close>

text \<open>
  \<open>w_clk\<close> are the readings the clock will give, in order, and \<open>w_iter\<close> the map iteration
  orders; \<open>w_ticks\<close> counts the readings taken. \<open>w_access\<close> is the request log (client, method,
  path, status).
\<close>

record access_entry =
  ae_ip :: gostring
  ae_method :: gostring
  ae_path :: gostring
  ae_status :: nat

record world =
  w_clk :: "nat \<Rightarrow> time"
  w_iter :: "nat \<Rightarrow> gostring iter_order"
  w_ticks :: nat
  w_rw :: response
  w_access :: "access_entry list"

datatype 'w outcome = Done 'w | Panic 'w

type_synonym 'w handler = "request \<Rightarrow> 'w \<Rightarrow> 'w outcome"

definition time_now :: "'a world_scheme \<Rightarrow> time" where
  "time_now w = w_clk w (w_ticks w)"

definition iter_now :: "'a world_scheme \<Rightarrow> gostring iter_order" where
  "iter_now w = w_iter w (w_ticks w)"

definition tick :: "'a world_scheme \<Rightarrow> 'a world_scheme" where
  "tick w = w\<lparr>w_ticks := Suc (w_ticks w)\<rparr>"

definition on_rw :: "(response \<Rightarrow> response) \<Rightarrow> 'a world_scheme \<Rightarrow> 'a world_scheme" where
  "on_rw f w = w\<lparr>w_rw := f (w_rw w)\<rparr>"

fun outcome_world :: "'w outcome \<Rightarrow> 'w" where
  "outcome_world (Done w) = w"
| "outcome_world (Panic w) = w"

fun bind_done :: "'w outcome \<Rightarrow> ('w \<Rightarrow> 'w outcome) \<Rightarrow> 'w outcome" where
  "bind_done (Done w) f = f w"
| "bind_done (Panic w) f = Panic w"

text \<open>A legal environment: the clock never goes back and never reads Go's zero time.\<close>

definition clock_ok :: "'a world_scheme \<Rightarrow> bool" where
  "clock_ok w = (\<forall>i. 0 < w_clk w i \<and> w_clk w i \<le> w_clk w (Suc i))"

definition orders_ok :: "'a world_scheme \<Rightarrow> bool" where
  "orders_ok w = (\<forall>i. iter_ok (w_iter w i))"

section \<open>Facts about responses\<close>

named_theorems rw_simps

lemma set_header_sel [simp, rw_simps]:
  "rw_status (set_header k v rw) = rw_status rw"
  "rw_sent (set_header k v rw) = rw_sent rw"
  "rw_body (set_header k v rw) = rw_body rw"
  "rw_lrw (set_header k v rw) = rw_lrw rw"
  by (simp_all add: set_header_def)

lemma add_header_sel [simp, rw_simps]:
  "rw_status (add_header k v rw) = rw_status rw"
  "rw_sent (add_header k v rw) = rw_sent rw"
  "rw_body (add_header k v rw) = rw_body rw"
  "rw_lrw (add_header k v rw) = rw_lrw rw"
  by (simp_all add: add_header_def Let_def)

lemma set_header_lookup:
  "map_of (rw_header (set_header k v rw)) =
     (map_of (rw_header rw))(canonicalHeaderKey k \<mapsto> [v])"
  by (simp add: set_header_def)

lemma writeHeader_sel [simp, rw_simps]:
  "rw_header (writeHeader c rw) = rw_header rw"
  "rw_body (writeHeader c rw) = rw_body rw"
  "rw_status (writeHeader c rw) = (case rw_status rw of None \<Rightarrow> Some c | Some s \<Rightarrow> Some s)"
  "rw_sent (writeHeader c rw) = (case rw_status rw of None \<Rightarrow> rw_header rw | Some s \<Rightarrow> rw_sent rw)"
  "rw_lrw (writeHeader c rw) = (case rw_lrw rw of None \<Rightarrow> None | Some _ \<Rightarrow> Some c)"
  by (auto simp: writeHeader_def send_status_def split: option.split)

lemma write_chunk_sel [simp, rw_simps]:
  "rw_header (write_chunk c rw) = rw_header rw"
  "rw_body (write_chunk c rw) = rw_body rw @ [c]"
  "rw_status (write_chunk c rw) = (case rw_status rw of None \<Rightarrow> Some 200 | Some s \<Rightarrow> Some s)"
  "rw_sent (write_chunk c rw) = (case rw_status rw of None \<Rightarrow> rw_header rw | Some s \<Rightarrow> rw_sent rw)"
  "rw_lrw (write_chunk c rw) = rw_lrw rw"
  by (auto simp: write_chunk_def send_status_def Let_def split: option.split)

lemma on_rw_sel [simp]:
  "w_rw (on_rw f w) = f (w_rw w)"
  "w_clk (on_rw f w) = w_clk w"
  "w_iter (on_rw f w) = w_iter w"
  "w_ticks (on_rw f w) = w_ticks w"
  "w_access (on_rw f w) = w_access w"
  by (simp_all add: on_rw_def)

lemma tick_sel [simp]:
  "w_rw (tick w) = w_rw w"
  "w_clk (tick w) = w_clk w"
  "w_iter (tick w) = w_iter w"
  "w_ticks (tick w) = Suc (w_ticks w)"
  "w_access (tick w) = w_access w"
  by (simp_all add: tick_def)

lemma writeJSONError_sel [simp]:
  "rw_status (writeJSONError m c t rw) = (case rw_status rw of None \<Rightarrow> Some c | Some s \<Rightarrow> Some s)"
  "rw_body (writeJSONError m c t rw) = rw_body rw @ [MarshalChunk (error_json m t)]"
  "rw_lrw (writeJSONError m c t rw) = (case rw_lrw rw of None \<Rightarrow> None | Some _ \<Rightarrow> Some c)"
  by (simp_all add: writeJSONError_def split: option.split)

lemma jsonResponse_sel [simp]:
  "rw_status (jsonResponse d c rw) = (case rw_status rw of None \<Rightarrow> Some c | Some s \<Rightarrow> Some s)"
  "rw_body (jsonResponse d c rw) = rw_body rw @ [EncodeChunk d]"
  "rw_lrw (jsonResponse d c rw) = (case rw_lrw rw of None \<Rightarrow> None | Some _ \<Rightarrow> Some c)"
  by (simp_all add: jsonResponse_def split: option.split)

section \<open>Messages of the middlewares\<close>

definition msg_unauthorized :: gostring where
  "msg_unauthorized = utf8_lit
     [230, 156, 170, 230, 142, 136, 230, 157, 131, 32, 40, 85, 110, 97, 117, 116, 104, 111,
      114, 105, 122, 101, 100, 41]"

definition msg_auth_blocked :: gostring where
  "msg_auth_blocked = utf8_lit
     [232, 174, 164, 232, 175, 129, 229, 164, 177, 232, 180, 165, 230, 172, 161, 230, 149,
      176, 232, 191, 135, 229, 164, 154, 239, 188, 140, 232, 175, 183, 32, 53, 32, 229, 136,
      134, 233, 146, 159, 229, 144, 142, 229, 134, 141, 232, 175, 149]"

definition msg_too_frequent :: gostring where
  "msg_too_frequent = utf8_lit
     [232, 175, 183, 230, 177, 130, 232, 191, 135, 228, 186, 142, 233, 162, 145, 231, 185,
      129, 239, 188, 140, 232, 175, 183, 231, 168, 141, 229, 144, 142, 229, 134, 141, 232,
      175, 149]"

definition body_missing_origin :: gostring where
  "body_missing_origin = utf8_lit
     [123, 34, 101, 114, 114, 111, 114, 34, 58, 34, 231, 188, 186, 229, 176, 145, 32, 79, 114,
      105, 103, 105, 110, 32, 229, 164, 180, 32, 40, 77, 105, 115, 115, 105, 110, 103, 32, 79,
      114, 105, 103, 105, 110, 32, 104, 101, 97, 100, 101, 114, 41, 34, 125]"

definition body_invalid_origin :: gostring where
  "body_invalid_origin = utf8_lit
     [123, 34, 101, 114, 114, 111, 114, 34, 58, 34, 233, 157, 158, 230, 179, 149, 232, 175,
      183, 230, 177, 130, 230, 157, 165, 230, 186, 144, 32, 40, 73, 110, 118, 97, 108, 105,
      100, 32, 79, 114, 105, 103, 105, 110, 41, 34, 125]"

end
