(* ===== verification/RateLimiter.thy ===== *)
theory RateLimiter
  imports GoFloat
begin

text \<open>
  The sliding-window request limiter (middleware/ratelimit.go): one window record per client
  IP in a bounded table, a decision per request, the removal of stale entries by the cleanup
  goroutine and the eviction of the oldest entry when the table is full. Every method runs
  under the limiter's mutex, so a call is one atomic step.
\<close>

definition maxTrackedIPs :: nat where
  "maxTrackedIPs = 10000"

record sliding_window =
  prevCount :: int
  currCount :: int
  windowStart :: time

record rate_limiter =
  requests :: "(gostring, sliding_window) gomap"
  rl_limit :: int
  rl_window :: duration

definition limiter :: rate_limiter where
  "limiter = \<lparr>requests = [], rl_limit = 100, rl_window = minute\<rparr>"

section \<open>Operations\<close>

text \<open>
  The scan of \<open>evictOldest\<close>: the pair \<open>(oldestIP, oldestTime)\<close> over the keys in iteration
  order. The empty string doubles as "nothing found yet", as in the code.
\<close>

fun evict_scan ::
  "gostring list \<Rightarrow> (gostring, sliding_window) gomap \<Rightarrow> gostring \<times> time \<Rightarrow> gostring \<times> time" where
  "evict_scan [] m acc = acc"
| "evict_scan (ip # ips) m (oldestIP, oldestTime) =
     evict_scan ips m
       (case map_of m ip of
          None \<Rightarrow> (oldestIP, oldestTime)
        | Some sw \<Rightarrow>
            if oldestIP = [] \<or> windowStart sw < oldestTime
            then (ip, windowStart sw) else (oldestIP, oldestTime))"

definition evictOldest :: "gostring iter_order \<Rightarrow> rate_limiter \<Rightarrow> rate_limiter" where
  "evictOldest perm rl =
     (let (oldestIP, _) = evict_scan (perm (gm_keys (requests rl))) (requests rl) ([], 0) in
      if oldestIP \<noteq> [] then rl\<lparr>requests := AList.delete oldestIP (requests rl)\<rparr> else rl)"

text \<open>The window advance of \<open>checkAndRecord\<close> when more than one window has elapsed.\<close>

definition advance_window :: "duration \<Rightarrow> duration \<Rightarrow> sliding_window \<Rightarrow> sliding_window" where
  "advance_window window elapsed sw =
     \<lparr>prevCount = currCount sw, currCount = 0,
      windowStart = time_add (windowStart sw) (dur_mul window (dur_div elapsed window))\<rparr>"

text \<open>The weighted count: every float64 operation is rounded.\<close>

definition effective_count :: "duration \<Rightarrow> duration \<Rightarrow> sliding_window \<Rightarrow> float64" where
  "effective_count window elapsed sw =
     (let overlap = fl64 (1 - fl64 (fl64 (of_int elapsed) / fl64 (of_int window))) in
      fl64 (fl64 (fl64 (of_int (prevCount sw)) * overlap) + fl64 (of_int (currCount sw))))"

definition put_window :: "gostring \<Rightarrow> sliding_window \<Rightarrow> rate_limiter \<Rightarrow> rate_limiter" where
  "put_window ip sw rl = rl\<lparr>requests := AList.update ip sw (requests rl)\<rparr>"

definition checkAndRecord ::
  "gostring iter_order \<Rightarrow> time \<Rightarrow> gostring \<Rightarrow> rate_limiter \<Rightarrow> bool \<times> rate_limiter" where
  "checkAndRecord perm now ip rl =
     (case map_of (requests rl) ip of
        None \<Rightarrow>
          (let rl1 = (if maxTrackedIPs \<le> length (requests rl) then evictOldest perm rl else rl) in
           (True, put_window ip \<lparr>prevCount = 0, currCount = 1, windowStart = now\<rparr> rl1))
      | Some sw \<Rightarrow>
          (let elapsed = time_sub now (windowStart sw) in
           if dur_mul (rl_window rl) 2 < elapsed then
             (True, put_window ip \<lparr>prevCount = 0, currCount = 1, windowStart = now\<rparr> rl)
           else
             (let sw1 = (if rl_window rl < elapsed
                         then advance_window (rl_window rl) elapsed sw else sw);
                  elapsed1 = (if rl_window rl < elapsed
                              then time_sub now (windowStart sw1) else elapsed) in
              if fl64 (of_int (rl_limit rl)) \<le> effective_count (rl_window rl) elapsed1 sw1
              then (False, put_window ip sw1 rl)
              else (True, put_window ip (sw1\<lparr>currCount := currCount sw1 + 1\<rparr>) rl))))"

definition stale_window :: "time \<Rightarrow> duration \<Rightarrow> sliding_window \<Rightarrow> bool" where
  "stale_window now window sw = (dur_mul window 2 < time_sub now (windowStart sw))"

definition cleanupStaleKeys :: "gostring iter_order \<Rightarrow> time \<Rightarrow> rate_limiter \<Rightarrow> rate_limiter" where
  "cleanupStaleKeys perm now rl =
     rl\<lparr>requests :=
       gm_sweep (\<lambda>ip sw. stale_window now (rl_window rl) sw)
         (perm (gm_keys (requests rl))) (requests rl)\<rparr>"

section \<open>The invariant\<close>

definition window_ok :: "int \<Rightarrow> sliding_window \<Rightarrow> bool" where
  "window_ok bound sw =
     (0 \<le> prevCount sw \<and> prevCount sw \<le> bound \<and> 0 \<le> currCount sw \<and> currCount sw \<le> bound)"

definition params_ok :: "rate_limiter \<Rightarrow> bool" where
  "params_ok rl = (1 \<le> rl_limit rl \<and> rl_limit rl \<le> 2 ^ 53 \<and>
     0 < rl_window rl \<and> rl_window rl \<le> 2 ^ 61)"

definition rl_inv :: "rate_limiter \<Rightarrow> bool" where
  "rl_inv rl =
     (params_ok rl \<and> gm_wf (requests rl) \<and> [] \<notin> set (gm_keys (requests rl)) \<and>
      (\<forall>ip sw. map_of (requests rl) ip = Some sw \<longrightarrow> window_ok (rl_limit rl) sw))"

lemma rl_inv_limiter: "rl_inv limiter"
  by (simp add: rl_inv_def limiter_def params_ok_def gm_keys_def minute_def)

lemma put_window_sel [simp]:
  "requests (put_window ip sw rl) = AList.update ip sw (requests rl)"
  "rl_limit (put_window ip sw rl) = rl_limit rl"
  "rl_window (put_window ip sw rl) = rl_window rl"
  by (simp_all add: put_window_def)

lemma evictOldest_sel [simp]:
  "rl_limit (evictOldest perm rl) = rl_limit rl"
  "rl_window (evictOldest perm rl) = rl_window rl"
  by (simp_all add: evictOldest_def split: prod.split)

lemma cleanupStaleKeys_sel [simp]:
  "rl_limit (cleanupStaleKeys perm now rl) = rl_limit rl"
  "rl_window (cleanupStaleKeys perm now rl) = rl_window rl"
  by (simp_all add: cleanupStaleKeys_def)

lemma params_ok_cong [simp]:
  "params_ok (put_window ip sw rl) = params_ok rl"
  "params_ok (evictOldest perm rl) = params_ok rl"
  "params_ok (cleanupStaleKeys perm now rl) = params_ok rl"
  by (simp_all add: params_ok_def)

lemma double_window:
  assumes "params_ok rl"
  shows "dur_mul (rl_window rl) 2 = 2 * rl_window rl" and "dur_mul (rl_window rl) 2 < max_duration"
proof -
  have ok: "int64_ok (rl_window rl * 2)"
    using assms by (simp add: int64_ok_def params_ok_def)
  then show "dur_mul (rl_window rl) 2 = 2 * rl_window rl" by (simp add: dur_mul_def)
  then show "dur_mul (rl_window rl) 2 < max_duration"
    using assms by (simp add: params_ok_def max_duration_def)
qed

text \<open>
  Advancing the window moves its start by a whole number of windows and leaves the elapsed
  time below one window.
\<close>

lemma advance_window_elapsed:
  assumes p: "params_ok rl" and e: "e = time_sub now (windowStart sw)"
    and gt: "rl_window rl < e" and le: "e \<le> dur_mul (rl_window rl) 2"
  shows "windowStart (advance_window (rl_window rl) e sw) =
           windowStart sw + rl_window rl * (e div rl_window rl)"
    and "time_sub now (windowStart (advance_window (rl_window rl) e sw)) = e mod rl_window rl"
proof -
  let ?w = "rl_window rl"
  have w: "0 < ?w" "?w \<le> 2 ^ 61" using p by (auto simp: params_ok_def)
  have e_pos: "0 < e" using gt w by linarith
  have e_max: "e < max_duration" using le double_window(2) [OF p] by linarith
  have start_le: "windowStart sw \<le> now"
  proof (rule ccontr)
    assume "\<not> windowStart sw \<le> now"
    then have "time_sub now (windowStart sw) \<le> 0"
      by (simp add: time_sub_def min_duration_def max_duration_def)
    with e e_pos show False by simp
  qed
  have e_eq: "e = now - windowStart sw"
    using e e_max start_le time_sub_below [of now "windowStart sw"] by simp
  have div: "dur_div e ?w = e div ?w"
    using e_pos w by (simp add: dur_div_def)
  have mul: "dur_mul ?w (e div ?w) = ?w * (e div ?w)"
  proof -
    have split: "e = ?w * (e div ?w) + e mod ?w" by simp
    have "0 \<le> e mod ?w" using w by simp
    then have "?w * (e div ?w) \<le> e" using split by linarith
    moreover have "0 \<le> ?w * (e div ?w)" using w e_pos by (simp add: pos_imp_zdiv_nonneg_iff)
    ultimately have "int64_ok (?w * (e div ?w))"
      using e_max by (simp add: int64_ok_def max_duration_def)
    then show ?thesis by (simp add: dur_mul_def)
  qed
  show start: "windowStart (advance_window ?w e sw) = windowStart sw + ?w * (e div ?w)"
    by (simp add: advance_window_def time_add_def div mul)
  have diff: "now - windowStart (advance_window ?w e sw) = e mod ?w"
    using start e_eq minus_mult_div_eq_mod [of e ?w] by linarith
  have "0 \<le> e mod ?w" and "e mod ?w < ?w" using w by auto
  with w diff show "time_sub now (windowStart (advance_window ?w e sw)) = e mod ?w"
    by (subst time_sub_exact) (auto simp: int64_ok_def)
qed

text \<open>The weighted count is never below the current count.\<close>

lemma effective_ge_current:
  assumes w: "0 < window" and e: "elapsed \<le> window"
    and p: "0 \<le> prevCount sw" and c: "0 \<le> currCount sw" "currCount sw \<le> 2 ^ 53"
  shows "of_int (currCount sw) \<le> effective_count window elapsed sw"
proof -
  let ?q = "fl64 (fl64 (of_int elapsed) / fl64 (of_int window))"
  have "?q \<le> 1"
  proof (cases "0 \<le> elapsed")
    case True
    with e f64.rnd_quotient_unit [of "of_int elapsed" "of_int window"] show ?thesis by simp
  next
    case False
    then have "fl64 (of_int elapsed) \<le> 0"
      using f64.rnd_mono [of "of_int elapsed" 0] by simp
    moreover have "0 \<le> fl64 (of_int window)" using w by (intro f64.rnd_nonneg) simp
    ultimately show ?thesis
      by (intro f64.rnd_le_one order_trans [OF divide_nonpos_nonneg]) auto
  qed
  then have overlap: "0 \<le> fl64 (1 - ?q)" by (intro f64.rnd_nonneg) simp
  have prev: "0 \<le> fl64 (of_int (prevCount sw))" using p by (intro f64.rnd_nonneg) simp
  have "0 \<le> fl64 (fl64 (of_int (prevCount sw)) * fl64 (1 - ?q))"
    by (rule f64.rnd_nonneg [OF mult_nonneg_nonneg [OF prev overlap]])
  with c show ?thesis
    unfolding effective_count_def Let_def by (intro f64.rnd_add_ge)
qed

text \<open>With no requests in the previous window the weighted count is exactly the current count.\<close>

lemma effective_prev_zero:
  assumes "prevCount sw = 0" and "0 \<le> currCount sw" "currCount sw \<le> 2 ^ 53"
  shows "effective_count window elapsed sw = of_int (currCount sw)"
  using assms by (simp add: effective_count_def f64.rnd_int)

text \<open>At the very start of a window the previous window counts in full.\<close>

lemma effective_at_start:
  assumes "0 \<le> prevCount sw" and "0 \<le> currCount sw" and "prevCount sw + currCount sw \<le> 2 ^ 53"
  shows "effective_count window 0 sw = of_int (prevCount sw + currCount sw)"
proof -
  have "fl64 (of_int (prevCount sw)) = of_int (prevCount sw)"
    and "fl64 (of_int (currCount sw)) = of_int (currCount sw)"
    using assms by (auto intro!: f64.rnd_int)
  moreover have "fl64 (of_int (prevCount sw) + of_int (currCount sw)) =
      of_int (prevCount sw) + of_int (currCount sw)"
    using assms f64.rnd_int [of "prevCount sw + currCount sw"] by simp
  ultimately show ?thesis by (simp add: effective_count_def)
qed

section \<open>The branches of a check\<close>

definition live_window :: "duration \<Rightarrow> time \<Rightarrow> sliding_window \<Rightarrow> sliding_window" where
  "live_window window now sw =
     (if window < time_sub now (windowStart sw)
      then advance_window window (time_sub now (windowStart sw)) sw else sw)"

lemma check_untracked:
  assumes "map_of (requests rl) ip = None"
  shows "checkAndRecord perm now ip rl =
    (True, put_window ip \<lparr>prevCount = 0, currCount = 1, windowStart = now\<rparr>
       (if maxTrackedIPs \<le> length (requests rl) then evictOldest perm rl else rl))"
  using assms by (simp add: checkAndRecord_def)

lemma check_expired:
  assumes "map_of (requests rl) ip = Some sw" and "stale_window now (rl_window rl) sw"
  shows "checkAndRecord perm now ip rl =
    (True, put_window ip \<lparr>prevCount = 0, currCount = 1, windowStart = now\<rparr> rl)"
  using assms by (simp add: checkAndRecord_def stale_window_def)

lemma check_live:
  assumes "map_of (requests rl) ip = Some sw" and "\<not> stale_window now (rl_window rl) sw"
    and "sw1 = live_window (rl_window rl) now sw"
  shows "checkAndRecord perm now ip rl =
    (if fl64 (of_int (rl_limit rl))
        \<le> effective_count (rl_window rl) (time_sub now (windowStart sw1)) sw1
     then (False, put_window ip sw1 rl)
     else (True, put_window ip (sw1\<lparr>currCount := currCount sw1 + 1\<rparr>) rl))"
  using assms by (simp add: checkAndRecord_def stale_window_def live_window_def Let_def)

lemmas check_branches = check_untracked check_expired check_live

lemma live_window_elapsed:
  assumes "params_ok rl" and "\<not> stale_window now (rl_window rl) sw"
  shows "time_sub now (windowStart (live_window (rl_window rl) now sw)) \<le> rl_window rl"
proof (cases "rl_window rl < time_sub now (windowStart sw)")
  case True
  have "0 < rl_window rl" using assms(1) by (simp add: params_ok_def)
  then have "time_sub now (windowStart sw) mod rl_window rl \<le> rl_window rl"
    using pos_mod_bound [of "rl_window rl"] by (simp add: order_less_imp_le)
  with True assms advance_window_elapsed(2) [of rl "time_sub now (windowStart sw)" now sw]
  show ?thesis by (simp add: live_window_def stale_window_def)
next
  case False
  then show ?thesis by (simp add: live_window_def)
qed

lemma live_window_ok: "window_ok b sw \<Longrightarrow> window_ok b (live_window w now sw)"
  by (auto simp: window_ok_def live_window_def advance_window_def)

text \<open>A tracked client that is let through had fewer than the limit in its window.\<close>

lemma live_accept_below:
  assumes p: "params_ok rl" and sw1: "sw1 = live_window (rl_window rl) now sw"
    and live: "\<not> stale_window now (rl_window rl) sw" and ok: "window_ok (rl_limit rl) sw"
    and acc: "effective_count (rl_window rl) (time_sub now (windowStart sw1)) sw1
        < fl64 (of_int (rl_limit rl))"
  shows "currCount sw1 < rl_limit rl"
proof -
  have ok1: "window_ok (rl_limit rl) sw1" using ok sw1 by (simp add: live_window_ok)
  have "of_int (currCount sw1)
      \<le> effective_count (rl_window rl) (time_sub now (windowStart sw1)) sw1"
    using ok1 p live_window_elapsed [OF p live] sw1
    by (intro effective_ge_current) (auto simp: window_ok_def params_ok_def)
  also note acc
  also have "fl64 (of_int (rl_limit rl)) = of_int (rl_limit rl)"
    using p by (intro f64.rnd_int) (auto simp: params_ok_def)
  finally show ?thesis by simp
qed

section \<open>Eviction and preservation\<close>

lemma evict_scan_oldest:
  assumes "[] \<notin> set ips" and "set ips \<subseteq> set (gm_keys m)"
    and "oip \<noteq> []" and "map_of m oip = Some osw" and "ot = windowStart osw"
    and "evict_scan ips m (oip, ot) = (r, t)"
  shows "r \<noteq> [] \<and> t \<le> ot \<and> (\<exists>sw. map_of m r = Some sw \<and> t = windowStart sw) \<and>
    (\<forall>k sw'. k \<in> set ips \<longrightarrow> map_of m k = Some sw' \<longrightarrow> t \<le> windowStart sw')"
  using assms
proof (induction ips arbitrary: oip osw ot)
  case Nil
  then show ?case by auto
next
  case (Cons ip ips)
  then obtain sw where sw: "map_of m ip = Some sw" using gm_key_lookup [of ip m] by auto
  show ?case
  proof (cases "windowStart sw < ot")
    case True
    then have "evict_scan ips m (ip, windowStart sw) = (r, t)"
      using Cons.prems sw by simp
    then have "r \<noteq> [] \<and> t \<le> windowStart sw \<and> (\<exists>sw. map_of m r = Some sw \<and> t = windowStart sw) \<and>
        (\<forall>k sw'. k \<in> set ips \<longrightarrow> map_of m k = Some sw' \<longrightarrow> t \<le> windowStart sw')"
      using Cons.prems sw by (intro Cons.IH) auto
    with True sw show ?thesis by auto
  next
    case False
    then have "evict_scan ips m (oip, ot) = (r, t)"
      using Cons.prems sw by simp
    then have "r \<noteq> [] \<and> t \<le> ot \<and> (\<exists>sw. map_of m r = Some sw \<and> t = windowStart sw) \<and>
        (\<forall>k sw'. k \<in> set ips \<longrightarrow> map_of m k = Some sw' \<longrightarrow> t \<le> windowStart sw')"
      using Cons.prems by (intro Cons.IH) auto
    with False sw show ?thesis by auto
  qed
qed

lemma evictOldest_cases:
  obtains "evictOldest perm rl = rl"
  | ip where "evictOldest perm rl = rl\<lparr>requests := AList.delete ip (requests rl)\<rparr>"
proof -
  obtain ip t where "evict_scan (perm (gm_keys (requests rl))) (requests rl) ([], 0) = (ip, t)"
    by (cases "evict_scan (perm (gm_keys (requests rl))) (requests rl) ([], 0)") auto
  then show thesis using that by (cases "ip = []") (auto simp: evictOldest_def)
qed

lemma rl_inv_put:
  "rl_inv rl \<Longrightarrow> ip \<noteq> [] \<Longrightarrow> window_ok (rl_limit rl) sw \<Longrightarrow> rl_inv (put_window ip sw rl)"
  by (auto simp: rl_inv_def gm_keys_update)

lemma rl_inv_delete: "rl_inv rl \<Longrightarrow> rl_inv (rl\<lparr>requests := AList.delete ip (requests rl)\<rparr>)"
  by (auto simp: rl_inv_def gm_keys_delete params_ok_def)

lemma rl_inv_evict: "rl_inv rl \<Longrightarrow> rl_inv (evictOldest perm rl)"
  by (rule evictOldest_cases [of perm rl]) (auto dest: rl_inv_delete)

lemma rl_inv_check:
  assumes inv: "rl_inv rl" and ip: "ip \<noteq> []"
  shows "rl_inv (snd (checkAndRecord perm now ip rl))"
proof -
  have lim: "1 \<le> rl_limit rl" and p: "params_ok rl"
    using inv by (auto simp: rl_inv_def params_ok_def)
  have fresh: "window_ok (rl_limit rl) \<lparr>prevCount = 0, currCount = 1, windowStart = now\<rparr>"
    using lim by (simp add: window_ok_def)
  show ?thesis
  proof (cases "map_of (requests rl) ip")
    case None
    then show ?thesis
      using inv ip fresh by (auto simp: check_untracked intro!: rl_inv_put rl_inv_evict)
  next
    case (Some sw)
    then have ok: "window_ok (rl_limit rl) sw" using inv by (simp add: rl_inv_def)
    show ?thesis
    proof (cases "stale_window now (rl_window rl) sw")
      case True
      with Some show ?thesis using inv ip fresh by (simp add: check_expired rl_inv_put)
    next
      case False
      let ?sw1 = "live_window (rl_window rl) now sw"
      let ?e = "effective_count (rl_window rl) (time_sub now (windowStart ?sw1)) ?sw1"
      have ok1: "window_ok (rl_limit rl) ?sw1" using ok by (rule live_window_ok)
      have "window_ok (rl_limit rl) (?sw1\<lparr>currCount := currCount ?sw1 + 1\<rparr>)"
        if "?e < fl64 (of_int (rl_limit rl))"
        using live_accept_below [OF p refl False ok that] ok1 by (auto simp: window_ok_def)
      with ok1 show ?thesis
        using check_live [OF Some False refl] inv ip by (auto simp: rl_inv_put)
    qed
  qed
qed

lemma rl_inv_cleanup: "rl_inv rl \<Longrightarrow> rl_inv (cleanupStaleKeys perm now rl)"
  using gm_sweep_keys unfolding rl_inv_def
  by (fastforce simp: cleanupStaleKeys_def params_ok_def gm_sweep_lookup
      split: option.splits if_splits)

text \<open>
  With legal iteration and no empty key, the eviction removes one entry, and no entry has an
  older window.
\<close>

lemma evict_removes_oldest:
  assumes inv: "rl_inv rl" and perm: "iter_ok perm" and ne: "requests rl \<noteq> []"
  shows "\<exists>ip sw. map_of (requests rl) ip = Some sw \<and>
    evictOldest perm rl = rl\<lparr>requests := AList.delete ip (requests rl)\<rparr> \<and>
    (\<forall>k sw'. map_of (requests rl) k = Some sw' \<longrightarrow> windowStart sw \<le> windowStart sw')"
proof -
  let ?m = "requests rl"
  have keys: "set (perm (gm_keys ?m)) = set (gm_keys ?m)" using perm by (rule iter_ok_set)
  have noempty: "[] \<notin> set (gm_keys ?m)" using inv by (simp add: rl_inv_def)
  have "set (gm_keys ?m) \<noteq> {}" using ne by (simp add: gm_keys_def)
  then obtain ip ips where ord: "perm (gm_keys ?m) = ip # ips"
    using keys by (cases "perm (gm_keys ?m)") auto
  then obtain sw where sw: "map_of ?m ip = Some sw"
    using keys gm_key_lookup [of ip ?m] by auto
  obtain r t where scan: "evict_scan ips ?m (ip, windowStart sw) = (r, t)"
    by (cases "evict_scan ips ?m (ip, windowStart sw)")
  have "r \<noteq> [] \<and> t \<le> windowStart sw \<and> (\<exists>sw. map_of ?m r = Some sw \<and> t = windowStart sw) \<and>
    (\<forall>k sw'. k \<in> set ips \<longrightarrow> map_of ?m k = Some sw' \<longrightarrow> t \<le> windowStart sw')"
    using noempty ord keys sw scan by (intro evict_scan_oldest) auto
  moreover from this obtain rsw where "map_of ?m r = Some rsw" and "t = windowStart rsw" by blast
  moreover have "\<forall>k sw'. map_of ?m k = Some sw' \<longrightarrow> k \<in> set (ip # ips)"
    using keys ord gm_lookup_key by metis
  ultimately have "\<forall>k sw'. map_of ?m k = Some sw' \<longrightarrow> windowStart rsw \<le> windowStart sw'"
    using sw by auto
  moreover have "evictOldest perm rl = rl\<lparr>requests := AList.delete r ?m\<rparr>"
    using ord sw scan \<open>r \<noteq> [] \<and> _\<close> by (simp add: evictOldest_def)
  ultimately show ?thesis using \<open>map_of ?m r = Some rsw\<close> by blast
qed

lemma evict_makes_room:
  assumes "rl_inv rl" and "iter_ok perm" and "requests rl \<noteq> []"
  shows "Suc (length (requests (evictOldest perm rl))) = length (requests rl)"
  using evict_removes_oldest [OF assms] assms(1)
  by (auto simp: rl_inv_def intro!: length_delete_present dest: gm_lookup_key)

lemma check_length:
  assumes "rl_inv rl" and "iter_ok perm" and "length (requests rl) \<le> maxTrackedIPs"
  shows "length (requests (snd (checkAndRecord perm now ip rl))) \<le> maxTrackedIPs"
proof (cases "map_of (requests rl) ip")
  case None
  show ?thesis
  proof (cases "maxTrackedIPs \<le> length (requests rl)")
    case True
    then have "requests rl \<noteq> []" by (auto simp: maxTrackedIPs_def)
    from evict_makes_room [OF assms(1,2) this] None True assms(3)
    show ?thesis
      using length_update_le [of ip _ "requests (evictOldest perm rl)"]
      by (simp add: check_untracked)
  next
    case False
    with None show ?thesis
      using length_update_le [of ip _ "requests rl"]
      by (simp add: check_untracked) (metis le_trans not_less_eq_eq)
  qed
next
  case (Some sw)
  with assms(3) show ?thesis
    using check_live [OF Some _ refl, of now perm] check_expired [OF Some, of now perm]
    by (cases "stale_window now (rl_window rl) sw") (simp_all add: length_update_old)
qed

lemma cleanup_length: "length (requests (cleanupStaleKeys perm now rl)) \<le> length (requests rl)"
  by (simp add: cleanupStaleKeys_def gm_sweep_length)

section \<open>The limiter as a capped machine\<close>

datatype rl_event =
    Check "gostring iter_order" time gostring
  | Cleanup "gostring iter_order" time

fun rl_step :: "rl_event \<Rightarrow> rate_limiter \<Rightarrow> rate_limiter" where
  "rl_step (Check perm now ip) rl = snd (checkAndRecord perm now ip rl)"
| "rl_step (Cleanup perm now) rl = cleanupStaleKeys perm now rl"

fun rl_admissible :: "rl_event \<Rightarrow> bool" where
  "rl_admissible (Check perm now ip) = (iter_ok perm \<and> ip \<noteq> [])"
| "rl_admissible (Cleanup perm now) = iter_ok perm"

definition rl_inv_capped :: "rate_limiter \<Rightarrow> bool" where
  "rl_inv_capped rl = (rl_inv rl \<and> length (requests rl) \<le> maxTrackedIPs)"

interpretation rl: capped_machine rl_step rl_admissible rl_inv
  "\<lambda>rl. length (requests rl)" "\<lambda>_. maxTrackedIPs"
proof
  fix s e
  assume "rl_inv s" and "rl_admissible e"
  then show "rl_inv (rl_step e s)"
    by (cases e) (auto intro: rl_inv_check rl_inv_cleanup)
next
  fix s e
  assume "rl_inv s" and "rl_admissible e" and "length (requests s) \<le> maxTrackedIPs"
  then show "length (requests (rl_step e s)) \<le> maxTrackedIPs"
    using le_trans [OF cleanup_length]
    by (cases e) (auto intro: check_length)
qed simp

section \<open>Bursts\<close>

text \<open>The decisions on a sequence of requests of one client at the given times.\<close>

fun decide_all ::
  "gostring iter_order \<Rightarrow> gostring \<Rightarrow> time list \<Rightarrow> rate_limiter \<Rightarrow> bool list \<times> rate_limiter" where
  "decide_all perm ip [] rl = ([], rl)"
| "decide_all perm ip (t # ts) rl =
     (let (ok, rl') = checkAndRecord perm t ip rl;
          (oks, rl'') = decide_all perm ip ts rl' in
      (ok # oks, rl''))"

lemma check_first_window:
  assumes p: "params_ok rl" and e: "map_of (requests rl) ip = Some \<lparr>prevCount = 0, currCount = c, windowStart = t0\<rparr>"
    and c: "0 \<le> c" "c \<le> rl_limit rl" and t: "t0 \<le> now" "now \<le> t0 + rl_window rl"
  shows "checkAndRecord perm now ip rl =
    (c < rl_limit rl,
     put_window ip \<lparr>prevCount = 0, currCount = (if c < rl_limit rl then c + 1 else c), windowStart = t0\<rparr> rl)"
proof -
  let ?sw = "\<lparr>prevCount = 0, currCount = c, windowStart = t0\<rparr>"
  have el: "time_sub now t0 \<le> rl_window rl" using time_sub_le [OF t(1)] t(2) by linarith
  have "\<not> stale_window now (rl_window rl) ?sw"
    using el double_window(1) [OF p] p by (simp add: stale_window_def params_ok_def)
  moreover have "?sw = live_window (rl_window rl) now ?sw" using el by (simp add: live_window_def)
  moreover have "effective_count (rl_window rl) (time_sub now t0) ?sw = of_int c"
    using c p effective_prev_zero [of ?sw "rl_window rl" "time_sub now t0"]
    by (simp add: params_ok_def)
  moreover have "fl64 (of_int (rl_limit rl)) = of_int (rl_limit rl)"
    using p by (intro f64.rnd_int) (auto simp: params_ok_def)
  ultimately show ?thesis using e check_live [OF e] by simp
qed

lemma decide_all_first_window:
  assumes "params_ok rl" and "map_of (requests rl) ip = Some \<lparr>prevCount = 0, currCount = c, windowStart = t0\<rparr>"
    and "0 \<le> c" "c \<le> rl_limit rl" and "list_all (\<lambda>t. t0 \<le> t \<and> t \<le> t0 + rl_window rl) ts"
  shows "fst (decide_all perm ip ts rl) =
    replicate (min (length ts) (nat (rl_limit rl - c))) True @
    replicate (length ts - nat (rl_limit rl - c)) False"
  using assms
proof (induction ts arbitrary: rl c)
  case Nil
  then show ?case by simp
next
  case (Cons t ts)
  let ?c' = "if c < rl_limit rl then c + 1 else c"
  let ?rl' = "put_window ip \<lparr>prevCount = 0, currCount = ?c', windowStart = t0\<rparr> rl"
  have step: "checkAndRecord perm t ip rl = (c < rl_limit rl, ?rl')"
    using Cons.prems by (intro check_first_window) auto
  have "fst (decide_all perm ip ts ?rl') =
      replicate (min (length ts) (nat (rl_limit ?rl' - ?c'))) True @
      replicate (length ts - nat (rl_limit ?rl' - ?c')) False"
    using Cons.prems by (intro Cons.IH) auto
  moreover have "nat (rl_limit rl - c) = Suc (nat (rl_limit rl - (c + 1)))" if "c < rl_limit rl"
    using that by simp
  ultimately show ?case
    using Cons.prems(4) by (auto simp: step split_beta)
qed

section \<open>Properties\<close>

text \<open>
  However requests and cleanups interleave, the limiter of the program never tracks more
  than \<open>maxTrackedIPs\<close> clients, and no window of a client ever counts more than the limit of
  100 requests (so the int counters never overflow). The calls are admissible: the client key is
  not empty and the map is iterated in some order of its keys.
\<close>

theorem ratelimit_bounded:
  assumes "list_all rl_admissible es"
  shows "length (requests (fold rl_step es limiter)) \<le> maxTrackedIPs \<and>
    (\<forall>ip sw. map_of (requests (fold rl_step es limiter)) ip = Some sw \<longrightarrow>
       0 \<le> currCount sw \<and> currCount sw \<le> 100 \<and> 0 \<le> prevCount sw \<and> prevCount sw \<le> 100)"
proof -
  have keep: "rl_limit (rl_step e rl) = rl_limit rl" for e rl
    by (cases e) (auto simp: checkAndRecord_def Let_def split: option.splits)
  have "rl_limit (fold rl_step es rl) = rl_limit rl" for rl
    by (induction es arbitrary: rl) (auto simp: keep)
  then have "rl_limit (fold rl_step es limiter) = 100" by (simp add: limiter_def)
  moreover have "rl_inv (fold rl_step es limiter)"
    using rl_inv_limiter assms by (rule rl.inv_run)
  moreover have "length (requests (fold rl_step es limiter)) \<le> maxTrackedIPs"
    using rl_inv_limiter assms by (rule rl.entries_run) (simp add: limiter_def)
  ultimately show ?thesis by (auto simp: rl_inv_def window_ok_def)
qed

theorem ratelimit_bounded_witness:
  "length (requests (fold rl_step [Check rev 5 ''10.0.0.1'', Cleanup rev 9] limiter)) \<le> maxTrackedIPs"
proof -
  have "list_all rl_admissible [Check rev 5 ''10.0.0.1'', Cleanup rev 9]" by simp
  from ratelimit_bounded [OF this] show ?thesis by blast
qed

text \<open>
  A client that is not tracked and sends a burst, all of it within one window of its first
  request, gets exactly its first \<open>limit\<close> requests through and every later one rejected.
\<close>

theorem ratelimit_burst:
  assumes "params_ok rl" and "map_of (requests rl) ip = None"
    and "list_all (\<lambda>t. t0 \<le> t \<and> t \<le> t0 + rl_window rl) ts"
  shows "fst (decide_all perm ip (t0 # ts) rl) =
    replicate (min (Suc (length ts)) (nat (rl_limit rl))) True @
    replicate (Suc (length ts) - nat (rl_limit rl)) False"
proof -
  let ?rl0 = "if maxTrackedIPs \<le> length (requests rl) then evictOldest perm rl else rl"
  let ?rl1 = "put_window ip \<lparr>prevCount = 0, currCount = 1, windowStart = t0\<rparr> ?rl0"
  have lim: "1 \<le> rl_limit rl" using assms(1) by (simp add: params_ok_def)
  have sel: "rl_limit ?rl1 = rl_limit rl" "rl_window ?rl1 = rl_window rl" by simp_all
  have "fst (decide_all perm ip ts ?rl1) =
      replicate (min (length ts) (nat (rl_limit ?rl1 - 1))) True @
      replicate (length ts - nat (rl_limit ?rl1 - 1)) False"
    using assms lim by (intro decide_all_first_window [of ?rl1 ip 1 t0]) auto
  moreover have "nat (rl_limit rl) = Suc (nat (rl_limit rl - 1))" using lim by simp
  ultimately show ?thesis
    unfolding sel by (simp add: check_untracked [OF assms(2)] split_beta)
qed

theorem ratelimit_burst_witness:
  "fst (decide_all rev ''c'' [7, 8, 9] (limiter\<lparr>rl_limit := 2\<rparr>)) = [True, True, False]"
proof -
  have "params_ok (limiter\<lparr>rl_limit := 2\<rparr>)" by (simp add: params_ok_def limiter_def minute_def)
  moreover have "map_of (requests (limiter\<lparr>rl_limit := 2\<rparr>)) ''c'' = None"
    by (simp add: limiter_def)
  moreover have "list_all (\<lambda>t. 7 \<le> t \<and> t \<le> 7 + rl_window (limiter\<lparr>rl_limit := 2\<rparr>)) [8, 9]"
    by (simp add: limiter_def minute_def)
  ultimately have "fst (decide_all rev ''c'' [7, 8, 9] (limiter\<lparr>rl_limit := 2\<rparr>)) =
      replicate (min (Suc (length [8, 9 :: time])) (nat (rl_limit (limiter\<lparr>rl_limit := 2\<rparr>)))) True @
      replicate (Suc (length [8, 9 :: time]) - nat (rl_limit (limiter\<lparr>rl_limit := 2\<rparr>))) False"
    by (rule ratelimit_burst)
  then show ?thesis by (simp add: numeral_2_eq_2)
qed



text \<open>
  When the table is full, the eviction removes exactly one tracked client, one whose window
  started no later than any other's, in whatever order the map is iterated.
\<close>

theorem ratelimit_evicts_oldest:
  assumes "rl_inv rl" and "iter_ok perm" and "requests rl \<noteq> []"
  shows "\<exists>ip sw. map_of (requests rl) ip = Some sw \<and>
    evictOldest perm rl = rl\<lparr>requests := AList.delete ip (requests rl)\<rparr> \<and>
    (\<forall>k sw'. map_of (requests rl) k = Some sw' \<longrightarrow> windowStart sw \<le> windowStart sw')"
  using assms by (rule evict_removes_oldest)

theorem ratelimit_evicts_oldest_witness:
  "\<exists>ip. evictOldest rev (put_window ''a'' \<lparr>prevCount = 0, currCount = 1, windowStart = 4\<rparr> limiter) =
    limiter\<lparr>requests := AList.delete ip
      (requests (put_window ''a'' \<lparr>prevCount = 0, currCount = 1, windowStart = 4\<rparr> limiter))\<rparr>"
proof -
  let ?rl = "put_window ''a'' \<lparr>prevCount = 0, currCount = 1, windowStart = 4\<rparr> limiter"
  have "rl_inv ?rl"
    by (rule rl_inv_put [OF rl_inv_limiter]) (auto simp: window_ok_def limiter_def)
  moreover have "requests ?rl \<noteq> []" by simp
  ultimately show ?thesis
    using ratelimit_evicts_oldest [of ?rl rev] by (auto simp: put_window_def)
qed

text \<open>
  C28. The cleanup goroutine is invisible to clients: a request at or after the cleanup gets the
  same decision, and leaves the same window behind, as if the cleanup had not run.
\<close>

theorem ratelimit_cleanup_transparent:
  assumes "iter_ok q" and "now \<le> now'"
  shows "fst (checkAndRecord p now' ip (cleanupStaleKeys q now rl)) = fst (checkAndRecord p now' ip rl) \<and>
    map_of (requests (snd (checkAndRecord p now' ip (cleanupStaleKeys q now rl)))) ip =
    map_of (requests (snd (checkAndRecord p now' ip rl))) ip"
proof -
  let ?rl' = "cleanupStaleKeys q now rl"
  have look: "map_of (requests ?rl') ip =
      (case map_of (requests rl) ip of None \<Rightarrow> None
       | Some sw \<Rightarrow> if stale_window now (rl_window rl) sw then None else Some sw)"
    using iter_ok_set [OF assms(1)]
    by (auto simp: cleanupStaleKeys_def gm_sweep_lookup dest: gm_lookup_key split: option.splits)
  show ?thesis
  proof (cases "map_of (requests rl) ip")
    case None
    with look show ?thesis by (simp add: check_untracked)
  next
    case (Some sw)
    show ?thesis
    proof (cases "stale_window now (rl_window rl) sw")
      case True
      then have "stale_window now' (rl_window rl) sw"
        using time_sub_mono [OF assms(2), of "windowStart sw"] by (simp add: stale_window_def)
      with Some True look show ?thesis by (simp add: check_untracked check_expired)
    next
      case False
      with Some look have "map_of (requests ?rl') ip = Some sw" by simp
      with Some show ?thesis by (simp add: checkAndRecord_def Let_def)
    qed
  qed
qed

theorem ratelimit_cleanup_transparent_witness:
  "fst (checkAndRecord rev 3 ''x'' (cleanupStaleKeys rev 2 limiter)) = fst (checkAndRecord rev 3 ''x'' limiter)"
  using ratelimit_cleanup_transparent [of rev 2 3 rev "''x''" limiter] by simp

text \<open>
  The scan uses the empty string for "nothing found yet", so an entry stored under an empty
  client key that is visited last and is the oldest is not evicted: a full table then grows past
  its bound with every new client.
\<close>

theorem ratelimit_empty_key_not_evicted:
  assumes order: "perm (gm_keys (requests rl)) = ips @ [[]]" and nonempty: "ips \<noteq> []" "[] \<notin> set ips"
    and key: "map_of (requests rl) [] = Some sw"
    and older: "\<forall>ip \<in> set ips. \<exists>sw'. map_of (requests rl) ip = Some sw' \<and> windowStart sw < windowStart sw'"
  shows "evictOldest perm rl = rl"
proof -
  have step: "\<exists>t. evict_scan (js @ [[]]) (requests rl) (oip, ot) = ([], t)"
    if "\<forall>ip \<in> set js. \<exists>sw'. map_of (requests rl) ip = Some sw' \<and> windowStart sw < windowStart sw'"
      and "windowStart sw < ot" for js oip ot
    using that
  proof (induction js arbitrary: oip ot)
    case Nil
    then show ?case using key by simp
  next
    case (Cons j js)
    then show ?case by auto
  qed
  obtain i rest where ips: "ips = i # rest" using nonempty by (cases ips) auto
  with older obtain sw' where sw': "map_of (requests rl) i = Some sw'" "windowStart sw < windowStart sw'"
    by auto
  then obtain t where "evict_scan (rest @ [[]]) (requests rl) (i, windowStart sw') = ([], t)"
    using older ips step [of rest "windowStart sw'" i] by auto
  with sw' show ?thesis by (simp add: evictOldest_def order ips)
qed

theorem ratelimit_empty_key_not_evicted_witness:
  "evictOldest (\<lambda>ks. ks)
     \<lparr>requests = [(''a'', \<lparr>prevCount = 0, currCount = 1, windowStart = 9\<rparr>),
                  ([], \<lparr>prevCount = 0, currCount = 1, windowStart = 2\<rparr>)],
      rl_limit = 100, rl_window = minute\<rparr> =
   \<lparr>requests = [(''a'', \<lparr>prevCount = 0, currCount = 1, windowStart = 9\<rparr>),
                ([], \<lparr>prevCount = 0, currCount = 1, windowStart = 2\<rparr>)],
    rl_limit = 100, rl_window = minute\<rparr>"
  by (rule ratelimit_empty_key_not_evicted [where ips = "[''a'']"
        and sw = "\<lparr>prevCount = 0, currCount = 1, windowStart = 2\<rparr>"])
    (simp_all add: gm_keys_def)

end
