(* ===== verification/AuthLimiter.thy ===== *)
theory AuthLimiter
  imports RateLimiter
begin

text \<open>
  The lockout limiters of middleware/auth.go: \<open>authLimiter\<close> counts wrong credentials per client
  IP, \<open>noCredLimiter\<close> requests without credentials. A client that reaches the limit is blocked
  for the block window. Methods run under the limiter's mutex; each clock reading of the code is
  an argument.
\<close>

record auth_state =
  attempts :: int
  lastAttempt :: time
  blockedAt :: time

record auth_limiter =
  states :: "(gostring, auth_state) gomap"
  al_limit :: int
  al_blockWindow :: duration

definition authLimiter :: auth_limiter where
  "authLimiter = \<lparr>states = [], al_limit = 5, al_blockWindow = 5 * minute\<rparr>"

definition noCredLimiter :: auth_limiter where
  "noCredLimiter = \<lparr>states = [], al_limit = 30, al_blockWindow = 1 * minute\<rparr>"

section \<open>Operations\<close>

definition isAuthBlocked :: "time \<Rightarrow> gostring \<Rightarrow> auth_limiter \<Rightarrow> bool \<times> auth_limiter" where
  "isAuthBlocked now ip a =
     (case map_of (states a) ip of
        None \<Rightarrow> (False, a)
      | Some st \<Rightarrow>
          if \<not> is_zero_time (blockedAt st) \<and> time_sub now (blockedAt st) < al_blockWindow a
          then (True, a)
          else if \<not> is_zero_time (blockedAt st)
          then (False, a\<lparr>states := AList.delete ip (states a)\<rparr>)
          else (False, a))"

text \<open>Making room deletes the first key the map iteration yields.\<close>

definition evict_first :: "gostring iter_order \<Rightarrow> (gostring, auth_state) gomap \<Rightarrow> (gostring, auth_state) gomap" where
  "evict_first perm m =
     (if maxTrackedIPs \<le> length m
      then (case perm (gm_keys m) of [] \<Rightarrow> m | k # _ \<Rightarrow> AList.delete k m) else m)"

definition recordAuthFailure ::
  "gostring iter_order \<Rightarrow> time \<Rightarrow> time \<Rightarrow> gostring \<Rightarrow> auth_limiter \<Rightarrow> auth_limiter" where
  "recordAuthFailure perm now1 now2 ip a =
     (let (st, m) = (case map_of (states a) ip of
            Some st \<Rightarrow> (st, states a)
          | None \<Rightarrow> (\<lparr>attempts = 0, lastAttempt = 0, blockedAt = 0\<rparr>, evict_first perm (states a)));
          st1 = st\<lparr>attempts := attempts st + 1, lastAttempt := now1\<rparr>;
          st2 = (if al_limit a \<le> attempts st1 \<and> is_zero_time (blockedAt st1)
                 then st1\<lparr>blockedAt := now2\<rparr> else st1) in
      a\<lparr>states := AList.update ip st2 m\<rparr>)"

definition expired_state :: "time \<Rightarrow> duration \<Rightarrow> auth_state \<Rightarrow> bool" where
  "expired_state now window st =
     ((\<not> is_zero_time (blockedAt st) \<and> window \<le> time_sub now (blockedAt st)) \<or>
      (is_zero_time (blockedAt st) \<and> window \<le> time_sub now (lastAttempt st)))"

definition cleanupRateLimiter :: "gostring iter_order \<Rightarrow> time \<Rightarrow> auth_limiter \<Rightarrow> auth_limiter" where
  "cleanupRateLimiter perm now a =
     a\<lparr>states := gm_sweep (\<lambda>ip st. expired_state now (al_blockWindow a) st)
         (perm (gm_keys (states a))) (states a)\<rparr>"

section \<open>The invariant and the capacity\<close>

text \<open>
  A tracked client failed at least once, and it carries a block time exactly when it reached
  the limit.
\<close>

definition auth_state_ok :: "int \<Rightarrow> auth_state \<Rightarrow> bool" where
  "auth_state_ok bound st =
     (1 \<le> attempts st \<and> (bound \<le> attempts st \<longleftrightarrow> \<not> is_zero_time (blockedAt st)))"

definition al_inv :: "auth_limiter \<Rightarrow> bool" where
  "al_inv a =
     (gm_wf (states a) \<and>
      (\<forall>ip st. map_of (states a) ip = Some st \<longrightarrow> auth_state_ok (al_limit a) st))"

lemma isAuthBlocked_sel [simp]:
  "al_limit (snd (isAuthBlocked now ip a)) = al_limit a"
  "al_blockWindow (snd (isAuthBlocked now ip a)) = al_blockWindow a"
  by (simp_all add: isAuthBlocked_def split: option.split)

lemma recordAuthFailure_sel [simp]:
  "al_limit (recordAuthFailure perm now1 now2 ip a) = al_limit a"
  "al_blockWindow (recordAuthFailure perm now1 now2 ip a) = al_blockWindow a"
  by (simp_all add: recordAuthFailure_def Let_def split_beta)

lemma cleanupRateLimiter_sel [simp]:
  "al_limit (cleanupRateLimiter perm now a) = al_limit a"
  "al_blockWindow (cleanupRateLimiter perm now a) = al_blockWindow a"
  by (simp_all add: cleanupRateLimiter_def)

lemma evict_first_cases:
  obtains "evict_first perm m = m" | k where "evict_first perm m = AList.delete k m"
  by (cases "maxTrackedIPs \<le> length m"; cases "perm (gm_keys m)") (auto simp: evict_first_def)

lemma evict_first_wf: "gm_wf m \<Longrightarrow> gm_wf (evict_first perm m)"
  by (cases rule: evict_first_cases [of perm m]) auto

lemma evict_first_lookup: "map_of (evict_first perm m) k = Some v \<Longrightarrow> map_of m k = Some v"
  by (cases rule: evict_first_cases [of perm m]) (auto split: if_splits)

lemma evict_first_length:
  assumes "gm_wf m" and "iter_ok perm" and "length m \<le> maxTrackedIPs"
  shows "Suc (length (evict_first perm m)) \<le> maxTrackedIPs"
proof (cases "maxTrackedIPs \<le> length m")
  case True
  then have "set (gm_keys m) \<noteq> {}" by (auto simp: maxTrackedIPs_def gm_keys_def)
  then have "set (perm (gm_keys m)) \<noteq> {}" using iter_ok_set [OF assms(2)] by simp
  then obtain k ks where ks: "perm (gm_keys m) = k # ks" by (cases "perm (gm_keys m)") auto
  then have "k \<in> set (gm_keys m)" using iter_ok_set [OF assms(2), of "gm_keys m"] by auto
  from length_delete_present [OF assms(1) this] ks True assms(3)
  show ?thesis by (simp add: evict_first_def)
next
  case False
  then show ?thesis by (simp add: evict_first_def)
qed

text \<open>The entry of a client after a failure, and the rest of the table.\<close>

definition failure_state :: "int \<Rightarrow> time \<Rightarrow> time \<Rightarrow> auth_state option \<Rightarrow> auth_state" where
  "failure_state bound now1 now2 old =
     (let st = (case old of Some st \<Rightarrow> st | None \<Rightarrow> \<lparr>attempts = 0, lastAttempt = 0, blockedAt = 0\<rparr>) in
      \<lparr>attempts = attempts st + 1, lastAttempt = now1,
       blockedAt = (if bound \<le> attempts st + 1 \<and> is_zero_time (blockedAt st) then now2 else blockedAt st)\<rparr>)"

lemma recordAuthFailure_lookup:
  "map_of (states (recordAuthFailure perm now1 now2 ip a)) ip =
     Some (failure_state (al_limit a) now1 now2 (map_of (states a) ip))"
  by (auto simp: recordAuthFailure_def failure_state_def Let_def split: option.split)

lemma recordAuthFailure_other:
  assumes "map_of (states (recordAuthFailure perm now1 now2 ip a)) k = Some st" and "k \<noteq> ip"
  shows "map_of (states a) k = Some st"
  using assms
  by (auto simp: recordAuthFailure_def Let_def split: option.splits dest: evict_first_lookup)

lemma failure_state_ok:
  assumes "\<forall>st. old = Some st \<longrightarrow> auth_state_ok bound st" and "now2 \<noteq> 0"
  shows "auth_state_ok bound (failure_state bound now1 now2 old)"
  using assms by (cases old) (auto simp: failure_state_def auth_state_ok_def is_zero_time_def)

lemma al_inv_blocked: "al_inv a \<Longrightarrow> al_inv (snd (isAuthBlocked now ip a))"
  by (auto simp: isAuthBlocked_def al_inv_def split: option.split if_splits)

lemma al_inv_record:
  assumes "al_inv a" and "now2 \<noteq> 0"
  shows "al_inv (recordAuthFailure perm now1 now2 ip a)"
proof -
  let ?a = "recordAuthFailure perm now1 now2 ip a"
  have "auth_state_ok (al_limit a) st" if "map_of (states ?a) k = Some st" for k st
  proof (cases "k = ip")
    case True
    with that assms show ?thesis
      by (auto simp: recordAuthFailure_lookup al_inv_def intro!: failure_state_ok)
  next
    case False
    with recordAuthFailure_other [OF that] assms(1) show ?thesis by (auto simp: al_inv_def)
  qed
  moreover have "gm_wf (states ?a)"
    using assms(1) evict_first_wf [of "states a" perm]
    by (auto simp: recordAuthFailure_def al_inv_def Let_def split: option.splits)
  ultimately show ?thesis by (simp add: al_inv_def)
qed

lemma al_inv_cleanup: "al_inv a \<Longrightarrow> al_inv (cleanupRateLimiter perm now a)"
  by (auto simp: cleanupRateLimiter_def al_inv_def gm_sweep_lookup split: option.splits if_splits)

lemma record_length:
  assumes "al_inv a" and "iter_ok perm" and "length (states a) \<le> maxTrackedIPs"
  shows "length (states (recordAuthFailure perm now1 now2 ip a)) \<le> maxTrackedIPs"
proof (cases "map_of (states a) ip")
  case None
  have "Suc (length (evict_first perm (states a))) \<le> maxTrackedIPs"
    using assms by (intro evict_first_length) (auto simp: al_inv_def)
  with None show ?thesis
    by (simp add: recordAuthFailure_def Let_def length_update_bound)
next
  case (Some st)
  with assms(3) show ?thesis by (simp add: recordAuthFailure_def Let_def length_update_old)
qed

datatype al_event =
    IsBlocked time gostring
  | RecordFailure "gostring iter_order" time time gostring
  | CleanupAuth "gostring iter_order" time

fun al_step :: "al_event \<Rightarrow> auth_limiter \<Rightarrow> auth_limiter" where
  "al_step (IsBlocked now ip) a = snd (isAuthBlocked now ip a)"
| "al_step (RecordFailure perm now1 now2 ip) a = recordAuthFailure perm now1 now2 ip a"
| "al_step (CleanupAuth perm now) a = cleanupRateLimiter perm now a"

text \<open>The clock never reads Go's zero time, and maps are iterated in some order of their keys.\<close>

fun al_admissible :: "al_event \<Rightarrow> bool" where
  "al_admissible (IsBlocked now ip) = True"
| "al_admissible (RecordFailure perm now1 now2 ip) = (iter_ok perm \<and> now2 \<noteq> 0)"
| "al_admissible (CleanupAuth perm now) = iter_ok perm"

lemma blocked_length: "length (states (snd (isAuthBlocked now ip a))) \<le> length (states a)"
  by (auto simp: isAuthBlocked_def length_delete_le split: option.split)

lemma cleanup_auth_length: "length (states (cleanupRateLimiter perm now a)) \<le> length (states a)"
  by (simp add: cleanupRateLimiter_def gm_sweep_length)

interpretation al: capped_machine al_step al_admissible al_inv
  "\<lambda>a. length (states a)" "\<lambda>_. maxTrackedIPs"
proof
  fix s e
  assume "al_inv s" and "al_admissible e"
  then show "al_inv (al_step e s)"
    by (cases e) (auto intro: al_inv_blocked al_inv_record al_inv_cleanup)
next
  fix s e
  assume "al_inv s" and "al_admissible e" and "length (states s) \<le> maxTrackedIPs"
  then show "length (states (al_step e s)) \<le> maxTrackedIPs"
    using le_trans [OF blocked_length] le_trans [OF cleanup_auth_length]
    by (cases e) (auto intro: record_length)
qed simp

lemma al_limit_step: "al_limit (al_step e a) = al_limit a"
  by (cases e) auto

lemma al_limit_run: "al_limit (fold al_step es a) = al_limit a"
  by (induction es arbitrary: a) (auto simp: al_limit_step)

section \<open>Lockout\<close>

text \<open>
  A sequence of failures of one client, each with its two clock readings (for the last attempt
  and for the block time).
\<close>

fun fail_all :: "gostring iter_order \<Rightarrow> gostring \<Rightarrow> (time \<times> time) list \<Rightarrow> auth_limiter \<Rightarrow> auth_limiter" where
  "fail_all perm ip [] a = a"
| "fail_all perm ip (t # ts) a = fail_all perm ip ts (recordAuthFailure perm (fst t) (snd t) ip a)"

text \<open>The entry such a client ends with.\<close>

definition failed_state :: "int \<Rightarrow> (time \<times> time) list \<Rightarrow> auth_state" where
  "failed_state bound ts =
     \<lparr>attempts = int (length ts), lastAttempt = fst (last ts),
      blockedAt = (if bound \<le> int (length ts) then snd (ts ! nat (bound - 1)) else 0)\<rparr>"

lemma fail_all_snoc:
  "fail_all perm ip (ts @ [t]) a = recordAuthFailure perm (fst t) (snd t) ip (fail_all perm ip ts a)"
  by (induction ts arbitrary: a) auto

lemma fail_all_sel [simp]:
  "al_limit (fail_all perm ip ts a) = al_limit a"
  "al_blockWindow (fail_all perm ip ts a) = al_blockWindow a"
  by (induction ts arbitrary: a) auto

lemma failed_state_snoc:
  assumes "1 \<le> bound" and "list_all (\<lambda>t. 0 < snd t) (ts @ [t])" and "ts \<noteq> []"
  shows "failure_state bound (fst t) (snd t) (Some (failed_state bound ts)) = failed_state bound (ts @ [t])"
proof -
  consider "bound \<le> int (length ts)" | "bound = int (length ts) + 1" | "int (length ts) + 1 < bound"
    by linarith
  then show ?thesis
  proof cases
    case 1
    then have "nat (bound - 1) < length ts" using assms(1) by linarith
    moreover from this have "0 < snd (ts ! nat (bound - 1))"
      using assms(2) by (simp add: list_all_iff)
    ultimately show ?thesis
      using 1 by (simp add: failure_state_def failed_state_def is_zero_time_def nth_append)
  next
    case 2
    then have "nat (bound - 1) = length ts" by simp
    with 2 show ?thesis by (simp add: failure_state_def failed_state_def is_zero_time_def)
  next
    case 3
    then show ?thesis by (simp add: failure_state_def failed_state_def is_zero_time_def)
  qed
qed

lemma failed_state_first:
  assumes "1 \<le> bound"
  shows "failure_state bound (fst t) (snd t) None = failed_state bound [t]"
  using assms by (auto simp: failure_state_def failed_state_def is_zero_time_def)

lemma fail_all_state:
  assumes "map_of (states a) ip = None" and "1 \<le> al_limit a" and "ts \<noteq> []"
    and "list_all (\<lambda>t. 0 < snd t) ts"
  shows "map_of (states (fail_all perm ip ts a)) ip = Some (failed_state (al_limit a) ts)"
  using assms(3,4)
proof (induction ts rule: rev_induct)
  case Nil
  then show ?case by simp
next
  case (snoc t ts)
  show ?case
  proof (cases "ts = []")
    case True
    with assms(1,2) show ?thesis by (simp add: recordAuthFailure_lookup failed_state_first)
  next
    case False
    with snoc assms(2) show ?thesis
      by (simp add: fail_all_snoc recordAuthFailure_lookup failed_state_snoc)
  qed
qed

section \<open>Properties\<close>

text \<open>
  Both lockout tables stay within \<open>maxTrackedIPs\<close> entries under every sequence of
  admissible calls, and in every reachable table a client carries a block time exactly when its
  failures reached the limit.
\<close>

theorem auth_limiter_bounded:
  assumes "list_all al_admissible es" and "a \<in> {authLimiter, noCredLimiter}"
  shows "length (states (fold al_step es a)) \<le> maxTrackedIPs \<and>
    (\<forall>ip st. map_of (states (fold al_step es a)) ip = Some st \<longrightarrow>
       auth_state_ok (al_limit a) st)"
proof -
  have inv: "al_inv a" and empty: "length (states a) \<le> maxTrackedIPs"
    using assms(2) by (auto simp: al_inv_def authLimiter_def noCredLimiter_def)
  have "al_inv (fold al_step es a)" using inv assms(1) by (rule al.inv_run)
  with al.entries_run [OF inv assms(1) empty] show ?thesis
    by (simp add: al_inv_def al_limit_run)
qed

theorem auth_limiter_bounded_witness:
  "length (states (fold al_step
     [RecordFailure rev 5 6 ''10.0.0.1'', IsBlocked 7 ''10.0.0.1'', CleanupAuth rev 8] authLimiter))
   \<le> maxTrackedIPs"
proof -
  have "list_all al_admissible
    [RecordFailure rev 5 6 ''10.0.0.1'', IsBlocked 7 ''10.0.0.1'', CleanupAuth rev 8]" by simp
  from auth_limiter_bounded [OF this, of authLimiter] show ?thesis by simp
qed

text \<open>
  C8. Lockout: after a client not tracked before fails at times \<open>ts\<close>, it is blocked at time
  \<open>now\<close> exactly when it failed at least \<open>limit\<close> times and less than the block window passed
  since the failure that reached the limit. Later failures do not extend the block.
\<close>

theorem auth_lockout_exact:
  assumes "map_of (states a) ip = None" and "1 \<le> al_limit a" and "ts \<noteq> []"
    and "list_all (\<lambda>t. 0 < snd t) ts"
  shows "fst (isAuthBlocked now ip (fail_all perm ip ts a)) \<longleftrightarrow>
    al_limit a \<le> int (length ts) \<and>
    time_sub now (snd (ts ! nat (al_limit a - 1))) < al_blockWindow a"
proof -
  have "0 < snd (ts ! nat (al_limit a - 1))" if "al_limit a \<le> int (length ts)"
    using that assms(2,4) by (auto simp: list_all_iff nat_less_iff)
  then show ?thesis
    using fail_all_state [OF assms, of perm]
    by (auto simp: isAuthBlocked_def is_zero_time_def failed_state_def)
qed

theorem auth_lockout_exact_witness:
  "fst (isAuthBlocked 60 ''h''
     (fail_all rev ''h'' [(9, 10), (19, 20), (29, 30), (39, 40), (49, 50), (54, 55)] authLimiter)) \<and>
   \<not> fst (isAuthBlocked (50 + 5 * minute) ''h''
     (fail_all rev ''h'' [(9, 10), (19, 20), (29, 30), (39, 40), (49, 50), (54, 55)] authLimiter))"
proof -
  let ?ts = "[(9, 10), (19, 20), (29, 30), (39, 40), (49, 50), (54, 55)] :: (time \<times> time) list"
  have prem: "map_of (states authLimiter) ''h'' = None" "1 \<le> al_limit authLimiter"
    "?ts \<noteq> []" "list_all (\<lambda>t. 0 < snd t) ?ts"
    by (auto simp: authLimiter_def)
  note lock = auth_lockout_exact [OF prem]
  have "time_sub 60 50 = 10" and "time_sub (50 + 5 * minute) 50 = 5 * minute"
    by (simp_all add: time_sub_def min_duration_def max_duration_def minute_def)
  then show ?thesis
    unfolding lock by (simp add: authLimiter_def minute_def)
qed

text \<open>
  A block ends completely: when the check finds the block expired it answers "not blocked"
  and forgets the client, so the client starts again with no recorded failure, and the next
  \<open>limit - 1\<close> failures are again without consequence.
\<close>

theorem auth_block_expires:
  assumes "map_of (states a) ip = Some st" and "\<not> is_zero_time (blockedAt st)"
    and "al_blockWindow a \<le> time_sub now (blockedAt st)"
  shows "\<not> fst (isAuthBlocked now ip a) \<and>
    map_of (states (snd (isAuthBlocked now ip a))) ip = None \<and>
    (\<forall>k. k \<noteq> ip \<longrightarrow> map_of (states (snd (isAuthBlocked now ip a))) k = map_of (states a) k)"
  using assms by (simp add: isAuthBlocked_def)

theorem auth_block_expires_witness:
  "map_of (states (snd (isAuthBlocked (9 * minute) ''h''
     \<lparr>states = [(''h'', \<lparr>attempts = 7, lastAttempt = 5, blockedAt = 3\<rparr>)],
      al_limit = 5, al_blockWindow = 5 * minute\<rparr>))) ''h'' = None"
proof -
  have "time_sub (9 * minute) 3 = 9 * minute - 3"
    by (simp add: time_sub_def min_duration_def max_duration_def minute_def)
  then show ?thesis
    using auth_block_expires [where now = "9 * minute" and ip = "''h''"
        and a = "\<lparr>states = [(''h'', \<lparr>attempts = 7, lastAttempt = 5, blockedAt = 3\<rparr>)],
          al_limit = 5, al_blockWindow = 5 * minute\<rparr>"
        and st = "\<lparr>attempts = 7, lastAttempt = 5, blockedAt = 3\<rparr>"]
    by (simp add: is_zero_time_def minute_def)
qed

text \<open>
  The cleanup goroutine never lifts a block and never creates one: at or after the cleanup
  a client is blocked exactly when it would be blocked without it.
\<close>

theorem auth_cleanup_keeps_blocks:
  assumes "iter_ok perm" and "now \<le> now'"
  shows "fst (isAuthBlocked now' ip (cleanupRateLimiter perm now a)) = fst (isAuthBlocked now' ip a)"
proof (cases "map_of (states a) ip")
  case None
  then show ?thesis by (simp add: isAuthBlocked_def cleanupRateLimiter_def gm_sweep_lookup)
next
  case (Some st)
  then have "ip \<in> set (perm (gm_keys (states a)))"
    using iter_ok_set [OF assms(1)] by (auto dest: gm_lookup_key)
  with Some show ?thesis
    using time_sub_mono [OF assms(2), of "blockedAt st"]
    by (auto simp: isAuthBlocked_def cleanupRateLimiter_def gm_sweep_lookup expired_state_def)
qed

theorem auth_cleanup_keeps_blocks_witness:
  "fst (isAuthBlocked 9 ''h'' (cleanupRateLimiter rev 8 (fail_all rev ''h'' [(1, 1), (2, 2), (3, 3), (4, 4), (5, 5)] authLimiter))) =
   fst (isAuthBlocked 9 ''h'' (fail_all rev ''h'' [(1, 1), (2, 2), (3, 3), (4, 4), (5, 5)] authLimiter))"
  by (rule auth_cleanup_keeps_blocks) simp_all

end
