(* ===== verification/Middleware.thy ===== *)
theory Middleware
  imports Http AuthLimiter
begin

text \<open>
  The HTTP middlewares of the middleware/ package as handler transformers: client address and
  request log (logger.go), panic recovery (recovery.go), security headers (security.go), basic
  authentication with lockout (auth.go), the request limiter (ratelimit.go) and the origin check
  (cors.go). A handler maps a request and the state to an outcome; the package-level limiters
  are fields of the state. \<open>url.Parse\<close> is an argument (\<open>url_parse\<close>: scheme and host of a URL,
  \<^const>\<open>None\<close> where it fails).
\<close>

record mw_world = world +
  g_limiter :: rate_limiter
  g_authLimiter :: auth_limiter
  g_noCredLimiter :: auth_limiter

lemma mw_frame [simp]:
  "g_limiter (on_rw f w) = g_limiter w"
  "g_authLimiter (on_rw f w) = g_authLimiter w"
  "g_noCredLimiter (on_rw f w) = g_noCredLimiter w"
  "g_limiter (tick w) = g_limiter w"
  "g_authLimiter (tick w) = g_authLimiter w"
  "g_noCredLimiter (tick w) = g_noCredLimiter w"
  by (simp_all add: on_rw_def tick_def)

section \<open>Client address and request log\<close>

definition clientIP :: "request \<Rightarrow> bool \<Rightarrow> gostring" where
  "clientIP r trustProxy =
     (let xri = header_get (req_headers r) ''X-Real-IP'';
          xff = header_get (req_headers r) ''X-Forwarded-For'' in
      if trustProxy \<and> xri \<noteq> [] then trimSpace xri
      else if trustProxy \<and> xff \<noteq> [] then
        (case index_of (CHR '','') xff of
           Some idx \<Rightarrow> if 0 < idx then trimSpace (take idx xff) else trimSpace xff
         | None \<Rightarrow> trimSpace xff)
      else (case splitHostPort (req_remote r) of
              Inl _ \<Rightarrow> req_remote r
            | Inr (host, _) \<Rightarrow> host))"

definition clientIPFromContext :: "request \<Rightarrow> gostring" where
  "clientIPFromContext r =
     (case req_ctx_ip r of Some ip \<Rightarrow> ip | None \<Rightarrow> clientIP r False)"

text \<open>
  The logging wrapper starts with status 200; the deferred log line runs whether the handler
  returns or panics. Afterwards the caller sees its own writer again.
\<close>

definition log_access :: "gostring \<Rightarrow> request \<Rightarrow> nat option \<Rightarrow> 'a world_scheme \<Rightarrow> 'a world_scheme" where
  "log_access ip r outer w =
     (let status = (case rw_lrw (w_rw w) of Some s \<Rightarrow> s | None \<Rightarrow> 200) in
      (on_rw (\<lambda>rw. rw\<lparr>rw_lrw := outer\<rparr>) w)
        \<lparr>w_access := w_access w @
           [\<lparr>ae_ip = ip, ae_method = req_method r, ae_path = req_path r, ae_status = status\<rparr>]\<rparr>)"

definition logger :: "bool \<Rightarrow> ('a world_scheme) handler \<Rightarrow> ('a world_scheme) handler" where
  "logger trustProxy next r w =
     (let ip = clientIP r trustProxy;
          outer = rw_lrw (w_rw w) in
      case next (r\<lparr>req_ctx_ip := Some ip\<rparr>) (on_rw (\<lambda>rw. rw\<lparr>rw_lrw := Some 200\<rparr>) w) of
        Done w1 \<Rightarrow> Done (log_access ip r outer w1)
      | Panic w1 \<Rightarrow> Panic (log_access ip r outer w1))"

section \<open>Recovery and security headers\<close>

definition recovery :: "('a world_scheme) handler \<Rightarrow> ('a world_scheme) handler" where
  "recovery next r w =
     (case next r w of
        Done w1 \<Rightarrow> Done w1
      | Panic w1 \<Rightarrow> Done (on_rw (writeJSONError ''Internal Server Error'' 500 ''server'') w1))"

definition csp_value :: gostring where
  "csp_value = ''default-src '' @ [CHR 39] @ ''self'' @ [CHR 39] @ ''; style-src '' @ [CHR 39] @
     ''self'' @ [CHR 39] @ '' '' @ [CHR 39] @ ''unsafe-inline'' @ [CHR 39] @ ''; img-src '' @
     [CHR 39] @ ''self'' @ [CHR 39] @ '' data:; script-src '' @ [CHR 39] @ ''self'' @ [CHR 39]"

definition securityHeaders :: "('a world_scheme) handler \<Rightarrow> ('a world_scheme) handler" where
  "securityHeaders next r w =
     next r (on_rw (\<lambda>rw.
       set_header ''Referrer-Policy'' ''strict-origin-when-cross-origin''
        (set_header ''Content-Security-Policy'' csp_value
         (set_header ''X-Frame-Options'' ''DENY''
          (set_header ''X-Content-Type-Options'' ''nosniff'' rw)))) w)"

section \<open>Request limiter\<close>

definition rateLimit :: "bool \<Rightarrow> ('a mw_world_scheme) handler \<Rightarrow> ('a mw_world_scheme) handler" where
  "rateLimit trustProxy next r w =
     (let ip = clientIP r trustProxy;
          (ok, rl) = checkAndRecord (iter_now w) (time_now w) ip (g_limiter w);
          w1 = (tick w)\<lparr>g_limiter := rl\<rparr> in
      if \<not> ok then Done (on_rw (writeJSONError msg_too_frequent 429 ''rate_limit'') w1)
      else next r w1)"

section \<open>Basic authentication\<close>

text \<open>Base64 as \<open>base64.StdEncoding\<close> decodes it: line breaks skipped, padding required.\<close>

definition b64_value :: "char \<Rightarrow> nat option" where
  "b64_value c =
     (let b = byte_of c in
      if 65 \<le> b \<and> b \<le> 90 then Some (b - 65)
      else if 97 \<le> b \<and> b \<le> 122 then Some (b - 71)
      else if 48 \<le> b \<and> b \<le> 57 then Some (b + 4)
      else if b = 43 then Some 62 else if b = 47 then Some 63 else None)"

fun b64_groups :: "gostring \<Rightarrow> gostring option" where
  "b64_groups [] = Some []"
| "b64_groups (a # b # c # d # rest) =
     (case (b64_value a, b64_value b, b64_value c, b64_value d) of
        (Some x, Some y, Some z, Some u) \<Rightarrow>
          map_option (\<lambda>t. char_of (x * 4 + y div 16) # char_of ((y mod 16) * 16 + z div 4)
                          # char_of ((z mod 4) * 64 + u) # t) (b64_groups rest)
      | (Some x, Some y, Some z, None) \<Rightarrow>
          if d = CHR ''='' \<and> rest = []
          then Some [char_of (x * 4 + y div 16), char_of ((y mod 16) * 16 + z div 4)] else None
      | (Some x, Some y, None, None) \<Rightarrow>
          if c = CHR ''='' \<and> d = CHR ''='' \<and> rest = [] then Some [char_of (x * 4 + y div 16)] else None
      | _ \<Rightarrow> None)"
| "b64_groups _ = None"

definition b64_decode :: "gostring \<Rightarrow> gostring option" where
  "b64_decode s = b64_groups (filter (\<lambda>c. c \<noteq> CHR 10 \<and> c \<noteq> CHR 13) s)"

text \<open>\<open>r.BasicAuth()\<close>: the user name and password of the Authorization header.\<close>

definition basicAuthCreds :: "request \<Rightarrow> (gostring \<times> gostring) option" where
  "basicAuthCreds r =
     (let auth = header_get (req_headers r) ''Authorization'' in
      if length auth < 6 \<or>
         map (\<lambda>c. ascii_lower (byte_of c)) (take 6 auth) \<noteq> map (\<lambda>c. ascii_lower (byte_of c)) ''Basic ''
      then None
      else (case b64_decode (drop 6 auth) of
              None \<Rightarrow> None
            | Some cs \<Rightarrow>
                (case index_of (CHR '':'') cs of
                   None \<Rightarrow> None
                 | Some i \<Rightarrow> Some (take i cs, drop (Suc i) cs))))"

definition writeUnauthorized :: "response \<Rightarrow> response" where
  "writeUnauthorized rw =
     writeJSONError msg_unauthorized 401 ''auth''
       (set_header ''WWW-Authenticate'' (''Basic realm='' @ [CHR 34] @ ''Xray Manager'' @ [CHR 34]) rw)"

definition recordFailure ::
  "gostring \<Rightarrow> 'a world_scheme \<Rightarrow> auth_limiter \<Rightarrow> auth_limiter \<times> 'a world_scheme" where
  "recordFailure ip w a =
     (recordAuthFailure (iter_now w) (time_now w) (time_now (tick w)) ip a, tick (tick w))"

definition basicAuth ::
  "gostring \<Rightarrow> gostring \<Rightarrow> ('a mw_world_scheme) handler \<Rightarrow> ('a mw_world_scheme) handler" where
  "basicAuth username password next r w =
     (if username = [] \<or> password = [] then next r w
      else
       (let ip = clientIPFromContext r;
            (blocked, a) = isAuthBlocked (time_now w) ip (g_authLimiter w);
            w1 = (tick w)\<lparr>g_authLimiter := a\<rparr> in
        if blocked then
          Done (on_rw (\<lambda>rw. writeJSONError msg_auth_blocked 429 ''auth_rate_limit''
                        (set_header ''Retry-After'' ''300'' rw)) w1)
        else
         (case basicAuthCreds r of
            None \<Rightarrow>
              (let (blocked2, n) = isAuthBlocked (time_now w1) ip (g_noCredLimiter w1);
                   w2 = (tick w1)\<lparr>g_noCredLimiter := n\<rparr> in
               if blocked2 then
                 Done (on_rw (\<lambda>rw. writeJSONError msg_too_frequent 429 ''rate_limit''
                               (set_header ''Retry-After'' ''60'' rw)) w2)
               else
                 (let (n2, w3) = recordFailure ip w2 n in
                  Done (on_rw writeUnauthorized (w3\<lparr>g_noCredLimiter := n2\<rparr>))))
          | Some (user, pass) \<Rightarrow>
              if user \<noteq> username \<or> pass \<noteq> password then
                (let (a2, w2) = recordFailure ip w1 a in
                 Done (on_rw writeUnauthorized (w2\<lparr>g_authLimiter := a2\<rparr>)))
              else next r w1)))"

section \<open>Origin check\<close>

definition safe_method :: "gostring \<Rightarrow> bool" where
  "safe_method m = (m = ''GET'' \<or> m = ''HEAD'' \<or> m = ''OPTIONS'')"

text \<open>
  The origin of a request: the Origin header, else the origin of the Referer; the opaque
  origin "null" counts as missing.
\<close>

definition request_origin :: "(gostring \<Rightarrow> (gostring \<times> gostring) option) \<Rightarrow> request \<Rightarrow> gostring" where
  "request_origin url_parse r =
     (let origin = header_get (req_headers r) ''Origin'';
          referer = header_get (req_headers r) ''Referer'';
          origin1 =
            (if origin = [] \<and> referer \<noteq> []
             then (case url_parse referer of
                     Some (scheme, host) \<Rightarrow> scheme @ ''://'' @ host
                   | None \<Rightarrow> origin)
             else origin) in
      if origin1 = ''null'' then [] else origin1)"

definition forbid :: "gostring \<Rightarrow> response \<Rightarrow> response" where
  "forbid body rw =
     write_chunk (RawChunk body)
       (writeHeader 403 (set_header ''Content-Type'' ''application/json'' rw))"

definition cors_headers :: "gostring \<Rightarrow> response \<Rightarrow> response" where
  "cors_headers origin rw =
     add_header ''Vary'' ''Origin''
      (set_header ''Access-Control-Max-Age'' ''86400''
       (set_header ''Access-Control-Allow-Headers'' ''Content-Type, Authorization''
        (set_header ''Access-Control-Allow-Methods'' ''GET, POST, HEAD, OPTIONS''
         (set_header ''Access-Control-Allow-Origin'' origin rw))))"

definition checkOrigin ::
  "(gostring \<Rightarrow> (gostring \<times> gostring) option) \<Rightarrow> gostring list \<Rightarrow>
   ('a world_scheme) handler \<Rightarrow> ('a world_scheme) handler" where
  "checkOrigin url_parse allowedOrigins next r w =
     (if allowedOrigins = [] then next r w
      else
       (let origin = request_origin url_parse r in
        if origin = [] then
          (if safe_method (req_method r)
           then next r (on_rw (add_header ''Vary'' ''Origin'') w)
           else Done (on_rw (forbid body_missing_origin) w))
        else
          (let origin1 = trim_right_slash origin in
           if origin1 \<notin> set allowedOrigins then Done (on_rw (forbid body_invalid_origin) w)
           else if req_method r = ''OPTIONS''
           then Done (on_rw (\<lambda>rw. writeHeader 204 (cors_headers origin1 rw)) w)
           else next r (on_rw (cors_headers origin1) w))))"

section \<open>The handler chain of main\<close>

definition middleware_chain ::
  "bool \<Rightarrow> gostring \<Rightarrow> gostring \<Rightarrow> ('a mw_world_scheme) handler \<Rightarrow> ('a mw_world_scheme) handler" where
  "middleware_chain trustProxy username password mux =
     recovery (logger trustProxy (securityHeaders (basicAuth username password (rateLimit trustProxy mux))))"

end
