(* ===== verification/MiddlewareProps.thy ===== *)
theory MiddlewareProps
  imports Middleware
begin

text \<open>
  What the middlewares guarantee: the authentication gate and its lockout, the origin check,
  panic recovery, the request log, and the chain of \<open>main\<close> they form.
\<close>

section \<open>Header names\<close>

lemmas canon_simps = canonicalHeaderKey_def ascii_upper_def ascii_lower_def char_of_eq_iff take_bit_eq_mod

lemma canon_names:
  "canonicalHeaderKey ''Content-Type'' = ''Content-Type''"
  "canonicalHeaderKey ''X-Frame-Options'' = ''X-Frame-Options''"
  "canonicalHeaderKey ''X-Content-Type-Options'' = ''X-Content-Type-Options''"
  "canonicalHeaderKey ''Content-Security-Policy'' = ''Content-Security-Policy''"
  "canonicalHeaderKey ''Referrer-Policy'' = ''Referrer-Policy''"
  "canonicalHeaderKey ''Retry-After'' = ''Retry-After''"
  "canonicalHeaderKey ''WWW-Authenticate'' = ''Www-Authenticate''"
  "canonicalHeaderKey ''X-Real-IP'' = ''X-Real-Ip''"
  "canonicalHeaderKey ''X-Forwarded-For'' = ''X-Forwarded-For''"
  "canonicalHeaderKey ''Authorization'' = ''Authorization''"
  "canonicalHeaderKey ''Origin'' = ''Origin''"
  "canonicalHeaderKey ''Referer'' = ''Referer''"
  "canonicalHeaderKey ''Vary'' = ''Vary''"
  "canonicalHeaderKey ''Access-Control-Allow-Origin'' = ''Access-Control-Allow-Origin''"
  "canonicalHeaderKey ''Access-Control-Allow-Methods'' = ''Access-Control-Allow-Methods''"
  "canonicalHeaderKey ''Access-Control-Allow-Headers'' = ''Access-Control-Allow-Headers''"
  "canonicalHeaderKey ''Access-Control-Max-Age'' = ''Access-Control-Max-Age''"
  by (simp_all add: canon_simps)

text \<open>The header that goes out with an error response.\<close>

lemma writeJSONError_sent:
  "rw_status rw = None \<Longrightarrow>
     map_of (rw_sent (writeJSONError m c t rw)) =
       (map_of (rw_header rw))(''Content-Type'' \<mapsto> [''application/json''])"
  by (simp add: writeJSONError_def set_header_lookup canon_names)

definition security_set :: "headers \<Rightarrow> bool" where
  "security_set h =
     (map_of h ''X-Content-Type-Options'' = Some [''nosniff''] \<and>
      map_of h ''X-Frame-Options'' = Some [''DENY''] \<and>
      map_of h ''Content-Security-Policy'' = Some [csp_value] \<and>
      map_of h ''Referrer-Policy'' = Some [''strict-origin-when-cross-origin''])"

lemma security_set_header [simp]:
  assumes "canonicalHeaderKey k \<notin>
    {''X-Content-Type-Options'', ''X-Frame-Options'', ''Content-Security-Policy'', ''Referrer-Policy''}"
  shows "security_set (rw_header (set_header k v rw)) = security_set (rw_header rw)"
  using assms by (auto simp: security_set_def set_header_lookup)

lemma security_sent_error [simp]:
  "rw_status rw = None \<Longrightarrow> security_set (rw_sent (writeJSONError m c t rw)) = security_set (rw_header rw)"
  by (simp add: writeJSONError_sent security_set_def)

section \<open>The authentication gate\<close>

text \<open>What a rejected request leaves behind: a 401 or a 429, with the headers kept.\<close>

definition rejected :: "('a world_scheme) \<Rightarrow> ('a world_scheme) \<Rightarrow> bool" where
  "rejected w w' =
     ((rw_status (w_rw w') = Some 401 \<or> rw_status (w_rw w') = Some 429) \<and>
      rw_lrw (w_rw w') = (case rw_lrw (w_rw w) of None \<Rightarrow> None | Some _ \<Rightarrow> rw_status (w_rw w')) \<and>
      w_access w' = w_access w \<and>
      (security_set (rw_header (w_rw w)) \<longrightarrow> security_set (rw_sent (w_rw w'))))"

lemma rejected_429:
  assumes "rw_status (w_rw w) = None" and "w_rw w1 = w_rw w" "w_access w1 = w_access w"
  shows "rejected w (on_rw (\<lambda>rw. writeJSONError m 429 t (set_header ''Retry-After'' v rw)) w1)"
  using assms by (simp add: rejected_def canon_names split: option.split)

lemma rejected_429_plain:
  assumes "rw_status (w_rw w) = None" and "w_rw w1 = w_rw w" "w_access w1 = w_access w"
  shows "rejected w (on_rw (writeJSONError m 429 t) w1)"
  using assms by (simp add: rejected_def split: option.split)

lemma rejected_401:
  assumes "rw_status (w_rw w) = None" and "w_rw w1 = w_rw w" "w_access w1 = w_access w"
  shows "rejected w (on_rw writeUnauthorized w1)"
  using assms by (simp add: rejected_def writeUnauthorized_def canon_names split: option.split)

text \<open>The state after the lockout check.\<close>

definition after_check :: "gostring \<Rightarrow> ('a mw_world_scheme) \<Rightarrow> ('a mw_world_scheme)" where
  "after_check ip w = (tick w)\<lparr>g_authLimiter := snd (isAuthBlocked (time_now w) ip (g_authLimiter w))\<rparr>"

lemma after_check_sel [simp]:
  "w_rw (after_check ip w) = w_rw w"
  "w_access (after_check ip w) = w_access w"
  "w_ticks (after_check ip w) = Suc (w_ticks w)"
  "w_clk (after_check ip w) = w_clk w"
  "w_iter (after_check ip w) = w_iter w"
  "g_authLimiter (after_check ip w) = snd (isAuthBlocked (time_now w) ip (g_authLimiter w))"
  "g_noCredLimiter (after_check ip w) = g_noCredLimiter w"
  "g_limiter (after_check ip w) = g_limiter w"
  by (simp_all add: after_check_def tick_def)

lemma mw_update_sel [simp]:
  "w_rw (w\<lparr>g_authLimiter := a\<rparr>) = w_rw w" "w_rw (w\<lparr>g_noCredLimiter := n\<rparr>) = w_rw w"
  "w_rw (w\<lparr>g_limiter := l\<rparr>) = w_rw w"
  "w_access (w\<lparr>g_authLimiter := a\<rparr>) = w_access w" "w_access (w\<lparr>g_noCredLimiter := n\<rparr>) = w_access w"
  "w_access (w\<lparr>g_limiter := l\<rparr>) = w_access w"
  by simp_all

lemma basicAuth_pass:
  assumes "username \<noteq> []" "password \<noteq> []"
    and "\<not> fst (isAuthBlocked (time_now w) (clientIPFromContext r) (g_authLimiter w))"
    and "basicAuthCreds r = Some (username, password)"
  shows "basicAuth username password next r w = next r (after_check (clientIPFromContext r) w)"
  using assms
  by (cases "isAuthBlocked (time_now w) (clientIPFromContext r) (g_authLimiter w)")
    (simp add: basicAuth_def after_check_def Let_def)

lemma basicAuth_wrong:
  assumes "username \<noteq> []" "password \<noteq> []"
    and "\<not> fst (isAuthBlocked (time_now w) (clientIPFromContext r) (g_authLimiter w))"
    and "basicAuthCreds r = Some c" "c \<noteq> (username, password)"
    and "w1 = after_check (clientIPFromContext r) w"
  shows "basicAuth username password next r w =
    Done (on_rw writeUnauthorized
      ((tick (tick w1))\<lparr>g_authLimiter := recordAuthFailure (iter_now w1) (time_now w1)
         (time_now (tick w1)) (clientIPFromContext r) (g_authLimiter w1)\<rparr>))"
  using assms
  by (cases "isAuthBlocked (time_now w) (clientIPFromContext r) (g_authLimiter w)"; cases c)
    (auto simp: basicAuth_def after_check_def recordFailure_def Let_def)

lemma basicAuth_blocked:
  assumes "username \<noteq> []" "password \<noteq> []"
    and "fst (isAuthBlocked (time_now w) (clientIPFromContext r) (g_authLimiter w))"
  shows "basicAuth username password next r w =
    Done (on_rw (\<lambda>rw. writeJSONError msg_auth_blocked 429 ''auth_rate_limit''
                  (set_header ''Retry-After'' ''300'' rw)) (after_check (clientIPFromContext r) w))"
  using assms
  by (cases "isAuthBlocked (time_now w) (clientIPFromContext r) (g_authLimiter w)")
    (simp add: basicAuth_def after_check_def Let_def)

lemma basicAuth_rejects:
  assumes conf: "username \<noteq> []" "password \<noteq> []" and fresh: "rw_status (w_rw w) = None"
    and bad: "fst (isAuthBlocked (time_now w) (clientIPFromContext r) (g_authLimiter w)) \<or>
      basicAuthCreds r \<noteq> Some (username, password)"
  shows "\<exists>w'. rejected w w' \<and> (\<forall>next. basicAuth username password next r w = Done w')"
proof (cases "fst (isAuthBlocked (time_now w) (clientIPFromContext r) (g_authLimiter w))")
  case True
  have "rejected w (on_rw (\<lambda>rw. writeJSONError msg_auth_blocked 429 ''auth_rate_limit''
      (set_header ''Retry-After'' ''300'' rw)) (after_check (clientIPFromContext r) w))"
    using fresh by (intro rejected_429) auto
  with basicAuth_blocked [OF conf True] show ?thesis by blast
next
  case False
  show ?thesis
  proof (cases "basicAuthCreds r")
    case (Some c)
    with bad False have "c \<noteq> (username, password)" by auto
    note wrong = basicAuth_wrong [OF conf False Some this refl]
    let ?w1 = "after_check (clientIPFromContext r) w"
    have "rejected w (on_rw writeUnauthorized ((tick (tick ?w1))\<lparr>g_authLimiter :=
        recordAuthFailure (iter_now ?w1) (time_now ?w1) (time_now (tick ?w1))
          (clientIPFromContext r) (g_authLimiter ?w1)\<rparr>))"
      using fresh by (intro rejected_401) auto
    with wrong show ?thesis by blast
  next
    case None
    obtain a where a: "isAuthBlocked (time_now w) (clientIPFromContext r) (g_authLimiter w) = (False, a)"
      using False by (cases "isAuthBlocked (time_now w) (clientIPFromContext r) (g_authLimiter w)") auto
    let ?w1 = "(tick w)\<lparr>g_authLimiter := a\<rparr>"
    obtain b n where n: "isAuthBlocked (time_now ?w1) (clientIPFromContext r) (g_noCredLimiter ?w1) = (b, n)"
      by (cases "isAuthBlocked (time_now ?w1) (clientIPFromContext r) (g_noCredLimiter ?w1)")
    show ?thesis
    proof (cases b)
      case True
      let ?w' = "on_rw (\<lambda>rw. writeJSONError msg_too_frequent 429 ''rate_limit''
          (set_header ''Retry-After'' ''60'' rw)) ((tick ?w1)\<lparr>g_noCredLimiter := n\<rparr>)"
      have "rejected w ?w'" using fresh by (intro rejected_429) auto
      moreover have "basicAuth username password next r w = Done ?w'" for "next"
        unfolding basicAuth_def Let_def using True None conf a n by simp
      ultimately show ?thesis by blast
    next
      case b: False
      let ?w2 = "(tick ?w1)\<lparr>g_noCredLimiter := n\<rparr>"
      let ?w' = "on_rw writeUnauthorized ((tick (tick ?w2))\<lparr>g_noCredLimiter :=
          recordAuthFailure (iter_now ?w2) (time_now ?w2) (time_now (tick ?w2)) (clientIPFromContext r) n\<rparr>)"
      have "rejected w ?w'" using fresh by (intro rejected_401) auto
      moreover have "basicAuth username password next r w = Done ?w'" for "next"
        unfolding basicAuth_def Let_def recordFailure_def using b None conf a n by simp
      ultimately show ?thesis by blast
    qed
  qed
qed

section \<open>Runs of wrong credentials\<close>

text \<open>Requests served one after the other, each with a fresh response.\<close>

fun serve_all :: "('a world_scheme) handler \<Rightarrow> request list \<Rightarrow> 'a world_scheme \<Rightarrow> 'a world_scheme" where
  "serve_all h [] w = w"
| "serve_all h (r # rs) w = serve_all h rs (outcome_world (h r (on_rw (\<lambda>_. empty_response) w)))"

lemma serve_all_snoc:
  "serve_all h (rs @ [r]) w = outcome_world (h r (on_rw (\<lambda>_. empty_response) (serve_all h rs w)))"
  by (induction rs arbitrary: w) auto

definition wrong_credentials :: "gostring \<Rightarrow> gostring \<Rightarrow> gostring \<Rightarrow> request \<Rightarrow> bool" where
  "wrong_credentials username password ip r =
     (clientIPFromContext r = ip \<and>
      (case basicAuthCreds r of None \<Rightarrow> False | Some c \<Rightarrow> c \<noteq> (username, password)))"

lemma time_now_on_rw [simp]: "time_now (on_rw f w) = time_now w"
  by (simp add: time_now_def)

text \<open>The lockout entry of the client after \<open>n\<close> wrong requests, the last one ending at \<open>w\<close>.\<close>

definition locked_after :: "gostring \<Rightarrow> nat \<Rightarrow> ('a mw_world_scheme) \<Rightarrow> bool" where
  "locked_after ip n w =
     (case map_of (states (g_authLimiter w)) ip of
        None \<Rightarrow> n = 0
      | Some st \<Rightarrow> 0 < n \<and> attempts st = int n \<and>
          blockedAt st = (if int n = al_limit (g_authLimiter w) then w_clk w (w_ticks w - 1) else 0))"

lemma serve_wrong_step:
  fixes w :: "'a mw_world_scheme"
  assumes conf: "username \<noteq> []" "password \<noteq> []" and clock: "clock_ok w"
    and wrong: "wrong_credentials username password ip r"
    and state: "locked_after ip n w" and n: "int n < al_limit (g_authLimiter w)"
    and w': "w' = outcome_world (basicAuth username password next r (on_rw (\<lambda>_. empty_response) w))"
  shows "locked_after ip (Suc n) w' \<and> clock_ok w' \<and> w_clk w' = w_clk w \<and>
    w_ticks w' = w_ticks w + 3 \<and>
    al_limit (g_authLimiter w') = al_limit (g_authLimiter w) \<and>
    al_blockWindow (g_authLimiter w') = al_blockWindow (g_authLimiter w)"
proof -
  let ?w0 = "on_rw (\<lambda>_. empty_response) w"
  let ?a = "g_authLimiter w"
  have ip: "clientIPFromContext r = ip" using wrong by (simp add: wrong_credentials_def)
  from wrong obtain c where c: "basicAuthCreds r = Some c" "c \<noteq> (username, password)"
    by (auto simp: wrong_credentials_def split: option.splits)
  have open_entry: "isAuthBlocked (time_now ?w0) ip (g_authLimiter ?w0) = (False, ?a)"
    using state n by (auto simp: locked_after_def isAuthBlocked_def is_zero_time_def split: option.splits)
  let ?w1 = "after_check ip ?w0"
  have res: "basicAuth username password next r ?w0 =
      Done (on_rw writeUnauthorized ((tick (tick ?w1))\<lparr>g_authLimiter :=
        recordAuthFailure (iter_now ?w1) (time_now ?w1) (time_now (tick ?w1)) ip (g_authLimiter ?w1)\<rparr>))"
    using basicAuth_wrong [OF conf _ c refl, of ?w0 "next"] open_entry ip by simp
  have a1: "g_authLimiter ?w1 = ?a" using open_entry by simp
  have w'_sel: "g_authLimiter w' =
      recordAuthFailure (iter_now ?w1) (time_now ?w1) (time_now (tick ?w1)) ip ?a"
    "w_ticks w' = w_ticks w + 3" "w_clk w' = w_clk w"
    unfolding w' res using a1 by simp_all
  have reading: "time_now (tick ?w1) = w_clk w' (w_ticks w' - 1)"
    unfolding w'_sel by (simp add: time_now_def numeral_3_eq_3)
  have pos: "w_clk w' i \<noteq> 0" for i
    using clock w'_sel by (auto simp: clock_ok_def dest: spec [of _ i])
  have "map_of (states (g_authLimiter w')) ip =
      Some (failure_state (al_limit ?a) (time_now ?w1) (w_clk w' (w_ticks w' - 1)) (map_of (states ?a) ip))"
    unfolding w'_sel(1) recordAuthFailure_lookup reading ..
  then have "locked_after ip (Suc n) w'"
    using state n w'_sel(1)
    by (auto simp: locked_after_def failure_state_def is_zero_time_def Let_def split: option.splits)
  with w'_sel clock show ?thesis by (simp add: clock_ok_def)
qed

lemma serve_wrong_run:
  fixes w :: "'a mw_world_scheme"
  assumes conf: "username \<noteq> []" "password \<noteq> []" and clock: "clock_ok w"
    and wrong: "list_all (wrong_credentials username password ip) rs"
    and new: "map_of (states (g_authLimiter w)) ip = None"
    and len: "int (length rs) \<le> al_limit (g_authLimiter w)"
  shows "locked_after ip (length rs) (serve_all (basicAuth username password next) rs w) \<and>
    clock_ok (serve_all (basicAuth username password next) rs w) \<and>
    w_clk (serve_all (basicAuth username password next) rs w) = w_clk w \<and>
    w_ticks (serve_all (basicAuth username password next) rs w) = w_ticks w + 3 * length rs \<and>
    al_limit (g_authLimiter (serve_all (basicAuth username password next) rs w)) = al_limit (g_authLimiter w) \<and>
    al_blockWindow (g_authLimiter (serve_all (basicAuth username password next) rs w)) = al_blockWindow (g_authLimiter w)"
  using wrong len
proof (induction rs rule: rev_induct)
  case Nil
  with new clock show ?case by (simp add: locked_after_def)
next
  case (snoc r rs)
  let ?h = "basicAuth username password next"
  let ?v = "serve_all ?h rs w"
  have IH: "locked_after ip (length rs) ?v" "clock_ok ?v"
    "al_limit (g_authLimiter ?v) = al_limit (g_authLimiter w)"
    "al_blockWindow (g_authLimiter ?v) = al_blockWindow (g_authLimiter w)"
    "w_clk ?v = w_clk w" "w_ticks ?v = w_ticks w + 3 * length rs"
    using snoc by auto
  have r: "wrong_credentials username password ip r" using snoc.prems by simp
  have n: "int (length rs) < al_limit (g_authLimiter ?v)" using snoc.prems IH(3) by simp
  from serve_wrong_step [OF conf IH(2) r IH(1) n refl, of "next"] IH(3-6)
  show ?case by (simp add: serve_all_snoc)
qed

section \<open>The chain\<close>

text \<open>A rejection by the authentication passes unchanged through the outer middlewares.\<close>

definition secure_headers :: "response \<Rightarrow> response" where
  "secure_headers rw =
     set_header ''Referrer-Policy'' ''strict-origin-when-cross-origin''
      (set_header ''Content-Security-Policy'' csp_value
       (set_header ''X-Frame-Options'' ''DENY''
         (set_header ''X-Content-Type-Options'' ''nosniff'' rw)))"

lemma secure_headers_sel [simp]:
  "security_set (rw_header (secure_headers rw))"
  "rw_status (secure_headers rw) = rw_status rw"
  "rw_lrw (secure_headers rw) = rw_lrw rw"
  "rw_body (secure_headers rw) = rw_body rw"
  by (simp_all add: secure_headers_def security_set_def set_header_lookup canon_names)

text \<open>The state in which the authentication runs inside the chain.\<close>

definition chain_state :: "('a world_scheme) \<Rightarrow> ('a world_scheme)" where
  "chain_state w = on_rw secure_headers (on_rw (\<lambda>rw. rw\<lparr>rw_lrw := Some 200\<rparr>) w)"

lemma chain_state_sel [simp]:
  "w_clk (chain_state w) = w_clk w" "w_iter (chain_state w) = w_iter w"
  "w_ticks (chain_state w) = w_ticks w" "w_access (chain_state w) = w_access w"
  "rw_status (w_rw (chain_state w)) = rw_status (w_rw w)"
  "rw_lrw (w_rw (chain_state w)) = Some 200"
  "security_set (rw_header (w_rw (chain_state w)))"
  "time_now (chain_state w) = time_now w"
  by (simp_all add: chain_state_def time_now_def)

lemma chain_state_limiters [simp]:
  "g_limiter (chain_state w) = g_limiter w"
  "g_authLimiter (chain_state w) = g_authLimiter w"
  "g_noCredLimiter (chain_state w) = g_noCredLimiter w"
  by (simp_all add: chain_state_def)

lemma clientIP_ctx [simp]: "clientIP (r\<lparr>req_ctx_ip := c\<rparr>) t = clientIP r t"
  by (simp add: clientIP_def Let_def split: sum.split)

lemma clientIPFromContext_ctx [simp]: "clientIPFromContext (r\<lparr>req_ctx_ip := Some ip\<rparr>) = ip"
  by (simp add: clientIPFromContext_def)

lemma basicAuthCreds_ctx [simp]: "basicAuthCreds (r\<lparr>req_ctx_ip := c\<rparr>) = basicAuthCreds r"
  by (simp add: basicAuthCreds_def)

lemma chain_cases:
  assumes "rw_lrw (w_rw w) = None"
  shows "middleware_chain tp username password mux r w =
    (case basicAuth username password (rateLimit tp mux) (r\<lparr>req_ctx_ip := Some (clientIP r tp)\<rparr>) (chain_state w) of
       Done w1 \<Rightarrow> Done (log_access (clientIP r tp) r None w1)
     | Panic w1 \<Rightarrow> Done (on_rw (writeJSONError ''Internal Server Error'' 500 ''server'')
                      (log_access (clientIP r tp) r None w1)))"
  using assms
  by (simp add: middleware_chain_def recovery_def logger_def securityHeaders_def secure_headers_def [abs_def]
      chain_state_def Let_def split: outcome.split)

lemma log_access_sel [simp]:
  "rw_status (w_rw (log_access ip r out w)) = rw_status (w_rw w)"
  "rw_sent (w_rw (log_access ip r out w)) = rw_sent (w_rw w)"
  "w_access (log_access ip r out w) = w_access w @
     [\<lparr>ae_ip = ip, ae_method = req_method r, ae_path = req_path r,
       ae_status = (case rw_lrw (w_rw w) of Some s \<Rightarrow> s | None \<Rightarrow> 200)\<rparr>]"
  by (simp_all add: log_access_def Let_def on_rw_def)

text \<open>The request limiter, with its decision named.\<close>

definition rate_admits :: "('a mw_world_scheme) \<Rightarrow> gostring \<Rightarrow> bool" where
  "rate_admits w ip = fst (checkAndRecord (iter_now w) (time_now w) ip (g_limiter w))"

definition rate_recorded :: "('a mw_world_scheme) \<Rightarrow> gostring \<Rightarrow> ('a mw_world_scheme)" where
  "rate_recorded w ip =
     (tick w)\<lparr>g_limiter := snd (checkAndRecord (iter_now w) (time_now w) ip (g_limiter w))\<rparr>"

lemma rate_recorded_sel [simp]:
  "w_rw (rate_recorded w ip) = w_rw w" "w_access (rate_recorded w ip) = w_access w"
  by (simp_all add: rate_recorded_def)

lemma rateLimit_cases:
  "rateLimit tp next r w =
     (if rate_admits w (clientIP r tp) then next r (rate_recorded w (clientIP r tp))
      else Done (on_rw (writeJSONError msg_too_frequent 429 ''rate_limit'') (rate_recorded w (clientIP r tp))))"
  by (simp add: rateLimit_def rate_admits_def rate_recorded_def Let_def split: prod.split)

lemma rateLimit_rejects:
  assumes "\<not> rate_admits w (clientIP r tp)" and "rw_status (w_rw w) = None"
  shows "\<exists>w'. rejected w w' \<and> (\<forall>next. rateLimit tp next r w = Done w')"
  using assms by (auto simp: rateLimit_cases intro!: exI rejected_429_plain)

lemma rejected_trans:
  assumes "rejected w1 w'" "w_rw w1 = w_rw w" "w_access w1 = w_access w"
  shows "rejected w w'"
  using assms by (simp add: rejected_def)

section \<open>Properties\<close>

text \<open>
  The authentication gate: with credentials configured, the inner handler runs only for a
  client that is not locked out and sends exactly the configured user name and password, and
  then it sees the untouched response; every other request is answered with 401 or 429 whatever
  the inner handler is, with the headers set so far.
\<close>

theorem auth_gate:
  assumes "username \<noteq> []" and "password \<noteq> []" and "rw_status (w_rw w) = None"
  shows "if \<not> fst (isAuthBlocked (time_now w) (clientIPFromContext r) (g_authLimiter w)) \<and>
            basicAuthCreds r = Some (username, password)
    then \<exists>w'. w_rw w' = w_rw w \<and> (\<forall>next. basicAuth username password next r w = next r w')
    else \<exists>w'. rejected w w' \<and> (\<forall>next. basicAuth username password next r w = Done w')"
proof (cases "\<not> fst (isAuthBlocked (time_now w) (clientIPFromContext r) (g_authLimiter w)) \<and>
    basicAuthCreds r = Some (username, password)")
  case True
  then have "basicAuth username password next r w = next r (after_check (clientIPFromContext r) w)" for "next"
    using assms by (intro basicAuth_pass) auto
  moreover have "w_rw (after_check (clientIPFromContext r) w) = w_rw w" by simp
  ultimately have "\<exists>w'. w_rw w' = w_rw w \<and> (\<forall>next. basicAuth username password next r w = next r w')"
    by blast
  with True show ?thesis by simp
next
  case False
  then have "\<exists>w'. rejected w w' \<and> (\<forall>next. basicAuth username password next r w = Done w')"
    using basicAuth_rejects [OF assms] by blast
  with False show ?thesis by (simp only: if_False)
qed

definition sample_request :: request where
  "sample_request =
     \<lparr>req_method = ''GET'', req_path = ''/api/config'', req_headers = [], req_query = [],
      req_remote = ''10.0.0.9:5000'', req_body = None, req_ctx_ip = Some ''10.0.0.9''\<rparr>"

definition sample_world :: mw_world where
  "sample_world =
     \<lparr>w_clk = (\<lambda>i. int i + 1), w_iter = (\<lambda>_ ks. ks), w_ticks = 0, w_rw = empty_response,
      w_access = [], g_limiter = limiter, g_authLimiter = authLimiter,
      g_noCredLimiter = noCredLimiter\<rparr>"

lemma sample_sel [simp]:
  "w_rw sample_world = empty_response" "w_ticks sample_world = 0"
  "w_clk sample_world = (\<lambda>i. int i + 1)" "w_access sample_world = []"
  "g_authLimiter sample_world = authLimiter" "g_limiter sample_world = limiter"
  "g_noCredLimiter sample_world = noCredLimiter"
  by (simp_all add: sample_world_def)

lemma empty_response_sel [simp]:
  "rw_status empty_response = None" "rw_header empty_response = []" "rw_body empty_response = []"
  "rw_lrw empty_response = None" "rw_sent empty_response = []"
  by (simp_all add: empty_response_def)

lemma sample_creds [simp]: "basicAuthCreds sample_request = None"
  by (simp add: basicAuthCreds_def sample_request_def header_get_def)

theorem auth_gate_witness:
  "\<exists>w'. rejected sample_world w' \<and> (\<forall>next. basicAuth ''admin'' ''200'' next sample_request sample_world = Done w')"
  using auth_gate [of "''admin''" "''200''" sample_world sample_request] by simp


text \<open>Five wrong guesses: \<open>admin:x\<close> in Base64.\<close>

definition guess_request :: request where
  "guess_request = sample_request\<lparr>req_headers := [(''Authorization'', [''Basic YWRtaW46eA=='']) ]\<rparr>"

lemma guess_creds: "basicAuthCreds guess_request = Some (''admin'', ''x'')"
  by code_simp

lemma guess_wrong: "wrong_credentials ''admin'' ''200'' ''10.0.0.9'' guess_request"
  by (simp add: wrong_credentials_def guess_creds clientIPFromContext_def)
    (simp add: guess_request_def sample_request_def)


text \<open>
  C2. End to end, a request that is locked out, lacks the configured credentials or exceeds the
  request limit never reaches the router: the whole chain answers it with 401 or 429, whatever
  the router is, the response carries the security headers, and the request log gets one line
  with the client address and the status that was sent.
\<close>

theorem chain_rejects:
  fixes w :: mw_world
  assumes conf: "username \<noteq> []" "password \<noteq> []" and fresh: "w_rw w = empty_response"
    and ip: "ip = clientIP r tp"
    and refused: "fst (isAuthBlocked (time_now w) ip (g_authLimiter w)) \<or>
       basicAuthCreds r \<noteq> Some (username, password) \<or> \<not> rate_admits (after_check ip w) ip"
  shows "\<exists>w' st. (\<forall>mux. middleware_chain tp username password mux r w = Done w') \<and>
    (st = 401 \<or> st = 429) \<and> rw_status (w_rw w') = Some st \<and> security_set (rw_sent (w_rw w')) \<and>
    w_access w' = w_access w @
      [\<lparr>ae_ip = ip, ae_method = req_method r, ae_path = req_path r, ae_status = st\<rparr>]"
proof -
  let ?r = "r\<lparr>req_ctx_ip := Some ip\<rparr>"
  let ?w = "chain_state w"
  have fresh': "rw_status (w_rw ?w) = None" "rw_lrw (w_rw w) = None" using fresh by simp_all
  have "\<exists>w'. rejected ?w w' \<and> (\<forall>mux. basicAuth username password (rateLimit tp mux) ?r ?w = Done w')"
  proof (cases "fst (isAuthBlocked (time_now ?w) (clientIPFromContext ?r) (g_authLimiter ?w)) \<or>
      basicAuthCreds ?r \<noteq> Some (username, password)")
    case True
    from basicAuth_rejects [OF conf fresh'(1) True] show ?thesis by blast
  next
    case False
    let ?v = "after_check ip ?w"
    have "rate_admits ?v ip = rate_admits (after_check ip w) ip"
      by (simp add: rate_admits_def time_now_def iter_now_def)
    with refused False have "\<not> rate_admits ?v (clientIP ?r tp)" by (simp add: ip)
    from rateLimit_rejects [OF this] fresh' obtain w' where
      w': "rejected ?v w'" "\<And>mux. rateLimit tp mux ?r ?v = Done w'" by auto
    have "rejected ?w w'" using w'(1) by (rule rejected_trans) simp_all
    moreover have "basicAuth username password (rateLimit tp mux) ?r ?w = Done w'" for mux
      using basicAuth_pass [OF conf, of ?w ?r] False w'(2) by simp
    ultimately show ?thesis by blast
  qed
  then obtain w1 where w1: "rejected ?w w1"
    "\<And>mux. basicAuth username password (rateLimit tp mux) ?r ?w = Done w1" by blast
  have "middleware_chain tp username password mux r w = Done (log_access ip r None w1)" for mux
    using w1(2) [of mux] by (simp add: chain_cases [OF fresh'(2)] ip)
  with w1(1) show ?thesis
    by (intro exI [of _ "log_access ip r None w1"] exI [of _ "the (rw_status (w_rw w1))"])
      (auto simp: rejected_def)
qed

theorem chain_rejects_witness:
  "\<exists>w' st. (\<forall>mux. middleware_chain False ''admin'' ''200'' mux sample_request sample_world = Done w') \<and>
    (st = 401 \<or> st = 429) \<and> rw_status (w_rw w') = Some st \<and> security_set (rw_sent (w_rw w')) \<and>
    w_access w' = w_access sample_world @
      [\<lparr>ae_ip = clientIP sample_request False, ae_method = req_method sample_request,
        ae_path = req_path sample_request, ae_status = st\<rparr>]"
  by (rule chain_rejects) simp_all

text \<open>
  A request that passes the lockout, the credentials and the request limit reaches the
  router exactly once, with an unsent response that already carries the security headers. The
  chain always answers: a panic of the router becomes an error response, and either way the
  request log gets one more line.
\<close>

theorem chain_admits:
  fixes w :: mw_world
  assumes conf: "username \<noteq> []" "password \<noteq> []" and fresh: "w_rw w = empty_response"
    and ip: "ip = clientIP r tp"
    and granted: "\<not> fst (isAuthBlocked (time_now w) ip (g_authLimiter w))"
       "basicAuthCreds r = Some (username, password)" "rate_admits (after_check ip w) ip"
  shows "\<exists>w1. rw_status (w_rw w1) = None \<and> security_set (rw_header (w_rw w1)) \<and>
    (\<forall>mux. middleware_chain tp username password mux r w =
       (case mux (r\<lparr>req_ctx_ip := Some ip\<rparr>) w1 of
          Done w2 \<Rightarrow> Done (log_access ip r None w2)
        | Panic w2 \<Rightarrow> Done (on_rw (writeJSONError ''Internal Server Error'' 500 ''server'')
                         (log_access ip r None w2))))"
proof -
  let ?r = "r\<lparr>req_ctx_ip := Some ip\<rparr>"
  let ?v = "after_check ip (chain_state w)"
  have lrw: "rw_lrw (w_rw w) = None" using fresh by simp
  have "rate_admits ?v ip = rate_admits (after_check ip w) ip"
    by (simp add: rate_admits_def time_now_def iter_now_def)
  then have "basicAuth username password (rateLimit tp mux) ?r (chain_state w) =
      mux ?r (rate_recorded ?v ip)" for mux
    using basicAuth_pass [OF conf, of "chain_state w" ?r] granted by (simp add: rateLimit_cases ip)
  then show ?thesis
    using fresh by (intro exI [of _ "rate_recorded ?v ip"]) (simp add: chain_cases [OF lrw] ip split: outcome.split)
qed

theorem chain_admits_witness:
  "\<exists>w1. rw_status (w_rw w1) = None \<and> security_set (rw_header (w_rw w1)) \<and>
    (\<forall>mux. middleware_chain False ''admin'' ''x'' mux guess_request sample_world =
       (case mux (guess_request\<lparr>req_ctx_ip := Some (clientIP guess_request False)\<rparr>) w1 of
          Done w2 \<Rightarrow> Done (log_access (clientIP guess_request False) guess_request None w2)
        | Panic w2 \<Rightarrow> Done (on_rw (writeJSONError ''Internal Server Error'' 500 ''server'')
                         (log_access (clientIP guess_request False) guess_request None w2))))"
  by (rule chain_admits)
    (simp_all add: guess_creds authLimiter_def isAuthBlocked_def rate_admits_def limiter_def checkAndRecord_def
      Let_def)

text \<open>
  C17. The origin check decides alone which requests reach the API: with allowed origins
  configured, only safe requests without an origin and non-preflight requests whose origin is in
  the list are passed on; everything else is answered at once, a preflight of an allowed origin
  with 204 and the rest with 403. Access is granted (\<open>Access-Control-Allow-Origin\<close>) only to the
  request's own origin, and only if it is in the list.
\<close>

theorem cors_gate:
  fixes w :: "'a world_scheme"
  assumes conf: "allowed \<noteq> []" and fresh: "rw_status (w_rw w) = None"
    and unset: "map_of (rw_header (w_rw w)) ''Access-Control-Allow-Origin'' = None"
    and origin: "origin = request_origin url_parse r"
  shows "if origin = [] \<and> safe_method (req_method r) \<or>
            origin \<noteq> [] \<and> trim_right_slash origin \<in> set allowed \<and> req_method r \<noteq> ''OPTIONS''
    then \<exists>w'. (\<forall>next. checkOrigin url_parse allowed next r w = next r w') \<and>
           rw_status (w_rw w') = None \<and>
           map_of (rw_header (w_rw w')) ''Access-Control-Allow-Origin'' =
             (if origin = [] then None else Some [trim_right_slash origin])
    else \<exists>w'. (\<forall>next. checkOrigin url_parse allowed next r w = Done w') \<and>
           (if origin \<noteq> [] \<and> trim_right_slash origin \<in> set allowed
            then rw_status (w_rw w') = Some 204 \<and>
              map_of (rw_sent (w_rw w')) ''Access-Control-Allow-Origin'' = Some [trim_right_slash origin]
            else rw_status (w_rw w') = Some 403 \<and>
              map_of (rw_sent (w_rw w')) ''Access-Control-Allow-Origin'' = None)"
proof -
  have acao: "map_of (rw_header (cors_headers t rw)) ''Access-Control-Allow-Origin'' = Some [t]"
    "rw_status (cors_headers t rw) = rw_status rw" for t rw
    by (simp_all add: cors_headers_def set_header_def add_header_def canon_names Let_def)
  have vary: "map_of (rw_header (add_header ''Vary'' ''Origin'' (w_rw w))) ''Access-Control-Allow-Origin'' = None"
    using unset by (simp add: add_header_def canon_names Let_def)
  have forbid: "rw_status (forbid b (w_rw w)) = Some 403"
    "map_of (rw_sent (forbid b (w_rw w))) ''Access-Control-Allow-Origin'' = None" for b
    using fresh unset by (simp_all add: forbid_def set_header_def canon_names)
  show ?thesis
    using conf fresh
    by (cases "origin = []"; cases "trim_right_slash origin \<in> set allowed"; cases "req_method r = ''OPTIONS''")
      (simp_all add: checkOrigin_def Let_def flip: origin, (auto simp: acao vary forbid safe_method_def))
qed

definition post_request :: request where
  "post_request =
     \<lparr>req_method = ''POST'', req_path = ''/api/outbound/switch'',
      req_headers = [(''Origin'', [''https://panel.example'']) ], req_query = [],
      req_remote = ''10.0.0.9:5000'', req_body = None, req_ctx_ip = None\<rparr>"

lemma post_origin: "request_origin url_parse post_request = ''https://panel.example''"
  by (simp add: request_origin_def post_request_def header_get_def canon_names Let_def)

theorem cors_gate_witness:
  "\<exists>w'. (\<forall>next. checkOrigin (\<lambda>_. None) [''https://panel.example''] next post_request sample_world =
           next post_request w') \<and> rw_status (w_rw w') = None \<and>
     map_of (rw_header (w_rw w')) ''Access-Control-Allow-Origin'' = Some [''https://panel.example'']"
proof -
  have "trim_right_slash ''https://panel.example'' = ''https://panel.example''"
    by (simp add: trim_right_slash_def)
  moreover have "req_method post_request = ''POST''" by (simp add: post_request_def)
  ultimately show ?thesis
    using cors_gate [of "[''https://panel.example'']" sample_world _ "\<lambda>_. None" post_request, OF _ _ _ refl]
    by (simp add: post_origin)
qed

text \<open>
  An allowed origin written with a trailing slash matches no request: the slash of the
  request's origin is cut off, the one of the configured origin is not, so a service whose only
  allowed origin ends in a slash answers every request that has an origin with 403.
\<close>

theorem cors_trailing_slash_matches_nothing:
  fixes w :: "'a world_scheme"
  assumes "request_origin url_parse r \<noteq> []" and "rw_status (w_rw w) = None"
  shows "\<exists>w'. (\<forall>next. checkOrigin url_parse [origin @ ''/''] next r w = Done w') \<and>
    rw_status (w_rw w') = Some 403"
proof -
  have "trim_right_slash (request_origin url_parse r) \<noteq> origin @ ''/''"
    using trim_right_slash_last [of "request_origin url_parse r"] by auto
  then show ?thesis
    using assms by (auto simp: checkOrigin_def forbid_def Let_def intro!: exI)
qed

theorem cors_trailing_slash_matches_nothing_witness:
  "\<exists>w'. (\<forall>next. checkOrigin (\<lambda>_. None) [''https://panel.example'' @ ''/''] next post_request sample_world = Done w') \<and>
    rw_status (w_rw w') = Some 403"
  by (rule cors_trailing_slash_matches_nothing) (simp_all add: post_origin)

text \<open>
  A request whose handler panics is answered with 500 but logged with 200: the log line is
  written while the panic unwinds, before the recovery sends the status.
\<close>

theorem panic_logged_as_success:
  fixes w :: "'a mw_world_scheme"
  assumes "w_rw w = empty_response"
  shows "\<exists>w'. recovery (logger tp (\<lambda>_. Panic)) r w = Done w' \<and> rw_status (w_rw w') = Some 500 \<and>
    w_access w' = w_access w @ [\<lparr>ae_ip = clientIP r tp, ae_method = req_method r, ae_path = req_path r, ae_status = 200\<rparr>]"
  using assms by (simp add: recovery_def logger_def Let_def)

theorem panic_logged_as_success_witness:
  "\<exists>w'. recovery (logger False (\<lambda>_. Panic)) sample_request sample_world = Done w' \<and>
    rw_status (w_rw w') = Some 500 \<and>
    w_access w' = w_access sample_world @
      [\<lparr>ae_ip = clientIP sample_request False, ae_method = req_method sample_request,
        ae_path = req_path sample_request, ae_status = 200\<rparr>]"
  by (rule panic_logged_as_success) simp

text \<open>
  Behind a trusted proxy the client address can be empty: a header of one no-break space is
  trimmed to nothing. All such clients share the empty key of the limiters.
\<close>

lemma clientIP_can_be_empty:
  "clientIP (sample_request\<lparr>req_headers := [(''X-Real-Ip'', [[CHR 0xC2, CHR 0xA0]])]\<rparr>) True = []"
  by code_simp

end
