(* ===== verification/LoginRace.thy ===== *)
theory LoginRace
  imports MiddlewareProps
begin

text \<open>
  \<open>BasicAuth\<close> of middleware/auth.go under concurrent requests. A request with wrong credentials asks
  \<open>isAuthBlocked\<close> and, in a later critical section, calls \<open>recordAuthFailure\<close>; in between other
  connections run. How many guesses a client gets before it is locked out depends on how many
  connections it has. The table of requests without credentials is used in the same
  way; the system does not say which of the two tables it has.
\<close>

section \<open>The system\<close>

text \<open>
  The lockout table, the clock, and for each connection the client whose credentials it has let
  through the first check and has not compared yet. A connection serves one request at a time; right
  or missing credentials leave the table as it is.
\<close>

record login_sys =
  lg_table :: auth_limiter
  lg_now :: time
  lg_logins :: "nat \<Rightarrow> gostring option"

datatype login_event =
    LClock time
  | LRefuse nat gostring
  | LAdmit nat gostring
  | LFail nat gostring "gostring iter_order" time
  | LLeave nat
  | LClean "gostring iter_order"

inductive login_step :: "nat \<Rightarrow> login_sys \<Rightarrow> login_event \<Rightarrow> login_sys \<Rightarrow> bool" for k where
  lclock: "lg_now s \<le> t \<Longrightarrow> login_step k s (LClock t) (s\<lparr>lg_now := t\<rparr>)"
| lrefuse: "r < k \<Longrightarrow> lg_logins s r = None \<Longrightarrow> isAuthBlocked (lg_now s) q (lg_table s) = (True, a) \<Longrightarrow>
    login_step k s (LRefuse r q) (s\<lparr>lg_table := a\<rparr>)"
| ladmit: "r < k \<Longrightarrow> lg_logins s r = None \<Longrightarrow> isAuthBlocked (lg_now s) q (lg_table s) = (False, a) \<Longrightarrow>
    login_step k s (LAdmit r q) (s\<lparr>lg_table := a, lg_logins := (lg_logins s)(r \<mapsto> q)\<rparr>)"
| lfail: "lg_logins s r = Some q \<Longrightarrow> lg_now s \<le> t \<Longrightarrow> iter_ok perm \<Longrightarrow>
    login_step k s (LFail r q perm t)
      (s\<lparr>lg_table := recordAuthFailure perm (lg_now s) t q (lg_table s), lg_now := t,
        lg_logins := (lg_logins s)(r := None)\<rparr>)"
| lleave: "lg_logins s r = Some q \<Longrightarrow>
    login_step k s (LLeave r) (s\<lparr>lg_logins := (lg_logins s)(r := None)\<rparr>)"
| lclean: "iter_ok perm \<Longrightarrow>
    login_step k s (LClean perm) (s\<lparr>lg_table := cleanupRateLimiter perm (lg_now s) (lg_table s)\<rparr>)"

text \<open>The guesses of a client that were compared with the password, and the clients that failed.\<close>

fun guess_of :: "gostring \<Rightarrow> login_event \<Rightarrow> bool" where
  "guess_of ip (LFail r q perm t) = (q = ip)"
| "guess_of ip _ = False"

definition guesses :: "gostring \<Rightarrow> login_event list \<Rightarrow> nat" where
  "guesses ip es = length (filter (guess_of ip) es)"

fun failed_client :: "login_event \<Rightarrow> gostring set" where
  "failed_client (LFail r q perm t) = {q}"
| "failed_client _ = {}"

definition inflight :: "nat \<Rightarrow> gostring \<Rightarrow> login_sys \<Rightarrow> nat" where
  "inflight k ip s = card {r. r < k \<and> lg_logins s r = Some ip}"

lemma guesses_simps [simp]:
  "guesses ip [] = 0" "guesses ip (es @ fs) = guesses ip es + guesses ip fs"
  "guesses ip (e # es) = (if guess_of ip e then Suc (guesses ip es) else guesses ip es)"
  by (simp_all add: guesses_def)

lemma inflight_le: "inflight k ip s \<le> k"
  using card_mono [of "{..<k}" "{r. r < k \<and> lg_logins s r = Some ip}"] by (auto simp: inflight_def)

lemma inflight_admit:
  assumes "r < k" and "lg_logins s r = None"
  shows "inflight k ip (s\<lparr>lg_table := a, lg_logins := (lg_logins s)(r \<mapsto> q)\<rparr>) =
    inflight k ip s + (if q = ip then 1 else 0)"
proof -
  have "{r'. r' < k \<and> ((lg_logins s)(r \<mapsto> q)) r' = Some ip} =
    (if q = ip then insert r {r'. r' < k \<and> lg_logins s r' = Some ip} else {r'. r' < k \<and> lg_logins s r' = Some ip})"
    using assms by auto
  then show ?thesis using assms by (simp add: inflight_def)
qed

lemma inflight_fail:
  assumes "r < k" and "lg_logins s r = Some q"
  shows "inflight k ip s = inflight k ip (s\<lparr>lg_table := a, lg_now := t, lg_logins := (lg_logins s)(r := None)\<rparr>) +
    (if q = ip then 1 else 0)"
proof -
  have "{r'. r' < k \<and> lg_logins s r' = Some ip} =
    (if q = ip then insert r {r'. r' < k \<and> ((lg_logins s)(r := None)) r' = Some ip}
     else {r'. r' < k \<and> ((lg_logins s)(r := None)) r' = Some ip})"
    using assms by auto
  then show ?thesis by (simp add: inflight_def)
qed

lemma inflight_leave: "inflight k ip (s\<lparr>lg_logins := (lg_logins s)(r := None)\<rparr>) \<le> inflight k ip s"
  unfolding inflight_def by (rule card_mono) (auto split: if_splits)

lemma inflight_upd [simp]:
  "inflight k ip (s\<lparr>lg_now := t\<rparr>) = inflight k ip s" "inflight k ip (s\<lparr>lg_table := a\<rparr>) = inflight k ip s"
  by (simp_all add: inflight_def)

section \<open>The entry of a client\<close>

text \<open>The entry after \<open>n\<close> failures since \<open>t0\<close>.\<close>

definition entry_ok :: "int \<Rightarrow> time \<Rightarrow> time \<Rightarrow> nat \<Rightarrow> auth_state option \<Rightarrow> bool" where
  "entry_ok bound t0 now n old =
     (case old of
        None \<Rightarrow> n = 0
      | Some st \<Rightarrow>
          0 < n \<and> attempts st = int n \<and> t0 \<le> lastAttempt st \<and> lastAttempt st \<le> now \<and>
          (if bound \<le> int n then t0 \<le> blockedAt st \<and> blockedAt st \<le> now else blockedAt st = 0))"

lemma entry_ok_later: "entry_ok bound t0 now n old \<Longrightarrow> now \<le> t \<Longrightarrow> entry_ok bound t0 t n old"
  by (auto simp: entry_ok_def split: option.splits if_splits)

lemma entry_ok_failure:
  "entry_ok bound t0 now n old \<Longrightarrow> 0 < t0 \<Longrightarrow> 1 \<le> bound \<Longrightarrow> t0 \<le> now \<Longrightarrow> now \<le> t \<Longrightarrow>
    entry_ok bound t0 t (Suc n) (Some (failure_state bound now t old))"
  by (cases old) (auto simp: entry_ok_def failure_state_def is_zero_time_def Let_def split: if_splits)

lemma window_open: "t0 \<le> b \<Longrightarrow> b \<le> now \<Longrightarrow> now - t0 < w \<Longrightarrow> time_sub now b < w"
  using time_sub_le [of b now] by simp

text \<open>Within the window the check refuses the client exactly from the limit on, and forgets nothing.\<close>

lemma entry_checked:
  assumes "entry_ok (al_limit a) t0 now n (map_of (states a) ip)" and "0 < t0" and "1 \<le> al_limit a"
    and "now - t0 < al_blockWindow a"
  shows "fst (isAuthBlocked now ip a) \<longleftrightarrow> al_limit a \<le> int n"
    and "map_of (states (snd (isAuthBlocked now q a))) ip = map_of (states a) ip"
  using assms window_open [of t0 _ now "al_blockWindow a"]
  by (auto simp: isAuthBlocked_def entry_ok_def is_zero_time_def split: option.splits if_splits)

lemma entry_cleaned:
  assumes "entry_ok (al_limit a) t0 now n (map_of (states a) ip)" and "0 < t0"
    and "now - t0 < al_blockWindow a"
  shows "map_of (states (cleanupRateLimiter perm now a)) ip = map_of (states a) ip"
proof (cases "map_of (states a) ip")
  case None
  then show ?thesis by (simp add: cleanupRateLimiter_def gm_sweep_lookup)
next
  case (Some st)
  with assms have "\<not> expired_state now (al_blockWindow a) st"
    using window_open [of t0 "blockedAt st" now "al_blockWindow a"] window_open [of t0 "lastAttempt st" now "al_blockWindow a"]
    by (auto simp: entry_ok_def expired_state_def is_zero_time_def split: if_splits)
  with Some show ?thesis by (simp add: cleanupRateLimiter_def gm_sweep_lookup)
qed

text \<open>With room in the table a failure leaves the entries of the others.\<close>

lemma record_keeps_others:
  assumes "gm_wf (states a)" and "set (gm_keys (states a)) \<subseteq> K" and "q \<in> K" and "finite K" and "card K \<le> maxTrackedIPs"
    and "ip \<noteq> q"
  shows "map_of (states (recordAuthFailure perm now1 now2 q a)) ip = map_of (states a) ip"
proof (cases "map_of (states a) q")
  case None
  then have "q \<notin> set (gm_keys (states a))" using gm_key_lookup [of q "states a"] by auto
  with assms(2,3) have "set (gm_keys (states a)) \<subset> K" by blast
  from psubset_card_mono [OF assms(4) this] have "card (set (gm_keys (states a))) < maxTrackedIPs"
    using assms(5) by (rule less_le_trans)
  then have "length (states a) < maxTrackedIPs"
    using assms(1) distinct_card [of "gm_keys (states a)"] by (simp add: gm_wf_def gm_keys_def)
  with None assms(6) show ?thesis by (simp add: recordAuthFailure_def Let_def evict_first_def)
next
  case (Some st)
  with assms(6) show ?thesis by (simp add: recordAuthFailure_def Let_def)
qed

lemma record_keys: "set (gm_keys (states (recordAuthFailure perm now1 now2 q a))) \<subseteq> insert q (set (gm_keys (states a)))"
proof
  fix x assume "x \<in> set (gm_keys (states (recordAuthFailure perm now1 now2 q a)))"
  from gm_key_lookup [OF this] obtain st where "map_of (states (recordAuthFailure perm now1 now2 q a)) x = Some st" ..
  then show "x \<in> insert q (set (gm_keys (states a)))"
    using recordAuthFailure_other [of perm now1 now2 q a x st] gm_lookup_key [of "states a" x st] by blast
qed

section \<open>How many guesses a client gets\<close>

text \<open>
  The state after \<open>n\<close> guesses since \<open>s0\<close>, within one block window: the client's entry counts them, and
  those together with the ones being compared exceed the limit by less than the number of
  connections. \<open>K\<close> are the clients that fit into the table.
\<close>

definition login_count :: "nat \<Rightarrow> gostring set \<Rightarrow> gostring \<Rightarrow> login_sys \<Rightarrow> nat \<Rightarrow> login_sys \<Rightarrow> bool" where
  "login_count k K ip s0 n s =
     (set (gm_keys (states (lg_table s))) \<subseteq> K \<and>
      entry_ok (al_limit (lg_table s0)) (lg_now s0) (lg_now s) n (map_of (states (lg_table s)) ip) \<and>
      int (n + inflight k ip s) \<le> al_limit (lg_table s0) - 1 + int k)"

definition login_frame :: "nat \<Rightarrow> login_sys \<Rightarrow> login_sys \<Rightarrow> bool" where
  "login_frame k s0 s =
     (al_limit (lg_table s) = al_limit (lg_table s0) \<and> al_blockWindow (lg_table s) = al_blockWindow (lg_table s0) \<and>
      lg_now s0 \<le> lg_now s \<and> gm_wf (states (lg_table s)) \<and> (\<forall>r q. lg_logins s r = Some q \<longrightarrow> r < k))"

definition login_inv ::
  "nat \<Rightarrow> gostring set \<Rightarrow> gostring \<Rightarrow> login_sys \<Rightarrow> login_event list \<Rightarrow> login_sys \<Rightarrow> bool" where
  "login_inv k K ip s0 es s =
     (login_frame k s0 s \<and>
      ((\<forall>e\<in>set es. failed_client e \<subseteq> K) \<and> lg_now s - lg_now s0 < al_blockWindow (lg_table s0) \<longrightarrow>
         login_count k K ip s0 (guesses ip es) s))"

text \<open>What is assumed of the first state.\<close>

definition login_start :: "nat \<Rightarrow> gostring set \<Rightarrow> gostring \<Rightarrow> login_sys \<Rightarrow> bool" where
  "login_start k K ip s =
     (1 \<le> al_limit (lg_table s) \<and> 0 < lg_now s \<and> gm_wf (states (lg_table s)) \<and> lg_logins s = (\<lambda>_. None) \<and>
      map_of (states (lg_table s)) ip = None \<and> set (gm_keys (states (lg_table s))) \<subseteq> K \<and> finite K \<and>
      card K \<le> maxTrackedIPs)"

lemma blocked_keys: "set (gm_keys (states (snd (isAuthBlocked now q a)))) \<subseteq> set (gm_keys (states a))"
  by (auto simp: isAuthBlocked_def gm_keys_delete split: option.split)

lemma blocked_wf: "gm_wf (states a) \<Longrightarrow> gm_wf (states (snd (isAuthBlocked now q a)))"
  by (auto simp: isAuthBlocked_def split: option.split)

lemma record_wf: "gm_wf (states a) \<Longrightarrow> gm_wf (states (recordAuthFailure perm now1 now2 q a))"
  using evict_first_wf [of "states a" perm] by (auto simp: recordAuthFailure_def Let_def split: option.splits)

lemma login_frame_step:
  assumes "login_frame k s0 s" and "login_step k s e s'"
  shows "login_frame k s0 s' \<and> lg_now s \<le> lg_now s'"
  using assms(2,1)
proof cases
  case (lrefuse r q a)
  with assms(1) blocked_wf [of "lg_table s" "lg_now s" q] isAuthBlocked_sel [of "lg_now s" q "lg_table s"]
  show ?thesis by (simp add: login_frame_def)
next
  case (ladmit r q a)
  with assms(1) blocked_wf [of "lg_table s" "lg_now s" q] isAuthBlocked_sel [of "lg_now s" q "lg_table s"]
  show ?thesis by (auto simp: login_frame_def)
next
  case (lfail r q t perm)
  with assms(1) show ?thesis by (auto simp: login_frame_def record_wf)
next
  case (lleave r q)
  with assms(1) show ?thesis by (auto simp: login_frame_def)
next
  case (lclean perm)
  with assms(1) show ?thesis by (auto simp: login_frame_def cleanupRateLimiter_def gm_sweep_wf)
qed (use assms(1) in \<open>auto simp: login_frame_def\<close>)

lemma login_count_step:
  assumes start: "login_start k K ip s0" and frame: "login_frame k s0 s" and step: "login_step k s e s'"
    and fits: "failed_client e \<subseteq> K" and soon: "lg_now s' - lg_now s0 < al_blockWindow (lg_table s0)"
    and count: "login_count k K ip s0 n s"
  shows "login_count k K ip s0 (n + (if guess_of ip e then 1 else 0)) s'"
proof -
  let ?a = "lg_table s"
  have const: "al_limit ?a = al_limit (lg_table s0)" "al_blockWindow ?a = al_blockWindow (lg_table s0)"
    and wf: "gm_wf (states ?a)" and born: "lg_now s0 \<le> lg_now s" using frame by (simp_all add: login_frame_def)
  have pos: "0 < lg_now s0" "1 \<le> al_limit ?a" and K: "finite K" "card K \<le> maxTrackedIPs"
    using start const by (simp_all add: login_start_def)
  have keys: "set (gm_keys (states ?a)) \<subseteq> K"
    and entry: "entry_ok (al_limit ?a) (lg_now s0) (lg_now s) n (map_of (states ?a) ip)"
    and sum: "int (n + inflight k ip s) \<le> al_limit ?a - 1 + int k"
    using count const by (simp_all add: login_count_def)
  have open_now: "lg_now s - lg_now s0 < al_blockWindow ?a"
    using soon login_frame_step [OF frame step] const by simp
  note check = entry_checked [OF entry pos open_now]
  from step show ?thesis
  proof cases
    case (lclock t)
    with keys sum const entry_ok_later [OF entry lclock(3)] show ?thesis by (simp add: login_count_def)
  next
    case (lrefuse r q a)
    then have a: "a = snd (isAuthBlocked (lg_now s) q ?a)" by simp
    show ?thesis using keys entry sum const check(2) [of q] blocked_keys [of "lg_now s" q ?a]
      by (auto simp: login_count_def lrefuse(1,2) a)
  next
    case (ladmit r q a)
    then have a: "a = snd (isAuthBlocked (lg_now s) q ?a)" by simp
    have "int (n + inflight k ip s') \<le> al_limit ?a - 1 + int k"
    proof (cases "q = ip")
      case True
      then have "int n < al_limit ?a" using check(1) ladmit(5) by simp
      with inflight_le [of k ip s'] show ?thesis by simp
    next
      case False
      with sum inflight_admit [OF ladmit(3,4), where ip = ip and a = a and q = q] show ?thesis by (simp add: ladmit(2))
    qed
    then show ?thesis using keys entry const check(2) [of q] blocked_keys [of "lg_now s" q ?a]
      by (auto simp: login_count_def ladmit(1,2) a)
  next
    case (lfail r q t perm)
    have "r < k" using frame lfail(3) by (simp add: login_frame_def)
    from inflight_fail [OF this lfail(3), where ip = ip and t = t and a = "recordAuthFailure perm (lg_now s) t q ?a"]
    have flight: "inflight k ip s = inflight k ip s' + (if q = ip then 1 else 0)" by (simp add: lfail(2))
    have "q \<in> K" using fits by (simp add: lfail(1))
    then have keys': "set (gm_keys (states (lg_table s'))) \<subseteq> K" using keys record_keys by (fastforce simp: lfail(2))
    show ?thesis
    proof (cases "q = ip")
      case True
      from entry_ok_failure [OF entry pos born lfail(4)] have
        "entry_ok (al_limit ?a) (lg_now s0) t (Suc n) (map_of (states (lg_table s')) ip)"
        by (simp add: lfail(2) True recordAuthFailure_lookup)
      with True keys' flight sum const show ?thesis by (simp add: login_count_def lfail(1,2))
    next
      case False
      with record_keeps_others [OF wf keys \<open>q \<in> K\<close> K] have
        "map_of (states (lg_table s')) ip = map_of (states ?a) ip" by (auto simp: lfail(2))
      with False keys' flight sum const entry_ok_later [OF entry lfail(4)] show ?thesis
        by (simp add: login_count_def lfail(1,2))
    qed
  next
    case (lleave r q)
    with keys entry sum const inflight_leave [of k ip s r] show ?thesis by (simp add: login_count_def)
  next
    case (lclean perm)
    have "set (gm_keys (states (cleanupRateLimiter perm (lg_now s) ?a))) \<subseteq> K"
      using keys gm_sweep_keys by (fastforce simp: cleanupRateLimiter_def)
    with entry_cleaned [OF entry pos(1) open_now] entry sum const show ?thesis
      by (simp add: login_count_def lclean)
  qed
qed

lemma login_inv_step:
  assumes "login_start k K ip s0" and "login_inv k K ip s0 es s" and "login_step k s e s'"
  shows "login_inv k K ip s0 (es @ [e]) s'"
proof -
  have frame: "login_frame k s0 s" using assms(2) by (simp add: login_inv_def)
  note frame' = login_frame_step [OF frame assms(3)]
  have "login_count k K ip s0 (guesses ip (es @ [e])) s'"
    if fits: "\<forall>e'\<in>set (es @ [e]). failed_client e' \<subseteq> K" and soon: "lg_now s' - lg_now s0 < al_blockWindow (lg_table s0)"
  proof -
    have "login_count k K ip s0 (guesses ip es) s" using assms(2) fits soon frame' by (simp add: login_inv_def)
    from login_count_step [OF assms(1) frame assms(3) _ soon this] fits show ?thesis by (simp split: if_splits)
  qed
  then show ?thesis using frame' by (simp add: login_inv_def)
qed

interpretation login: labelled "login_step k" "\<lambda>s. login_start k K ip s \<and> s = s0"
    "\<lambda>es s. login_start k K ip s0 \<and> login_inv k K ip s0 es s" for k K ip s0
proof
  fix s
  assume "login_start k K ip s \<and> s = s0"
  then show "login_start k K ip s0 \<and> login_inv k K ip s0 [] s"
    by (auto simp: login_start_def login_inv_def login_frame_def login_count_def entry_ok_def inflight_def)
qed (use login_inv_step in blast)

lemma login_bound:
  assumes start: "login_start k K ip s" and run: "runs (login_step k) s es s'"
    and fits: "\<forall>e\<in>set es. failed_client e \<subseteq> K"
    and soon: "lg_now s' - lg_now s < al_blockWindow (lg_table s)"
  shows "int (guesses ip es) \<le> al_limit (lg_table s) - 1 + int k"
proof -
  have "login_inv k K ip s es s'" using login.inv_runs [OF run, of K ip s] start by blast
  then have "login_count k K ip s (guesses ip es) s'" using fits soon by (simp add: login_inv_def)
  then show ?thesis by (simp add: login_count_def)
qed

section \<open>How to get that many\<close>

text \<open>A client below the limit is let in, and the check leaves the table.\<close>

lemma entry_open:
  "entry_ok (al_limit a) t0 now n (map_of (states a) ip) \<Longrightarrow> int n < al_limit a \<Longrightarrow> isAuthBlocked now ip a = (False, a)"
  by (auto simp: isAuthBlocked_def entry_ok_def is_zero_time_def split: option.splits)

text \<open>The connections \<open>0..<j\<close> wait for their comparison.\<close>

definition waiting_logins :: "gostring \<Rightarrow> nat \<Rightarrow> nat \<Rightarrow> gostring option" where
  "waiting_logins ip j = (\<lambda>r. if r < j then Some ip else None)"

lemma waiting_logins_simps [simp]:
  "waiting_logins ip 0 = (\<lambda>_. None)" "(waiting_logins ip j)(j \<mapsto> ip) = waiting_logins ip (Suc j)"
  "(waiting_logins ip (Suc j))(j := None) = waiting_logins ip j" "waiting_logins ip j j = None"
  "waiting_logins ip (Suc j) j = Some ip"
  by (auto simp: waiting_logins_def fun_eq_iff)

definition admits :: "gostring \<Rightarrow> nat \<Rightarrow> login_event list" where
  "admits ip j = map (\<lambda>r. LAdmit r ip) [0..<j]"

fun fails :: "gostring \<Rightarrow> time \<Rightarrow> nat \<Rightarrow> login_event list" where
  "fails ip t 0 = []"
| "fails ip t (Suc j) = LFail j ip rev t # fails ip t j"

lemma admits_simps [simp]: "guesses ip (admits ip j) = 0" "\<forall>e\<in>set (admits ip j). failed_client e \<subseteq> {ip}"
  by (auto simp: admits_def guesses_def)

lemma fails_simps [simp]: "guesses ip (fails ip t j) = j" "\<forall>e\<in>set (fails ip t j). failed_client e \<subseteq> {ip}"
  by (induction j) auto

lemma admits_run:
  assumes "isAuthBlocked (lg_now s) ip (lg_table s) = (False, lg_table s)" and "lg_logins s = (\<lambda>_. None)"
  shows "j \<le> k \<Longrightarrow> runs (login_step k) s (admits ip j) (s\<lparr>lg_logins := waiting_logins ip j\<rparr>)"
proof (induction j)
  case 0
  have "s\<lparr>lg_logins := \<lambda>_. None\<rparr> = s" using assms(2) by (cases s) simp
  then show ?case using runs_nil [of "login_step k" s] by (simp add: admits_def)
next
  case (Suc j)
  let ?s = "s\<lparr>lg_logins := waiting_logins ip j\<rparr>"
  have "login_step k ?s (LAdmit j ip) (s\<lparr>lg_logins := waiting_logins ip (Suc j)\<rparr>)"
    using ladmit [of j k ?s ip "lg_table s"] Suc.prems assms(1) by simp
  from runs_snoc [OF Suc.IH this] Suc.prems show ?case by (simp add: admits_def)
qed

lemma fails_run:
  assumes "entry_ok (al_limit (lg_table s)) t0 (lg_now s) n (map_of (states (lg_table s)) ip)"
    and "0 < t0" and "1 \<le> al_limit (lg_table s)" and "t0 \<le> lg_now s" and "lg_logins s = waiting_logins ip j"
  shows "\<exists>s'. runs (login_step k) s (fails ip (lg_now s) j) s' \<and> lg_logins s' = (\<lambda>_. None) \<and>
    lg_now s' = lg_now s \<and> al_limit (lg_table s') = al_limit (lg_table s) \<and>
    entry_ok (al_limit (lg_table s)) t0 (lg_now s) (n + j) (map_of (states (lg_table s')) ip)"
  using assms
proof (induction j arbitrary: s n)
  case 0
  then show ?case using runs_nil [of "login_step k" s] by auto
next
  case (Suc j)
  let ?a = "recordAuthFailure rev (lg_now s) (lg_now s) ip (lg_table s)"
  let ?s = "s\<lparr>lg_table := ?a, lg_now := lg_now s, lg_logins := waiting_logins ip j\<rparr>"
  have first: "login_step k s (LFail j ip rev (lg_now s)) ?s"
    using lfail [of s j ip "lg_now s" rev k] Suc.prems(5) by simp
  have "entry_ok (al_limit (lg_table s)) t0 (lg_now s) (Suc n) (map_of (states ?a) ip)"
    using entry_ok_failure [OF Suc.prems(1-4) order_refl] by (simp add: recordAuthFailure_lookup)
  with Suc.IH [of ?s "Suc n"] Suc.prems(2-4) obtain s' where
    "runs (login_step k) ?s (fails ip (lg_now s) j) s'" and s': "lg_logins s' = (\<lambda>_. None)" "lg_now s' = lg_now s"
    "al_limit (lg_table s') = al_limit (lg_table s)"
    "entry_ok (al_limit (lg_table s)) t0 (lg_now s) (Suc n + j) (map_of (states (lg_table s')) ip)" by auto
  from runs_cons [of "login_step k", OF first this(1)] s' show ?case by auto
qed

text \<open>A round: \<open>j\<close> connections pass the check together, then all of them compare.\<close>

lemma round_run:
  assumes "entry_ok (al_limit (lg_table s)) (lg_now s) (lg_now s) n (map_of (states (lg_table s)) ip)"
    and "0 < lg_now s" and "int n < al_limit (lg_table s)" and "lg_logins s = (\<lambda>_. None)" and "j \<le> k"
  shows "\<exists>s'. runs (login_step k) s (admits ip j @ fails ip (lg_now s) j) s' \<and> lg_logins s' = (\<lambda>_. None) \<and>
    lg_now s' = lg_now s \<and> al_limit (lg_table s') = al_limit (lg_table s) \<and>
    entry_ok (al_limit (lg_table s)) (lg_now s) (lg_now s) (n + j) (map_of (states (lg_table s')) ip)"
proof -
  note first = admits_run [OF entry_open [OF assms(1,3)] assms(4,5)]
  obtain s' where "runs (login_step k) (s\<lparr>lg_logins := waiting_logins ip j\<rparr>) (fails ip (lg_now s) j) s'"
    "lg_logins s' = (\<lambda>_. None)" "lg_now s' = lg_now s" "al_limit (lg_table s') = al_limit (lg_table s)"
    "entry_ok (al_limit (lg_table s)) (lg_now s) (lg_now s) (n + j) (map_of (states (lg_table s')) ip)"
    using fails_run [of "s\<lparr>lg_logins := waiting_logins ip j\<rparr>" "lg_now s" n ip j k] assms(1-3) by auto
  with runs_append [of "login_step k", OF _ first] show ?thesis by blast
qed

lemma single_rounds:
  assumes "map_of (states (lg_table s)) ip = None" and "0 < lg_now s" and "lg_logins s = (\<lambda>_. None)" and "1 \<le> k"
  shows "int n < al_limit (lg_table s) \<Longrightarrow>
    \<exists>es s'. runs (login_step k) s es s' \<and> guesses ip es = n \<and> (\<forall>e\<in>set es. failed_client e \<subseteq> {ip}) \<and>
      lg_logins s' = (\<lambda>_. None) \<and> lg_now s' = lg_now s \<and> al_limit (lg_table s') = al_limit (lg_table s) \<and>
      entry_ok (al_limit (lg_table s)) (lg_now s) (lg_now s) n (map_of (states (lg_table s')) ip)"
proof (induction n)
  case 0
  have "entry_ok (al_limit (lg_table s)) (lg_now s) (lg_now s) 0 (map_of (states (lg_table s)) ip)"
    using assms(1) by (simp add: entry_ok_def)
  with assms(3) show ?case using runs_nil [of "login_step k" s] by (intro exI [of _ "[]"] exI [of _ s]) simp
next
  case (Suc n)
  then obtain es s1 where run: "runs (login_step k) s es s1" and es: "guesses ip es = n"
    "\<forall>e\<in>set es. failed_client e \<subseteq> {ip}" and s1: "lg_logins s1 = (\<lambda>_. None)" "lg_now s1 = lg_now s"
    "al_limit (lg_table s1) = al_limit (lg_table s)"
    "entry_ok (al_limit (lg_table s)) (lg_now s) (lg_now s) n (map_of (states (lg_table s1)) ip)" by auto
  from round_run [of s1 n ip 1 k] s1 assms(2,4) Suc.prems obtain s2 where
    more_run: "runs (login_step k) s1 (admits ip 1 @ fails ip (lg_now s) 1) s2" and s2: "lg_logins s2 = (\<lambda>_. None)"
    "lg_now s2 = lg_now s" "al_limit (lg_table s2) = al_limit (lg_table s)"
    "entry_ok (al_limit (lg_table s)) (lg_now s) (lg_now s) (n + 1) (map_of (states (lg_table s2)) ip)" by auto
  let ?es = "es @ admits ip 1 @ fails ip (lg_now s) 1"
  have "guesses ip ?es = n + 1" by (simp only: guesses_simps(2) admits_simps(1) fails_simps(1) es add_0)
  moreover have "\<forall>e\<in>set ?es. failed_client e \<subseteq> {ip}" using es(2) admits_simps(2) [of ip 1] fails_simps(2) [of ip "lg_now s" 1]
    by (simp only: set_append ball_Un simp_thms)
  ultimately show ?case unfolding Suc_eq_plus1 using runs_append [of "login_step k", OF more_run run] s2 by blast
qed

lemma login_bound_reached:
  assumes start: "login_start k K ip s" and k: "1 \<le> k"
  shows "\<exists>es s'. runs (login_step k) s es s' \<and> (\<forall>e\<in>set es. failed_client e \<subseteq> {ip}) \<and> lg_now s' = lg_now s \<and>
    int (guesses ip es) = al_limit (lg_table s) - 1 + int k"
proof -
  let ?n = "nat (al_limit (lg_table s) - 1)"
  have pos: "1 \<le> al_limit (lg_table s)" "0 < lg_now s" and below: "int ?n < al_limit (lg_table s)"
    using start by (auto simp: login_start_def)
  from single_rounds [of s ip k ?n] start k below obtain es s1 where run: "runs (login_step k) s es s1"
    and es: "guesses ip es = ?n" "\<forall>e\<in>set es. failed_client e \<subseteq> {ip}" and s1: "lg_logins s1 = (\<lambda>_. None)"
    "lg_now s1 = lg_now s" "al_limit (lg_table s1) = al_limit (lg_table s)"
    "entry_ok (al_limit (lg_table s)) (lg_now s) (lg_now s) ?n (map_of (states (lg_table s1)) ip)"
    by (auto simp: login_start_def)
  from round_run [of s1 ?n ip k k] s1 pos below obtain s2 where
    "runs (login_step k) s1 (admits ip k @ fails ip (lg_now s) k) s2" "lg_now s2 = lg_now s" by auto
  with runs_append [of "login_step k", OF this(1) run] es pos(1) show ?thesis
    by (intro exI [of _ "es @ admits ip k @ fails ip (lg_now s) k"] exI [of _ s2]) (auto dest: admits_simps(2) [THEN bspec] fails_simps(2) [THEN bspec])
qed

section \<open>The middleware is a run of this system\<close>

definition login_of :: "'a mw_world_scheme \<Rightarrow> login_sys" where
  "login_of w = \<lparr>lg_table = g_authLimiter w, lg_now = time_now w, lg_logins = (\<lambda>_. None)\<rparr>"

text \<open>What one request does alone: refused at once, or let in and then right, missing or wrong.\<close>

lemma refused_run:
  assumes "isAuthBlocked (lg_now s) ip (lg_table s) = (True, a)" and "lg_logins s 0 = None"
  shows "runs (login_step 1) s [LRefuse 0 ip] (s\<lparr>lg_table := a\<rparr>)"
  using runs_one [of "login_step 1", OF lrefuse [of 0 1 s ip a]] assms by simp

lemma left_run:
  assumes "isAuthBlocked (lg_now s) ip (lg_table s) = (False, a)" and "lg_logins s = (\<lambda>_. None)"
  shows "runs (login_step 1) s [LAdmit 0 ip, LLeave 0] (s\<lparr>lg_table := a\<rparr>)"
proof -
  let ?s = "s\<lparr>lg_table := a, lg_logins := (lg_logins s)(0 \<mapsto> ip)\<rparr>"
  have "login_step 1 s (LAdmit 0 ip) ?s" using assms by (intro ladmit) auto
  moreover have "login_step 1 ?s (LLeave 0) (s\<lparr>lg_table := a\<rparr>)"
    using lleave [of ?s 0 ip 1] assms(2) by (cases s) (simp add: fun_upd_idem)
  ultimately show ?thesis by (meson runs_cons runs_nil)
qed

lemma failed_run:
  assumes "isAuthBlocked (lg_now s) ip (lg_table s) = (False, a)" and "lg_logins s = (\<lambda>_. None)"
    and "lg_now s \<le> t1" and "t1 \<le> t2" and "iter_ok perm"
  shows "runs (login_step 1) s [LAdmit 0 ip, LClock t1, LFail 0 ip perm t2]
    (s\<lparr>lg_table := recordAuthFailure perm t1 t2 ip a, lg_now := t2\<rparr>)"
proof -
  let ?s = "s\<lparr>lg_table := a, lg_logins := (lg_logins s)(0 \<mapsto> ip)\<rparr>"
  let ?t = "?s\<lparr>lg_now := t1\<rparr>"
  have "login_step 1 s (LAdmit 0 ip) ?s" using assms by (intro ladmit) auto
  moreover have "login_step 1 ?s (LClock t1) ?t" using assms(3) by (intro lclock) simp
  moreover have "login_step 1 ?t (LFail 0 ip perm t2) (s\<lparr>lg_table := recordAuthFailure perm t1 t2 ip a, lg_now := t2\<rparr>)"
    using lfail [of ?t 0 ip t2 perm 1] assms(2,4,5) by (cases s) (simp add: fun_upd_idem)
  ultimately show ?thesis by (meson runs_cons runs_nil)
qed

lemma after_check_env:
  assumes "clock_ok w" and "orders_ok w"
  shows "lg_now (login_of w) \<le> time_now (after_check ip w)"
    and "time_now (after_check ip w) \<le> time_now (tick (after_check ip w))" and "iter_ok (iter_now (after_check ip w))"
  using assms
  by (simp_all add: login_of_def clock_ok_def orders_ok_def time_now_def iter_now_def tick_def after_check_def)

lemma basicAuth_without_creds:
  assumes "username \<noteq> []" "password \<noteq> []" and "\<not> fst (isAuthBlocked (time_now w) (clientIPFromContext r) (g_authLimiter w))"
    and "basicAuthCreds r = None"
  shows "\<exists>w1. g_authLimiter w1 = snd (isAuthBlocked (time_now w) (clientIPFromContext r) (g_authLimiter w)) \<and>
    (\<forall>next. basicAuth username password next r w = Done w1)"
proof -
  let ?ip = "clientIPFromContext r"
  obtain a where a: "isAuthBlocked (time_now w) ?ip (g_authLimiter w) = (False, a)"
    using assms(3) by (cases "isAuthBlocked (time_now w) ?ip (g_authLimiter w)") simp
  obtain b n where n: "isAuthBlocked (time_now ((tick w)\<lparr>g_authLimiter := a\<rparr>)) ?ip (g_noCredLimiter w) = (b, n)"
    by fastforce
  show ?thesis using a n assms(1,2,4)
    by (cases b) (simp_all add: basicAuth_def recordFailure_def Let_def tick_def on_rw_def)
qed

section \<open>Properties\<close>



text \<open>
  C31. The middleware implements the system: serving one request by \<open>basicAuth\<close> changes the lockout
  table as a run with one connection does, whose guesses are the wrong credentials that were
  compared, and lets the request through exactly when it is not locked out and the credentials are
  right.
\<close>

theorem basic_auth_refines_login:
  assumes conf: "username \<noteq> []" "password \<noteq> []" and clock: "clock_ok w" and orders: "orders_ok w"
    and ip: "ip = clientIPFromContext r" and let_in: "passes = (\<not> fst (isAuthBlocked (time_now w) ip (g_authLimiter w)))"
  shows "\<exists>es s' w1. runs (login_step 1) (login_of w) es s' \<and> lg_logins s' = (\<lambda>_. None) \<and>
    lg_table s' = g_authLimiter w1 \<and>
    guesses ip es = (if passes \<and> basicAuthCreds r \<notin> {None, Some (username, password)} then 1 else 0) \<and>
    (\<forall>next. basicAuth username password next r w =
      (if passes \<and> basicAuthCreds r = Some (username, password) then next r w1 else Done w1))"
proof -
  obtain a where a: "isAuthBlocked (time_now w) ip (g_authLimiter w) = (\<not> passes, a)"
    using let_in by (cases "isAuthBlocked (time_now w) ip (g_authLimiter w)") simp
  let ?w = "after_check ip w"
  have now: "isAuthBlocked (lg_now (login_of w)) ip (lg_table (login_of w)) = (\<not> passes, a)"
    and idle: "lg_logins (login_of w) = (\<lambda>_. None)" and table: "g_authLimiter ?w = a"
    using a by (simp_all add: login_of_def)
  show ?thesis
  proof (cases passes)
    case False
    with refused_run [of "login_of w" ip a] now idle basicAuth_blocked [OF conf, of w r] a ip table show ?thesis
      by (intro exI [of _ "[LRefuse 0 ip]"] exI [of _ "login_of w\<lparr>lg_table := a\<rparr>"] exI conjI) auto
  next
    case True
    with now have let_through: "isAuthBlocked (lg_now (login_of w)) ip (lg_table (login_of w)) = (False, a)" by simp
    note left = left_run [OF this idle]
    consider "basicAuthCreds r = None" | "basicAuthCreds r = Some (username, password)"
      | c where "basicAuthCreds r = Some c" "c \<noteq> (username, password)" by (cases "basicAuthCreds r") auto
    then show ?thesis
    proof cases
      case 1
      with basicAuth_without_creds [OF conf, of w r] a ip True obtain w1 where "g_authLimiter w1 = a"
        "\<forall>next. basicAuth username password next r w = Done w1" by auto
      with left 1 idle show ?thesis by (intro exI [of _ "[LAdmit 0 ip, LLeave 0]"] exI [of _ "login_of w\<lparr>lg_table := a\<rparr>"] exI conjI) auto
    next
      case 2
      with left idle table basicAuth_pass [OF conf, of w r] a ip True show ?thesis
        by (intro exI [of _ "[LAdmit 0 ip, LLeave 0]"] exI [of _ "login_of w\<lparr>lg_table := a\<rparr>"] exI conjI) auto
    next
      case 3
      note run = failed_run [OF let_through idle after_check_env [OF clock orders, of ip]]
      have "\<not> fst (isAuthBlocked (time_now w) (clientIPFromContext r) (g_authLimiter w))" using a True ip by simp
      from basicAuth_wrong [OF conf this 3 refl] run idle 3 True ip table show ?thesis
        by (intro exI [of _ "[LAdmit 0 ip, LClock (time_now ?w), LFail 0 ip (iter_now ?w) (time_now (tick ?w))]"]
              exI [of _ "login_of w\<lparr>lg_table := recordAuthFailure (iter_now ?w) (time_now ?w) (time_now (tick ?w)) ip a,
                lg_now := time_now (tick ?w)\<rparr>"] exI conjI) auto
    qed
  qed
qed

theorem basic_auth_refines_login_witness:
  "\<exists>es s' w1. runs (login_step 1) (login_of sample_world) es s' \<and> lg_logins s' = (\<lambda>_. None) \<and>
    lg_table s' = g_authLimiter w1 \<and> guesses ''10.0.0.9'' es = 1 \<and>
    (\<forall>next. basicAuth ''admin'' ''200'' next guess_request sample_world = Done w1)"
proof -
  have client: "''10.0.0.9'' = clientIPFromContext guess_request"
    by (simp add: clientIPFromContext_def guess_request_def sample_request_def)
  have let_in: "True = (\<not> fst (isAuthBlocked (time_now sample_world) ''10.0.0.9'' (g_authLimiter sample_world)))"
    by (simp add: isAuthBlocked_def authLimiter_def)
  have env: "clock_ok sample_world" "orders_ok sample_world"
    by (simp_all add: clock_ok_def orders_ok_def iter_ok_def sample_world_def)
  from basic_auth_refines_login [OF _ _ env client let_in, of "''admin''" "''200''"] show ?thesis
    by (simp add: guess_creds)
qed

text \<open>
  The eviction at a full table may hit a locked-out client: the failure of another client then
  lifts its block.
\<close>

lemma eviction_lifts_block:
  assumes "map_of (states a) q = None" and "maxTrackedIPs \<le> length (states a)" and "perm (gm_keys (states a)) = ip # ks"
    and "ip \<noteq> q"
  shows "\<not> fst (isAuthBlocked now ip (recordAuthFailure perm t1 t2 q a))"
proof -
  have "map_of (states (recordAuthFailure perm t1 t2 q a)) ip = None"
    using assms by (simp add: recordAuthFailure_def Let_def evict_first_def)
  then show ?thesis by (simp add: isAuthBlocked_def)
qed

end
