(* ===== verification/CleanupLoop.thy ===== *)
theory CleanupLoop
  imports GoBase
begin

text \<open>
  The lifecycle of the background cleanup goroutines (\<open>startCleanupLoop\<close> in
  middleware/middleware.go, \<open>InitRateLimiter\<close> and \<open>StopCleanup\<close> in middleware/ratelimit.go):
  a started flag and a stop channel per limiter, goroutines that each captured their own stop
  channel, and channels that may be closed once only.
\<close>

datatype loop_owner = RequestLimiter | AuthLimiters

record loop_ctl =
  lc_started :: bool
  lc_stop :: "nat option"

record cleanup_sys =
  cs_limiter :: loop_ctl
  cs_auth :: loop_ctl
  cs_next :: nat
  cs_closed :: "nat list"
  cs_loops :: "(nat \<times> loop_owner) list"
  cs_panic :: bool

definition cleanup_init :: cleanup_sys where
  "cleanup_init =
     \<lparr>cs_limiter = \<lparr>lc_started = False, lc_stop = None\<rparr>,
      cs_auth = \<lparr>lc_started = False, lc_stop = None\<rparr>,
      cs_next = 0, cs_closed = [], cs_loops = [], cs_panic = False\<rparr>"

fun ctl_of :: "loop_owner \<Rightarrow> cleanup_sys \<Rightarrow> loop_ctl" where
  "ctl_of RequestLimiter s = cs_limiter s"
| "ctl_of AuthLimiters s = cs_auth s"

fun set_ctl :: "loop_owner \<Rightarrow> loop_ctl \<Rightarrow> cleanup_sys \<Rightarrow> cleanup_sys" where
  "set_ctl RequestLimiter c s = s\<lparr>cs_limiter := c\<rparr>"
| "set_ctl AuthLimiters c s = s\<lparr>cs_auth := c\<rparr>"

section \<open>Operations\<close>

text \<open>A second start is a no-op; otherwise a fresh stop channel and one goroutine that holds it.\<close>

definition startCleanupLoop :: "loop_owner \<Rightarrow> cleanup_sys \<Rightarrow> cleanup_sys" where
  "startCleanupLoop own s =
     (if lc_started (ctl_of own s) then s
      else (let ch = cs_next s in
        (set_ctl own \<lparr>lc_started = True, lc_stop = Some ch\<rparr> s)
          \<lparr>cs_next := Suc ch, cs_loops := (ch, own) # cs_loops s\<rparr>))"

definition initRateLimiter :: "cleanup_sys \<Rightarrow> cleanup_sys" where
  "initRateLimiter s = startCleanupLoop RequestLimiter s"

text \<open>Closing a closed channel panics.\<close>

definition close_stop :: "nat \<Rightarrow> cleanup_sys \<Rightarrow> cleanup_sys" where
  "close_stop ch s =
     (if ch \<in> set (cs_closed s) then s\<lparr>cs_panic := True\<rparr>
      else s\<lparr>cs_closed := ch # cs_closed s\<rparr>)"

definition stop_one :: "loop_owner \<Rightarrow> cleanup_sys \<Rightarrow> cleanup_sys" where
  "stop_one own s =
     (let s1 = (case lc_stop (ctl_of own s) of None \<Rightarrow> s | Some ch \<Rightarrow> close_stop ch s) in
      set_ctl own \<lparr>lc_started = False, lc_stop = None\<rparr> s1)"

definition stopCleanup :: "cleanup_sys \<Rightarrow> cleanup_sys" where
  "stopCleanup s = stop_one AuthLimiters (stop_one RequestLimiter s)"

text \<open>A goroutine whose captured channel is closed leaves its loop.\<close>

definition loop_exit :: "nat \<Rightarrow> cleanup_sys \<Rightarrow> cleanup_sys" where
  "loop_exit ch s =
     (if ch \<in> set (cs_closed s) then s\<lparr>cs_loops := filter (\<lambda>l. fst l \<noteq> ch) (cs_loops s)\<rparr> else s)"

datatype cleanup_event = StartLoop loop_owner | StopAll | LoopExit nat

fun cleanup_step :: "cleanup_event \<Rightarrow> cleanup_sys \<Rightarrow> cleanup_sys" where
  "cleanup_step (StartLoop own) s = startCleanupLoop own s"
| "cleanup_step StopAll s = stopCleanup s"
| "cleanup_step (LoopExit ch) s = loop_exit ch s"

section \<open>The invariant\<close>

text \<open>The goroutines that have not been told to stop.\<close>

definition live_loops :: "loop_owner \<Rightarrow> cleanup_sys \<Rightarrow> nat list" where
  "live_loops own s =
     map fst (filter (\<lambda>l. snd l = own \<and> fst l \<notin> set (cs_closed s)) (cs_loops s))"

definition ctl_ok :: "loop_owner \<Rightarrow> cleanup_sys \<Rightarrow> bool" where
  "ctl_ok own s =
     (case lc_stop (ctl_of own s) of
        None \<Rightarrow> \<not> lc_started (ctl_of own s) \<and> live_loops own s = []
      | Some ch \<Rightarrow> lc_started (ctl_of own s) \<and> live_loops own s = [ch] \<and>
          ch < cs_next s \<and> ch \<notin> set (cs_closed s))"

definition cleanup_inv :: "cleanup_sys \<Rightarrow> bool" where
  "cleanup_inv s =
     (\<not> cs_panic s \<and> (\<forall>ch \<in> set (cs_closed s). ch < cs_next s) \<and>
      (\<forall>ch own. (ch, own) \<in> set (cs_loops s) \<longrightarrow> ch < cs_next s) \<and>
      distinct (map fst (cs_loops s)) \<and> ctl_ok RequestLimiter s \<and> ctl_ok AuthLimiters s)"

lemma ctl_of_set_ctl [simp]:
  "ctl_of own (set_ctl own' c s) = (if own = own' then c else ctl_of own s)"
  by (cases own; cases own') auto

lemma set_ctl_sel [simp]:
  "cs_next (set_ctl own c s) = cs_next s"
  "cs_closed (set_ctl own c s) = cs_closed s"
  "cs_loops (set_ctl own c s) = cs_loops s"
  "cs_panic (set_ctl own c s) = cs_panic s"
  by (cases own; simp)+

lemma ctl_of_frame [simp]:
  "ctl_of own (s\<lparr>cs_next := n, cs_loops := ls\<rparr>) = ctl_of own s"
  "ctl_of own (s\<lparr>cs_next := n\<rparr>) = ctl_of own s"
  "ctl_of own (s\<lparr>cs_closed := cl\<rparr>) = ctl_of own s"
  "ctl_of own (s\<lparr>cs_loops := ls\<rparr>) = ctl_of own s"
  "ctl_of own (s\<lparr>cs_panic := b\<rparr>) = ctl_of own s"
  by (cases own; simp)+

lemma ctl_of_close_stop [simp]: "ctl_of own (close_stop ch s) = ctl_of own s"
  by (simp add: close_stop_def)

lemma ctl_of_stop_one:
  "ctl_of o' (stop_one own s) =
     (if o' = own then \<lparr>lc_started = False, lc_stop = None\<rparr> else ctl_of o' s)"
  by (simp add: stop_one_def Let_def split: option.split)

lemma cleanup_inv_ctl: "cleanup_inv s \<Longrightarrow> ctl_ok own s"
  by (cases own) (auto simp: cleanup_inv_def)

lemma cleanup_inv_start:
  assumes inv: "cleanup_inv s"
  shows "cleanup_inv (startCleanupLoop own s)"
proof (cases "lc_started (ctl_of own s)")
  case True
  with inv show ?thesis by (simp add: startCleanupLoop_def)
next
  case False
  let ?s = "startCleanupLoop own s"
  have stop: "lc_stop (ctl_of own s) = None" and none: "live_loops own s = []"
    using cleanup_inv_ctl [OF inv, of own] False by (auto simp: ctl_ok_def split: option.splits)
  have fresh: "cs_next s \<notin> set (cs_closed s)" and fresh': "cs_next s \<notin> fst ` set (cs_loops s)"
    using inv by (fastforce simp: cleanup_inv_def)+
  have "live_loops o' ?s = (if o' = own then [cs_next s] else live_loops o' s)" for o'
    using False none fresh by (auto simp: startCleanupLoop_def live_loops_def Let_def)
  moreover have "ctl_of o' ?s = (if o' = own then \<lparr>lc_started = True, lc_stop = Some (cs_next s)\<rparr>
      else ctl_of o' s)" for o'
    using False by (simp add: startCleanupLoop_def Let_def)
  ultimately have "ctl_ok o' ?s" for o'
    using cleanup_inv_ctl [OF inv, of o'] fresh False
    by (auto simp: ctl_ok_def startCleanupLoop_def Let_def split: option.splits)
  moreover have "cs_loops ?s = (cs_next s, own) # cs_loops s" "cs_next ?s = Suc (cs_next s)"
    "cs_closed ?s = cs_closed s" "cs_panic ?s = cs_panic s"
    using False by (simp_all add: startCleanupLoop_def Let_def)
  ultimately show ?thesis
    using inv fresh' by (auto simp: cleanup_inv_def less_Suc_eq)
qed

lemma cleanup_inv_stop_one:
  assumes inv: "cleanup_inv s"
  shows "cleanup_inv (stop_one own s)"
proof (cases "lc_stop (ctl_of own s)")
  case None
  then have "live_loops o' (stop_one own s) = live_loops o' s" for o'
    by (simp add: stop_one_def live_loops_def)
  then have "ctl_ok o' (stop_one own s)" for o'
    using cleanup_inv_ctl [OF inv, of o'] None
    by (auto simp: ctl_ok_def stop_one_def split: option.splits)
  with inv None show ?thesis by (auto simp: cleanup_inv_def stop_one_def)
next
  case (Some ch)
  then have live: "live_loops own s = [ch]" and ch: "ch < cs_next s" "ch \<notin> set (cs_closed s)"
    using cleanup_inv_ctl [OF inv, of own] by (auto simp: ctl_ok_def)
  have mem: "(ch, own) \<in> set (cs_loops s)"
  proof -
    have "ch \<in> set (live_loops own s)" using live by simp
    then show ?thesis by (auto simp: live_loops_def)
  qed
  have s': "cs_closed (stop_one own s) = ch # cs_closed s" "cs_loops (stop_one own s) = cs_loops s"
    "cs_next (stop_one own s) = cs_next s" "cs_panic (stop_one own s) = cs_panic s"
    "ctl_of o' (stop_one own s) = (if o' = own then \<lparr>lc_started = False, lc_stop = None\<rparr> else ctl_of o' s)" for o'
    using Some ch by (simp_all add: stop_one_def close_stop_def)
  have distinct: "distinct (map fst (cs_loops s))" using inv by (simp add: cleanup_inv_def)
  have "live_loops o' (stop_one own s) = (if o' = own then [] else live_loops o' s)" for o'
  proof (cases "o' = own")
    case True
    have "live_loops own (stop_one own s) = filter (\<lambda>c. c \<noteq> ch) (live_loops own s)"
      by (simp add: live_loops_def s' filter_map o_def conj_commute conj_left_commute)
    with True live show ?thesis by simp
  next
    case False
    have "l = (ch, own)" if "l \<in> set (cs_loops s)" "fst l = ch" for l
      using that mem distinct by (metis eq_key_imp_eq_value prod.collapse)
    then have "filter (\<lambda>l. snd l = o' \<and> fst l \<notin> set (ch # cs_closed s)) (cs_loops s) =
        filter (\<lambda>l. snd l = o' \<and> fst l \<notin> set (cs_closed s)) (cs_loops s)"
      using False by (intro filter_cong) auto
    with False show ?thesis by (simp add: live_loops_def s')
  qed
  then have "ctl_ok o' (stop_one own s)" for o'
  proof (cases "o' = own")
    case False
    have "ch' \<noteq> ch" if "lc_stop (ctl_of o' s) = Some ch'" for ch'
    proof
      assume "ch' = ch"
      with that cleanup_inv_ctl [OF inv, of o'] have "ch \<in> set (live_loops o' s)"
        by (auto simp: ctl_ok_def)
      then have "(ch, o') \<in> set (cs_loops s)" by (auto simp: live_loops_def)
      with mem distinct False show False by (metis eq_key_imp_eq_value)
    qed
    with False \<open>\<And>o'. live_loops o' _ = _\<close> cleanup_inv_ctl [OF inv, of o'] show ?thesis
      by (auto simp: ctl_ok_def s' split: option.splits)
  qed (auto simp: ctl_ok_def s')
  with inv ch show ?thesis by (auto simp: cleanup_inv_def s')
qed

lemma cleanup_inv_exit:
  assumes inv: "cleanup_inv s"
  shows "cleanup_inv (loop_exit ch s)"
proof (cases "ch \<in> set (cs_closed s)")
  case True
  then have "live_loops own (loop_exit ch s) = live_loops own s" for own
    by (auto simp: loop_exit_def live_loops_def intro!: arg_cong [where f = "map fst"] filter_cong)
  then have "ctl_ok own (loop_exit ch s)" for own
    using True cleanup_inv_ctl [OF inv, of own] by (auto simp: ctl_ok_def loop_exit_def split: option.splits)
  with True inv show ?thesis
    by (auto simp: cleanup_inv_def loop_exit_def distinct_map_filter)
next
  case False
  with inv show ?thesis by (simp add: loop_exit_def)
qed

interpretation cleanup: machine cleanup_step "\<lambda>_. True" cleanup_inv
proof
  fix s e
  assume "cleanup_inv s"
  then show "cleanup_inv (cleanup_step e s)"
    by (cases e) (auto simp: stopCleanup_def intro: cleanup_inv_start cleanup_inv_stop_one cleanup_inv_exit)
qed

lemma cleanup_inv_init: "cleanup_inv cleanup_init"
  by (simp add: cleanup_inv_def cleanup_init_def ctl_ok_def live_loops_def)

section \<open>Properties\<close>

text \<open>
  C38. However starts, stops and goroutine exits interleave, no stop channel is closed twice and
  each limiter has at most one goroutine that has not been told to stop: exactly one while its
  started flag is set, none otherwise. So repeated starts are no-ops, and a start after
  \<open>StopCleanup\<close> runs one new goroutine.
\<close>

theorem cleanup_single_goroutine:
  "\<not> cs_panic (fold cleanup_step es cleanup_init) \<and>
   length (live_loops own (fold cleanup_step es cleanup_init)) =
     (if lc_started (ctl_of own (fold cleanup_step es cleanup_init)) then 1 else 0)"
proof -
  have "list_all (\<lambda>_. True) es" by (simp add: list_all_iff)
  then have inv: "cleanup_inv (fold cleanup_step es cleanup_init)"
    by (rule cleanup.inv_run [OF cleanup_inv_init])
  then show ?thesis
    using cleanup_inv_ctl [OF inv, of own]
    by (auto simp: cleanup_inv_def ctl_ok_def split: option.splits)
qed

text \<open>
  \<open>StopCleanup\<close> tells every cleanup goroutine to stop, in every reachable state.
\<close>

theorem cleanup_stop_reaches_all:
  "ch \<in> fst ` set (cs_loops (stopCleanup (fold cleanup_step es cleanup_init))) \<Longrightarrow>
     ch \<in> set (cs_closed (stopCleanup (fold cleanup_step es cleanup_init)))"
proof -
  let ?s = "stopCleanup (fold cleanup_step es cleanup_init)"
  assume "ch \<in> fst ` set (cs_loops ?s)"
  then obtain own where mem: "(ch, own) \<in> set (cs_loops ?s)" by auto
  have "list_all (\<lambda>_. True) es" by (simp add: list_all_iff)
  then have "cleanup_inv (fold cleanup_step es cleanup_init)"
    by (rule cleanup.inv_run [OF cleanup_inv_init])
  then have "ctl_ok own ?s"
    unfolding stopCleanup_def by (intro cleanup_inv_ctl cleanup_inv_stop_one)
  moreover have "lc_stop (ctl_of own ?s) = None"
    by (cases own) (simp_all add: stopCleanup_def ctl_of_stop_one del: ctl_of.simps)
  ultimately have "live_loops own ?s = []" by (simp add: ctl_ok_def)
  with mem show ?thesis by (auto simp: live_loops_def filter_empty_conv)
qed

theorem cleanup_stop_reaches_all_witness:
  "0 \<in> set (cs_closed (stopCleanup (fold cleanup_step [StartLoop RequestLimiter] cleanup_init)))"
proof (rule cleanup_stop_reaches_all)
  show "0 \<in> fst ` set (cs_loops (stopCleanup (fold cleanup_step [StartLoop RequestLimiter] cleanup_init)))"
    by (simp add: stopCleanup_def stop_one_def close_stop_def startCleanupLoop_def cleanup_init_def)
qed

end
