(* ===== verification/GoPath.thy ===== *)
theory GoPath
  imports GoStr
begin

text \<open>
  \<open>path/filepath\<close> on Unix, as far as config/config.go uses it: \<open>Clean\<close>, \<open>IsAbs\<close>, \<open>Abs\<close>, \<open>Ext\<close>,
  \<open>Dir\<close> and \<open>Join\<close>.
\<close>

fun join_slash :: "gostring list \<Rightarrow> gostring" where
  "join_slash [] = []"
| "join_slash [x] = x"
| "join_slash (x # xs) = x @ ''/'' @ join_slash xs"

text \<open>One path element against the elements kept so far, the last one first.\<close>

definition path_push :: "bool \<Rightarrow> gostring list \<Rightarrow> gostring \<Rightarrow> gostring list" where
  "path_push rooted kept c =
     (if c = [] \<or> c = ''.'' then kept
      else if c = ''..'' then
        (case kept of
           [] \<Rightarrow> if rooted then [] else [''..'']
         | x # t \<Rightarrow> if x = ''..'' then ''..'' # kept else t)
      else c # kept)"

definition isAbs :: "gostring \<Rightarrow> bool" where
  "isAbs p = (p \<noteq> [] \<and> hd p = CHR ''/'')"

definition kept_elems :: "gostring \<Rightarrow> gostring list" where
  "kept_elems p = rev (foldl (path_push (isAbs p)) [] (split_on (CHR ''/'') p))"

definition clean :: "gostring \<Rightarrow> gostring" where
  "clean p =
     (let body = join_slash (kept_elems p) in
      if isAbs p then CHR ''/'' # body else if body = [] then ''.'' else body)"

definition filepath_join :: "gostring \<Rightarrow> gostring \<Rightarrow> gostring" where
  "filepath_join a b =
     (if a \<noteq> [] then clean (a @ ''/'' @ b) else if b \<noteq> [] then clean b else [])"

text \<open>The working directory is an argument; \<^const>\<open>None\<close> where \<open>os.Getwd\<close> fails.\<close>

definition filepath_abs :: "gostring option \<Rightarrow> gostring \<Rightarrow> gostring option" where
  "filepath_abs wd p =
     (if isAbs p then Some (clean p) else map_option (\<lambda>d. filepath_join d p) wd)"

definition last_elem :: "gostring \<Rightarrow> gostring" where
  "last_elem p = (case last_index_of (CHR ''/'') p of None \<Rightarrow> p | Some i \<Rightarrow> drop (Suc i) p)"

definition ext :: "gostring \<Rightarrow> gostring" where
  "ext p =
     (let b = last_elem p in case last_index_of (CHR ''.'') b of None \<Rightarrow> [] | Some i \<Rightarrow> drop i b)"

definition dir :: "gostring \<Rightarrow> gostring" where
  "dir p = clean (case last_index_of (CHR ''/'') p of None \<Rightarrow> [] | Some i \<Rightarrow> take (Suc i) p)"

section \<open>Cleaned paths\<close>

lemma split_on_parts: "x \<in> set (split_on c s) \<Longrightarrow> c \<notin> set x"
proof (induction s arbitrary: x)
  case (Cons a s)
  then show ?case by (cases "split_on c s") (auto split: if_splits)
qed simp

lemma split_on_append_sep: "c \<notin> set x \<Longrightarrow> split_on c (x @ c # s) = x # split_on c s"
  by (induction x) auto

lemma split_on_plain: "c \<notin> set x \<Longrightarrow> split_on c x = [x]"
  by (induction x) auto

lemma split_on_join_slash:
  "xs \<noteq> [] \<Longrightarrow> \<forall>x\<in>set xs. CHR ''/'' \<notin> set x \<Longrightarrow> split_on (CHR ''/'') (join_slash xs) = xs"
  by (induction xs rule: join_slash.induct) (simp_all add: split_on_plain split_on_append_sep)

definition plain_elem :: "gostring \<Rightarrow> bool" where
  "plain_elem x = (x \<noteq> [] \<and> x \<noteq> ''.'' \<and> x \<noteq> ''..'' \<and> CHR ''/'' \<notin> set x)"

text \<open>Kept elements, last one first: plain ones above climbing ones, and no climbing from the root.\<close>

fun kept_ok :: "bool \<Rightarrow> gostring list \<Rightarrow> bool" where
  "kept_ok rooted [] = True"
| "kept_ok rooted (x # xs) =
     (if x = ''..'' then \<not> rooted \<and> list_all (\<lambda>y. y = ''..'') xs else plain_elem x \<and> kept_ok rooted xs)"

lemma kept_ok_climbing: "list_all (\<lambda>y. y = ''..'') xs \<Longrightarrow> kept_ok False xs"
  by (induction xs) auto

lemma path_push_ok: "kept_ok rooted xs \<Longrightarrow> CHR ''/'' \<notin> set c \<Longrightarrow> kept_ok rooted (path_push rooted xs c)"
  by (cases xs) (auto simp: path_push_def plain_elem_def split: if_splits dest: kept_ok_climbing)

lemma path_pushes_ok:
  "kept_ok rooted xs \<Longrightarrow> \<forall>c\<in>set cs. CHR ''/'' \<notin> set c \<Longrightarrow> kept_ok rooted (foldl (path_push rooted) xs cs)"
  by (induction cs arbitrary: xs) (simp_all add: path_push_ok)

lemma path_pushes_rebuild: "kept_ok rooted xs \<Longrightarrow> foldl (path_push rooted) [] (rev xs) = xs"
proof (induction xs)
  case (Cons x xs)
  then have "kept_ok rooted xs" by (auto split: if_splits dest: kept_ok_climbing)
  with Cons have "foldl (path_push rooted) [] (rev (x # xs)) = path_push rooted xs x" by simp
  also have "\<dots> = x # xs"
    using Cons.prems by (cases xs) (auto simp: path_push_def plain_elem_def split: if_splits)
  finally show ?case .
qed simp

lemma kept_elems_ok: "kept_ok (isAbs p) (rev (kept_elems p))"
  unfolding kept_elems_def rev_rev_ident by (rule path_pushes_ok) (auto dest: split_on_parts)

lemma kept_ok_elem:
  "kept_ok rooted xs \<Longrightarrow> x \<in> set xs \<Longrightarrow> x \<noteq> [] \<and> CHR ''/'' \<notin> set x"
proof (induction xs)
  case (Cons y xs)
  show ?case
  proof (cases "y = ''..''")
    case True
    with Cons.prems have "x = ''..''" by (fastforce simp: list_all_iff)
    then show ?thesis by simp
  next
    case False
    with Cons.prems have "plain_elem y" "kept_ok rooted xs" by simp_all
    with Cons show ?thesis by (auto simp: plain_elem_def)
  qed
qed simp

lemma kept_elems_elem: "x \<in> set (kept_elems p) \<Longrightarrow> x \<noteq> [] \<and> CHR ''/'' \<notin> set x"
  using kept_ok_elem [OF kept_elems_ok [of p]] by simp

lemma join_slash_head:
  assumes "xs \<noteq> []" and "hd xs \<noteq> []"
  shows "join_slash xs \<noteq> [] \<and> hd (join_slash xs) = hd (hd xs)"
proof -
  from assms obtain c t ys where xs: "xs = (c # t) # ys"
    by (cases xs; cases "hd xs") simp_all
  show ?thesis unfolding xs by (cases ys) simp_all
qed

lemma isAbs_clean [simp]: "isAbs (clean p) = isAbs p"
proof (cases "isAbs p \<or> kept_elems p = []")
  case True
  then show ?thesis
    by (cases "isAbs p") (simp_all add: clean_def, simp add: isAbs_def, simp add: isAbs_def)
next
  case False
  then have ne: "kept_elems p \<noteq> []" by simp
  then have "hd (kept_elems p) \<noteq> [] \<and> CHR ''/'' \<notin> set (hd (kept_elems p))"
    by (intro kept_elems_elem [of _ p]) simp
  with ne have "join_slash (kept_elems p) \<noteq> []" "hd (join_slash (kept_elems p)) \<noteq> CHR ''/''"
    using join_slash_head [OF ne] by (auto dest: hd_in_set)
  with False show ?thesis by (simp add: clean_def Let_def) (simp add: isAbs_def)
qed

lemma kept_elems_clean [simp]: "kept_elems (clean p) = kept_elems p"
proof -
  let ?xs = "kept_elems p"
  have parts: "\<forall>x\<in>set ?xs. CHR ''/'' \<notin> set x" by (auto dest: kept_elems_elem)
  have rebuild: "foldl (path_push (isAbs p)) [] ?xs = rev ?xs"
    using path_pushes_rebuild [OF kept_elems_ok [of p]] by simp
  have skip: "path_push r ks [] = ks" "path_push r ks ''.'' = ks" for r ks
    by (simp_all add: path_push_def)
  show ?thesis
  proof (cases "?xs = []")
    case True
    then have "split_on (CHR ''/'') (clean p) = (if isAbs p then [[], []] else [''.''])"
      by (simp add: clean_def)
    then show ?thesis using True by (simp add: kept_elems_def [of "clean p"] skip)
  next
    case False
    then have "join_slash ?xs \<noteq> []" using join_slash_head [OF False] by (auto dest: kept_elems_elem hd_in_set)
    then have "split_on (CHR ''/'') (clean p) = (if isAbs p then [] # ?xs else ?xs)"
      using split_on_join_slash [OF False parts] by (simp add: clean_def)
    then show ?thesis
      using rebuild by (cases "isAbs p") (simp_all add: kept_elems_def [of "clean p"] skip)
  qed
qed

lemma clean_idem [simp]: "clean (clean p) = clean p"
  by (simp add: clean_def [of "clean p"]) (simp add: clean_def)

lemma isAbs_join: "isAbs a \<Longrightarrow> isAbs (filepath_join a b)"
  by (cases a) (simp_all add: filepath_join_def, simp_all add: isAbs_def)

lemma clean_join: "clean (filepath_join a b) = filepath_join a b" if "a \<noteq> [] \<or> b \<noteq> []"
  using that by (auto simp: filepath_join_def)

section \<open>The last element\<close>

lemma split_on_append: "split_on c (x @ c # y) = split_on c x @ split_on c y"
proof (induction x)
  case (Cons a x)
  then show ?case by (cases "split_on c x") auto
qed simp

lemma join_slash_snoc: "join_slash (xs @ [b]) = (if xs = [] then b else join_slash xs @ ''/'' @ b)"
  by (induction xs rule: join_slash.induct) simp_all

lemma kept_elems_file:
  assumes "plain_elem b" and "a \<noteq> []"
  shows "kept_elems (a @ CHR ''/'' # b) = kept_elems a @ [b]"
  using assms
  by (simp add: kept_elems_def split_on_append split_on_plain plain_elem_def path_push_def isAbs_def)

lemma last_elem_file:
  assumes "plain_elem b"
  shows "last_elem b = b" "last_elem (x @ CHR ''/'' # b) = b"
  using assms by (simp_all add: last_elem_def plain_elem_def last_index_of_append flip: last_index_of_None)

lemma last_elem_clean_file:
  assumes "plain_elem b" and "a \<noteq> []"
  shows "last_elem (clean (a @ CHR ''/'' # b)) = b"
proof -
  have "clean (a @ CHR ''/'' # b) = b \<or> (\<exists>x. clean (a @ CHR ''/'' # b) = x @ CHR ''/'' # b)"
    using assms
    by (auto simp: clean_def kept_elems_file join_slash_snoc plain_elem_def Let_def
        intro: exI [of _ "[]"] exI [of _ "CHR ''/'' # _"])
  then show ?thesis using last_elem_file [OF assms(1)] by auto
qed

lemma isAbs_take: "isAbs p \<Longrightarrow> isAbs (take (Suc i) p)"
  by (cases p) (simp_all add: isAbs_def)

lemma isAbs_dir: "isAbs p \<Longrightarrow> isAbs (dir p)"
  using last_index_of_None [of "CHR ''/''" p]
  by (cases "last_index_of (CHR ''/'') p") (auto simp: dir_def isAbs_take, auto simp: isAbs_def dest: hd_in_set)

end
