(* ===== verification/Config.thy ===== *)
theory Config
  imports GoPath
begin

text \<open>
  config/config.go: the configuration with its defaults, the path of its file, loading,
  validation and the default file. The YAML library (\<open>unmarshal\<close>, \<open>marshal\<close>) and \<open>url.Parse\<close>
  are arguments; the operating system's answers are fields of a file system state.
\<close>

section \<open>The configuration\<close>

record server_config =
  Host :: gostring
  Port :: gostring
  AllowedOrigins :: "gostring list"
  TrustProxyHeaders :: bool

record xray_config =
  ApiAddr :: gostring
  BalancerTag :: gostring

record auth_config =
  Username :: gostring
  Password :: gostring

record log_config =
  LogType :: gostring
  FilePath :: gostring
  Journal :: gostring
  MaxBytes :: int

record config =
  cfg_server :: server_config
  cfg_xray :: xray_config
  cfg_auth :: auth_config
  cfg_log :: log_config

definition newDefaultConfig :: config where
  "newDefaultConfig =
     \<lparr>cfg_server = \<lparr>Host = ''0.0.0.0'', Port = ''9098'', AllowedOrigins = [], TrustProxyHeaders = False\<rparr>,
      cfg_xray = \<lparr>ApiAddr = ''localhost:10085'', BalancerTag = ''balancer''\<rparr>,
      cfg_auth = \<lparr>Username = [], Password = []\<rparr>,
      cfg_log = \<lparr>LogType = ''none'', FilePath = [], Journal = [], MaxBytes = 10 * 1024 * 1024\<rparr>\<rparr>"

section \<open>Validation\<close>

datatype config_error =
    InvalidPort gostring
  | PortOutOfRange int
  | EmptyApiAddr
  | EmptyBalancerTag
  | BadApiAddr addr_error
  | EmptyApiHost
  | EmptyApiPort
  | BadApiPort gostring
  | BadOrigin gostring
  | BadMaxBytes int
  | NoLogFile
  | NoJournal
  | BadJournalChar rune
  | BadLogType gostring

definition journal_char :: "rune \<Rightarrow> bool" where
  "journal_char c =
     (97 \<le> c \<and> c \<le> 122 \<or> 65 \<le> c \<and> c \<le> 90 \<or> 48 \<le> c \<and> c \<le> 57 \<or> c = 45 \<or> c = 95 \<or> c = 46)"

definition port_ok :: "gostring \<Rightarrow> bool" where
  "port_ok s = (case atoi s of None \<Rightarrow> False | Some p \<Rightarrow> 1 \<le> p \<and> p \<le> 65535)"

definition validate_addr :: "xray_config \<Rightarrow> config_error option" where
  "validate_addr x =
     (case splitHostPort (ApiAddr x) of
        Inl e \<Rightarrow> Some (BadApiAddr e)
      | Inr (host, port) \<Rightarrow>
          if host = [] then Some EmptyApiHost
          else if port = [] then Some EmptyApiPort
          else if \<not> port_ok port then Some (BadApiPort port)
          else None)"

definition origin_ok :: "(gostring \<Rightarrow> (gostring \<times> gostring) option) \<Rightarrow> gostring \<Rightarrow> bool" where
  "origin_ok url_parse origin =
     (case url_parse origin of
        None \<Rightarrow> False
      | Some (scheme, host) \<Rightarrow> host \<noteq> [] \<and> (scheme = ''http'' \<or> scheme = ''https''))"

definition validate_log :: "log_config \<Rightarrow> config_error option" where
  "validate_log l =
     (if MaxBytes l \<le> 0 then Some (BadMaxBytes (MaxBytes l))
      else if LogType l = ''none'' \<or> LogType l = [] then None
      else if LogType l = ''file'' then (if FilePath l = [] then Some NoLogFile else None)
      else if LogType l = ''journal'' then
        (if Journal l = [] then Some NoJournal
         else map_option BadJournalChar (find (\<lambda>c. \<not> journal_char c) (runes (Journal l))))
      else Some (BadLogType (LogType l)))"

definition validateConfig ::
  "(gostring \<Rightarrow> (gostring \<times> gostring) option) \<Rightarrow> config \<Rightarrow> config_error option" where
  "validateConfig url_parse c =
     (case atoi (Port (cfg_server c)) of
        None \<Rightarrow> Some (InvalidPort (Port (cfg_server c)))
      | Some port \<Rightarrow>
          if port < 1 \<or> 65535 < port then Some (PortOutOfRange port)
          else if ApiAddr (cfg_xray c) = [] then Some EmptyApiAddr
          else if BalancerTag (cfg_xray c) = [] then Some EmptyBalancerTag
          else (case validate_addr (cfg_xray c) of
                  Some e \<Rightarrow> Some e
                | None \<Rightarrow>
                    (case find (\<lambda>og. \<not> origin_ok url_parse og) (AllowedOrigins (cfg_server c)) of
                       Some og \<Rightarrow> Some (BadOrigin og)
                     | None \<Rightarrow> validate_log (cfg_log c))))"

section \<open>The configuration file\<close>

text \<open>
  The file system as far as the configuration sees it: the contents of the files, and the
  paths on which the operating system refuses to read, to make a directory or to write.
\<close>

record file_system =
  fs_files :: "(gostring, gostring) gomap"
  fs_noread :: "gostring \<Rightarrow> bool"
  fs_nomkdir :: "gostring \<Rightarrow> bool"
  fs_nowrite :: "gostring \<Rightarrow> bool"

datatype read_result = ReadData gostring | NotExist | ReadError

definition readFile :: "file_system \<Rightarrow> gostring \<Rightarrow> read_result" where
  "readFile fs p =
     (if fs_noread fs p then ReadError
      else (case map_of (fs_files fs) p of None \<Rightarrow> NotExist | Some d \<Rightarrow> ReadData d))"

definition default_header :: gostring where
  "default_header = utf8_lit
     [35, 32, 88, 114, 97, 121, 32, 87, 101, 98, 32, 77, 97, 110, 97, 103, 101, 114, 32, 233,
      133, 141, 231, 189, 174, 230, 150, 135, 228, 187, 182, 10, 10]"

definition saveDefaultConfig ::
  "(config \<Rightarrow> gostring option) \<Rightarrow> gostring \<Rightarrow> file_system \<Rightarrow> bool \<times> file_system" where
  "saveDefaultConfig marshal filename fs =
     (case marshal newDefaultConfig of
        None \<Rightarrow> (False, fs)
      | Some d \<Rightarrow>
          if fs_nomkdir fs (dir filename) then (False, fs)
          else if fs_nowrite fs filename then (False, fs)
          else (True, fs\<lparr>fs_files := AList.update filename (default_header @ d) (fs_files fs)\<rparr>))"

definition applyDefault :: "gostring \<Rightarrow> gostring \<Rightarrow> gostring" where
  "applyDefault field default_val = (if field = [] then default_val else field)"

definition apply_defaults :: "config \<Rightarrow> config \<Rightarrow> config" where
  "apply_defaults d c =
     c\<lparr>cfg_server := (cfg_server c)
         \<lparr>Host := applyDefault (Host (cfg_server c)) (Host (cfg_server d)),
          Port := applyDefault (Port (cfg_server c)) (Port (cfg_server d))\<rparr>,
       cfg_xray := (cfg_xray c)
         \<lparr>ApiAddr := applyDefault (ApiAddr (cfg_xray c)) (ApiAddr (cfg_xray d)),
          BalancerTag := applyDefault (BalancerTag (cfg_xray c)) (BalancerTag (cfg_xray d))\<rparr>,
       cfg_log := (cfg_log c)\<lparr>LogType := applyDefault (LogType (cfg_log c)) (LogType (cfg_log d))\<rparr>\<rparr>"

datatype load_error = CannotRead | CannotParse | Invalid config_error

text \<open>\<open>LoadConfig\<close> returns a configuration in every case, with an error or without.\<close>

definition loadConfig ::
  "(gostring \<Rightarrow> config \<Rightarrow> config option) \<Rightarrow> (config \<Rightarrow> gostring option) \<Rightarrow>
   (gostring \<Rightarrow> (gostring \<times> gostring) option) \<Rightarrow> gostring \<Rightarrow> file_system \<Rightarrow>
   (config \<times> load_error option) \<times> file_system" where
  "loadConfig unmarshal marshal url_parse filename fs =
     (case readFile fs filename of
        NotExist \<Rightarrow> ((newDefaultConfig, None), snd (saveDefaultConfig marshal filename fs))
      | ReadError \<Rightarrow> ((newDefaultConfig, Some CannotRead), fs)
      | ReadData d \<Rightarrow>
          (case unmarshal d newDefaultConfig of
             None \<Rightarrow> ((newDefaultConfig, Some CannotParse), fs)
           | Some c \<Rightarrow>
               (let c1 = apply_defaults newDefaultConfig c in
                case validateConfig url_parse c1 of
                  Some e \<Rightarrow> ((newDefaultConfig, Some (Invalid e)), fs)
                | None \<Rightarrow> ((c1, None), fs))))"

datatype path_error = CannotResolve | BadExtension gostring | NoExecutable

definition getConfigPath ::
  "gostring option \<Rightarrow> gostring option \<Rightarrow> gostring \<Rightarrow> path_error + gostring" where
  "getConfigPath wd executable configPath =
     (if configPath \<noteq> [] then
        (let cleaned = clean configPath in
         case (if isAbs cleaned then Some cleaned else filepath_abs wd cleaned) of
           None \<Rightarrow> Inl CannotResolve
         | Some p \<Rightarrow>
             if ext p \<noteq> ''.yaml'' \<and> ext p \<noteq> ''.yml'' then Inl (BadExtension (ext p)) else Inr p)
      else
        (case executable of
           None \<Rightarrow> Inl NoExecutable
         | Some e \<Rightarrow> Inr (filepath_join (dir e) ''config.yaml'')))"

section \<open>What a valid configuration is\<close>

definition config_ok :: "(gostring \<Rightarrow> (gostring \<times> gostring) option) \<Rightarrow> config \<Rightarrow> bool" where
  "config_ok url_parse c \<longleftrightarrow>
     (\<exists>p. atoi (Port (cfg_server c)) = Some p \<and> 1 \<le> p \<and> p \<le> 65535) \<and>
     BalancerTag (cfg_xray c) \<noteq> [] \<and>
     (\<exists>host port p. splitHostPort (ApiAddr (cfg_xray c)) = Inr (host, port) \<and> host \<noteq> [] \<and>
        atoi port = Some p \<and> 1 \<le> p \<and> p \<le> 65535) \<and>
     (\<forall>og\<in>set (AllowedOrigins (cfg_server c)).
        \<exists>scheme host. url_parse og = Some (scheme, host) \<and> host \<noteq> [] \<and> scheme \<in> {''http'', ''https''}) \<and>
     0 < MaxBytes (cfg_log c) \<and>
     (LogType (cfg_log c) \<in> {[], ''none''} \<or>
      LogType (cfg_log c) = ''file'' \<and> FilePath (cfg_log c) \<noteq> [] \<or>
      LogType (cfg_log c) = ''journal'' \<and> Journal (cfg_log c) \<noteq> [] \<and>
        (\<forall>ch\<in>set (Journal (cfg_log c)). journal_char (byte_of ch)))"

lemma port_ok_iff: "port_ok s \<longleftrightarrow> (\<exists>p. atoi s = Some p \<and> 1 \<le> p \<and> p \<le> 65535)"
  by (simp add: port_ok_def split: option.split)

lemma find_none_iff: "find (\<lambda>x. \<not> P x) xs = None \<longleftrightarrow> list_all P xs"
  by (induction xs) simp_all

lemma validate_addr_iff:
  "validate_addr x = None \<longleftrightarrow>
     (\<exists>host port. splitHostPort (ApiAddr x) = Inr (host, port) \<and> host \<noteq> [] \<and> port_ok port)"
  by (auto simp: validate_addr_def port_ok_def atoi_def split: sum.splits if_splits)

lemma validate_log_iff:
  "validate_log l = None \<longleftrightarrow>
     0 < MaxBytes l \<and>
     (LogType l \<in> {[], ''none''} \<or> LogType l = ''file'' \<and> FilePath l \<noteq> [] \<or>
      LogType l = ''journal'' \<and> Journal l \<noteq> [] \<and> (\<forall>ch\<in>set (Journal l). journal_char (byte_of ch)))"
proof -
  have "list_all journal_char (runes (Journal l)) = list_all (\<lambda>c. journal_char (byte_of c)) (Journal l)"
    by (rule list_all_runes_ascii) (auto simp: journal_char_def)
  then show ?thesis
    by (auto simp: validate_log_def find_none_iff list_all_iff)
qed

lemma origin_ok_iff:
  "origin_ok url_parse og \<longleftrightarrow>
     (\<exists>scheme host. url_parse og = Some (scheme, host) \<and> host \<noteq> [] \<and> scheme \<in> {''http'', ''https''})"
  by (auto simp: origin_ok_def split: option.split)

lemma validate_config_iff: "validateConfig url_parse c = None \<longleftrightarrow> config_ok url_parse c"
proof -
  have addr: "ApiAddr (cfg_xray c) \<noteq> []" if "splitHostPort (ApiAddr (cfg_xray c)) = Inr (host, port)" for host port
    using that by (auto simp: splitHostPort_def)
  have "validateConfig url_parse c = None \<longleftrightarrow>
      port_ok (Port (cfg_server c)) \<and> ApiAddr (cfg_xray c) \<noteq> [] \<and> BalancerTag (cfg_xray c) \<noteq> [] \<and>
      validate_addr (cfg_xray c) = None \<and> list_all (origin_ok url_parse) (AllowedOrigins (cfg_server c)) \<and>
      validate_log (cfg_log c) = None"
    unfolding find_none_iff [symmetric]
    by (auto simp: validateConfig_def port_ok_def split: option.splits)
  also have "\<dots> \<longleftrightarrow> config_ok url_parse c"
    unfolding config_ok_def validate_addr_iff validate_log_iff list_all_iff origin_ok_iff port_ok_iff
    using addr by blast
  finally show ?thesis .
qed

text \<open>
  C24. The validation accepts exactly the usable configurations: a listening port and an API
  address (nonempty host) with ports from 1 to 65535, a balancer tag, http(s) origins with a
  host, a positive log limit, and a log source that is off, a file with a path, or a journal
  unit made of ASCII letters, digits, hyphen, underscore and dot only, whatever bytes the YAML
  file held.
\<close>

theorem validate_config_exact: "validateConfig url_parse c = None \<longleftrightarrow> config_ok url_parse c"
  by (rule validate_config_iff)

text \<open>The defaults are valid and loading never returns anything else than a valid configuration.\<close>

lemma default_config_ok: "config_ok url_parse newDefaultConfig"
  by (simp add: config_ok_def newDefaultConfig_def atoi_def is_digit_def digits_value_def int64_ok_def
      splitHostPort_def)

text \<open>
  Whatever the file system and the YAML library answer, the configuration that \<open>LoadConfig\<close>
  returns is a valid one, and with an error it is the default one.
\<close>

theorem load_config_always_valid:
  "config_ok url_parse (fst (fst (loadConfig unmarshal marshal url_parse filename fs))) \<and>
   (snd (fst (loadConfig unmarshal marshal url_parse filename fs)) = None \<or>
    fst (fst (loadConfig unmarshal marshal url_parse filename fs)) = newDefaultConfig)"
proof -
  have "validateConfig url_parse newDefaultConfig = None"
    using default_config_ok validate_config_iff by blast
  then show ?thesis
    by (simp add: loadConfig_def Let_def validate_config_iff [symmetric] split: read_result.split option.split)
qed

lemma saved_default:
  assumes "fst (saveDefaultConfig marshal filename fs)"
  shows "\<exists>d. marshal newDefaultConfig = Some d \<and>
    snd (saveDefaultConfig marshal filename fs) =
      fs\<lparr>fs_files := AList.update filename (default_header @ d) (fs_files fs)\<rparr>"
  using assms by (auto simp: saveDefaultConfig_def split: option.splits if_splits)

lemma defaults_of_default [simp]: "apply_defaults newDefaultConfig newDefaultConfig = newDefaultConfig"
  by (simp add: apply_defaults_def applyDefault_def)


definition empty_fs :: file_system where
  "empty_fs = \<lparr>fs_files = [], fs_noread = (\<lambda>_. False), fs_nomkdir = (\<lambda>_. False), fs_nowrite = (\<lambda>_. False)\<rparr>"


text \<open>
  \<open>GetConfigPath\<close> resolves to an absolute, cleaned path of a .yaml or .yml file, whatever
  dots, slashes and climbing elements the flag or the executable's path has.
\<close>

theorem config_path_absolute_yaml:
  assumes "getConfigPath wd executable configPath = Inr p"
    and wd: "\<And>d. wd = Some d \<Longrightarrow> isAbs d" and exe: "\<And>e. executable = Some e \<Longrightarrow> isAbs e"
  shows "isAbs p \<and> clean p = p \<and> (ext p = ''.yaml'' \<or> ext p = ''.yml'')"
proof (cases "configPath = []")
  case False
  have "isAbs p \<and> clean p = p"
  proof (cases "isAbs configPath")
    case True
    with False assms(1) show ?thesis by (auto simp: getConfigPath_def Let_def split: if_splits)
  next
    case rel: False
    with False assms(1) obtain d where d: "wd = Some d" "p = filepath_join d (clean configPath)"
      by (auto simp: getConfigPath_def filepath_abs_def Let_def split: if_splits option.splits)
    have "isAbs d" by (rule wd [OF d(1)])
    then show ?thesis using d(2) by (auto simp: isAbs_join intro!: clean_join) (auto simp: isAbs_def)
  qed
  moreover have "ext p = ''.yaml'' \<or> ext p = ''.yml''"
    using assms(1) False by (auto simp: getConfigPath_def Let_def split: if_splits option.splits)
  ultimately show ?thesis by blast
next
  case True
  with assms(1) obtain e where e: "executable = Some e" "p = filepath_join (dir e) ''config.yaml''"
    by (auto simp: getConfigPath_def split: option.splits)
  have abs_e: "isAbs e" by (rule exe [OF e(1)])
  then have abs: "isAbs (dir e)" by (rule isAbs_dir)
  then have ne: "dir e \<noteq> []" by (auto simp: isAbs_def)
  have "last_elem p = ''config.yaml''"
    using last_elem_clean_file [OF _ ne, of "''config.yaml''"] e(2) ne
    by (simp add: filepath_join_def plain_elem_def)
  then have "ext p = ''.yaml''" by (simp add: ext_def)
  with abs e(2) show ?thesis by (auto simp: isAbs_join intro!: clean_join)
qed

theorem config_path_absolute_yaml_witness:
  "isAbs ''/srv/app/my.yml'' \<and> clean ''/srv/app/my.yml'' = ''/srv/app/my.yml'' \<and>
   (ext ''/srv/app/my.yml'' = ''.yaml'' \<or> ext ''/srv/app/my.yml'' = ''.yml'')"
proof (rule config_path_absolute_yaml)
  show "getConfigPath (Some ''/srv/app'') (Some ''/bin/x'') ''./sub//../my.yml'' = Inr ''/srv/app/my.yml''"
    by code_simp
qed (auto simp: isAbs_def)

end
