(* ===== verification/SseManager.thy ===== *)
theory SseManager
  imports GoBase
begin

text \<open>
  The connection manager of sse/manager.go. A connection is a number, given out in order; its
  context is cancelled by \<open>Close\<close> (\<open>cancelled\<close>). Each method runs under the manager's lock, so
  a history of the manager is a list of calls.
\<close>

type_synonym conn = nat

definition defaultMaxConns :: nat where
  "defaultMaxConns = 256"

record manager =
  connections :: "conn list"
  mgr_shutdown :: bool
  maxConns :: nat
  next_conn :: conn
  cancelled :: "conn list"

definition newManager :: manager where
  "newManager =
     \<lparr>connections = [], mgr_shutdown = False, maxConns = defaultMaxConns, next_conn = 0, cancelled = []\<rparr>"

definition conn_close :: "conn \<Rightarrow> manager \<Rightarrow> manager" where
  "conn_close c m = m\<lparr>cancelled := List.insert c (cancelled m)\<rparr>"

definition mgr_add :: "manager \<Rightarrow> conn option \<times> manager" where
  "mgr_add m =
     (if mgr_shutdown m then (None, m)
      else if maxConns m \<le> length (connections m) then (None, m)
      else (Some (next_conn m),
            m\<lparr>connections := connections m @ [next_conn m], next_conn := Suc (next_conn m)\<rparr>))"

definition mgr_remove :: "conn option \<Rightarrow> manager \<Rightarrow> manager" where
  "mgr_remove c m =
     (case c of None \<Rightarrow> m | Some i \<Rightarrow> m\<lparr>connections := removeAll i (connections m)\<rparr>)"

definition mgr_closeAll :: "manager \<Rightarrow> manager" where
  "mgr_closeAll m =
     (fold conn_close (connections m) (m\<lparr>mgr_shutdown := True\<rparr>))\<lparr>connections := []\<rparr>"

definition mgr_count :: "manager \<Rightarrow> nat" where
  "mgr_count m = length (connections m)"

datatype mgr_event = MAdd | MRemove "conn option" | MClose conn | MCloseAll

fun mgr_step :: "mgr_event \<Rightarrow> manager \<Rightarrow> manager" where
  "mgr_step MAdd m = snd (mgr_add m)"
| "mgr_step (MRemove c) m = mgr_remove c m"
| "mgr_step (MClose c) m = conn_close c m"
| "mgr_step MCloseAll m = mgr_closeAll m"

section \<open>The manager as a capped machine\<close>

lemma fold_conn_close [simp]:
  "connections (fold conn_close cs m) = connections m"
  "mgr_shutdown (fold conn_close cs m) = mgr_shutdown m"
  "maxConns (fold conn_close cs m) = maxConns m"
  "next_conn (fold conn_close cs m) = next_conn m"
  "set (cancelled (fold conn_close cs m)) = set cs \<union> set (cancelled m)"
  by (induction cs arbitrary: m) (auto simp: conn_close_def)

lemma conn_close_sel [simp]:
  "connections (conn_close c m) = connections m"
  "mgr_shutdown (conn_close c m) = mgr_shutdown m"
  "maxConns (conn_close c m) = maxConns m"
  "next_conn (conn_close c m) = next_conn m"
  "set (cancelled (conn_close c m)) = insert c (set (cancelled m))"
  by (auto simp: conn_close_def)

text \<open>Connections are given out once, and a manager that was shut down holds none.\<close>

definition mgr_inv :: "manager \<Rightarrow> bool" where
  "mgr_inv m =
     (distinct (connections m) \<and> list_all (\<lambda>c. c < next_conn m) (connections m) \<and>
      (mgr_shutdown m \<longrightarrow> connections m = []))"

lemma mgr_step_inv: "mgr_inv m \<Longrightarrow> mgr_inv (mgr_step e m)"
  by (cases e)
    (auto simp: mgr_inv_def mgr_add_def mgr_remove_def mgr_closeAll_def list_all_iff less_Suc_eq distinct_removeAll
      split: option.split)

lemma mgr_step_capacity: "maxConns (mgr_step e m) = maxConns m"
  by (cases e) (auto simp: mgr_add_def mgr_remove_def mgr_closeAll_def split: option.split)

lemma mgr_step_count: "mgr_count m \<le> maxConns m \<Longrightarrow> mgr_count (mgr_step e m) \<le> maxConns m"
  by (cases e)
    (auto simp: mgr_count_def mgr_add_def mgr_remove_def mgr_closeAll_def split: option.split
      intro: le_trans [OF length_removeAll_less_eq])

interpretation sse_mgr: capped_machine mgr_step "\<lambda>_. True" mgr_inv mgr_count maxConns
  by unfold_locales (simp_all add: mgr_step_inv mgr_step_capacity mgr_step_count)

text \<open>Shutting down is final.\<close>

lemma mgr_step_shutdown: "mgr_shutdown m \<Longrightarrow> mgr_shutdown (mgr_step e m)"
  by (cases e) (auto simp: mgr_add_def mgr_remove_def mgr_closeAll_def split: option.split)

lemma mgr_run_shutdown: "mgr_shutdown m \<Longrightarrow> mgr_shutdown (fold mgr_step es m)"
  by (induction es arbitrary: m) (simp_all add: mgr_step_shutdown)

lemma mgr_step_cancelled: "set (cancelled m) \<subseteq> set (cancelled (mgr_step e m))"
  by (cases e) (auto simp: mgr_add_def mgr_remove_def mgr_closeAll_def split: option.split)

lemma mgr_run_cancelled: "set (cancelled m) \<subseteq> set (cancelled (fold mgr_step es m))"
proof (induction es arbitrary: m)
  case (Cons e es)
  then show ?case using mgr_step_cancelled [of m e] by (force simp del: mgr_step.simps)
qed simp

lemma mgr_inv_new: "mgr_inv newManager"
  by (simp add: mgr_inv_def newManager_def)

section \<open>Properties\<close>

text \<open>
  However clients come and go, at most 256 connections are open, each admitted connection
  is a new one, and the count goes up by one.
\<close>

theorem sse_connections_bounded:
  assumes "m = fold mgr_step es newManager"
  shows "mgr_count m \<le> defaultMaxConns \<and>
    (case mgr_add m of
       (Some c, m') \<Rightarrow> c \<notin> set (connections m) \<and> mgr_count m' = Suc (mgr_count m) \<and>
         mgr_count m' \<le> defaultMaxConns
     | (None, m') \<Rightarrow> m' = m \<and> (mgr_shutdown m \<or> mgr_count m = defaultMaxConns))"
proof -
  have cap: "maxConns m = defaultMaxConns"
    using sse_mgr.capacity_run [of es newManager] assms by (simp add: newManager_def)
  have le: "mgr_count m \<le> defaultMaxConns"
    using sse_mgr.entries_run [of newManager es] mgr_inv_new assms
    by (simp add: newManager_def mgr_count_def list_all_iff)
  have "mgr_inv m" using sse_mgr.inv_run [of newManager es] mgr_inv_new assms by (simp add: list_all_iff)
  with cap le show ?thesis
    by (auto simp: mgr_add_def mgr_count_def mgr_inv_def list_all_iff split: if_splits)
qed

theorem sse_connections_bounded_witness:
  "let m = fold mgr_step [MAdd, MAdd, MRemove (Some 0)] newManager in
   mgr_count m \<le> defaultMaxConns \<and>
    (case mgr_add m of
       (Some c, m') \<Rightarrow> c \<notin> set (connections m) \<and> mgr_count m' = Suc (mgr_count m) \<and>
         mgr_count m' \<le> defaultMaxConns
     | (None, m') \<Rightarrow> m' = m \<and> (mgr_shutdown m \<or> mgr_count m = defaultMaxConns))"
  unfolding Let_def by (rule sse_connections_bounded) (rule refl)

text \<open>
  Shutdown reaches every client: \<open>CloseAll\<close> cancels every connection that was admitted and
  not removed, and from then on, whatever is called, nobody is admitted and the count is 0.
\<close>

theorem sse_shutdown_complete:
  assumes m: "m = fold mgr_step es newManager" and after: "m' = fold mgr_step later (mgr_closeAll m)"
  shows "set (connections m) \<subseteq> set (cancelled m') \<and> fst (mgr_add m') = None \<and> mgr_count m' = 0"
proof -
  have "mgr_inv m" using sse_mgr.inv_run [of newManager es] mgr_inv_new m by (simp add: list_all_iff)
  then have "mgr_inv (mgr_closeAll m)" using mgr_step_inv [of m MCloseAll] by simp
  then have inv: "mgr_inv m'" using sse_mgr.inv_run after by (simp add: list_all_iff)
  have "mgr_shutdown (mgr_closeAll m)" by (simp add: mgr_closeAll_def)
  then have down: "mgr_shutdown m'" using mgr_run_shutdown after by simp
  have "set (connections m) \<subseteq> set (cancelled (mgr_closeAll m))" by (simp add: mgr_closeAll_def)
  then have "set (connections m) \<subseteq> set (cancelled m')"
    using mgr_run_cancelled [of "mgr_closeAll m" later] after by blast
  with inv down show ?thesis by (simp add: mgr_inv_def mgr_count_def mgr_add_def)
qed

theorem sse_shutdown_complete_witness:
  "let m = fold mgr_step [MAdd, MAdd] newManager; m' = fold mgr_step [MAdd, MRemove None] (mgr_closeAll m) in
   set (connections m) \<subseteq> set (cancelled m') \<and> fst (mgr_add m') = None \<and> mgr_count m' = 0"
  unfolding Let_def by (rule sse_shutdown_complete) (rule refl)+

end
