(* ===== verification/Broadcaster.thy ===== *)
theory Broadcaster
  imports GoBase
begin

text \<open>
  The broadcaster of sse/broadcaster.go. The first half is the body of the polling loop: one tick
  as a function of the loop's local variables, the result of \<open>fetchFn\<close> and the callbacks. The
  second half is the concurrent object: subscribers, their waits, the idle timer, \<open>Stop\<close> and the
  loop goroutines, interleaved at every lock and channel operation.

  Channels, loops and timers are numbers given out in order. A loop owns the stop channel and the
  done channel of its number. Payloads are a type variable; \<open>'j\<close> is what \<open>json.Marshal\<close> makes of
  one.
\<close>

section \<open>One tick of the loop\<close>

datatype 'a fetch = Fetched 'a | FetchError

datatype 'a emit = Quiet | EmitDegraded 'a | EmitBroadcast 'a | LoopPanic

text \<open>
  \<open>FetchError\<close> is an error or a panic of \<open>fetchFn\<close>. A callback that panics returns \<^const>\<open>None\<close>:
  \<open>enrichFn\<close> takes the loop down with it, \<open>degradedFn\<close> is recovered.
\<close>

record ('a, 'j) bc_fns =
  marshal :: "'a \<Rightarrow> 'j option"
  enrichFn :: "('a \<Rightarrow> 'a \<Rightarrow> time \<Rightarrow> time \<Rightarrow> 'a option) option"
  zero_payload :: 'a

record ('a, 'j) loop_vars =
  lastSnapshot :: 'a
  lastAt :: time
  prevJSON :: "'j option"
  consecutiveErrors :: nat

definition init_vars :: "('a, 'j) bc_fns \<Rightarrow> ('a, 'j) loop_vars" where
  "init_vars fns = \<lparr>lastSnapshot = zero_payload fns, lastAt = 0, prevJSON = None, consecutiveErrors = 0\<rparr>"

definition maxConsecutiveErrors :: nat where
  "maxConsecutiveErrors = 3"

definition enrich_and_send ::
  "('a, 'j) bc_fns \<Rightarrow> time \<Rightarrow> 'a \<Rightarrow> ('a, 'j) loop_vars \<Rightarrow> ('a, 'j) loop_vars \<times> 'a emit" where
  "enrich_and_send fns tickAt data v =
     (case (case enrichFn fns of
              None \<Rightarrow> Some data
            | Some f \<Rightarrow> f data (lastSnapshot v) tickAt (lastAt v)) of
        None \<Rightarrow> (v, LoopPanic)
      | Some b \<Rightarrow> (v\<lparr>lastSnapshot := data, lastAt := tickAt\<rparr>, EmitBroadcast b))"

definition loop_tick ::
  "('a, 'j) bc_fns \<Rightarrow> time \<Rightarrow> 'a fetch \<Rightarrow> 'a option \<Rightarrow> ('a, 'j) loop_vars \<Rightarrow> ('a, 'j) loop_vars \<times> 'a emit" where
  "loop_tick fns tickAt result degraded v =
     (case result of
        FetchError \<Rightarrow>
          (let n = Suc (consecutiveErrors v) in
           (v\<lparr>consecutiveErrors := n\<rparr>,
            if n = maxConsecutiveErrors
            then (case degraded of None \<Rightarrow> Quiet | Some d \<Rightarrow> EmitDegraded d) else Quiet))
      | Fetched data \<Rightarrow>
          (let v1 = v\<lparr>consecutiveErrors := 0\<rparr> in
           case marshal fns data of
             None \<Rightarrow> enrich_and_send fns tickAt data (v1\<lparr>prevJSON := None\<rparr>)
           | Some j \<Rightarrow>
               if prevJSON v1 = Some j then (v1, Quiet)
               else enrich_and_send fns tickAt data (v1\<lparr>prevJSON := Some j\<rparr>)))"

text \<open>A run of the loop over its ticks, until a panic takes it down.\<close>

type_synonym 'a tick = "time \<times> 'a fetch \<times> 'a option"

fun run_ticks :: "('a, 'j) bc_fns \<Rightarrow> 'a tick list \<Rightarrow> ('a, 'j) loop_vars \<Rightarrow> 'a emit list" where
  "run_ticks fns [] v = []"
| "run_ticks fns ((at, r, d) # ts) v =
     (case loop_tick fns at r d v of
        (v1, LoopPanic) \<Rightarrow> [LoopPanic]
      | (v1, e) \<Rightarrow> e # run_ticks fns ts v1)"

section \<open>The concurrent object\<close>

type_synonym chan_id = nat
type_synonym loop_id = nat
type_synonym timer_id = nat

text \<open>Where a loop goroutine is: at its \<open>select\<close>, before the snapshot, or inside the fan-out.\<close>

datatype 'a loop_phase = AtSelect | BeforeSnapshot bool 'a | Sending bool 'a "chan_id list"

text \<open>The flag tells a broadcast (drops are counted) from a degraded event.\<close>

record ('a, 'j) loop_goroutine =
  lp_vars :: "('a, 'j) loop_vars"
  lp_phase :: "'a loop_phase"

datatype stop_phase = NotStopped | Draining "loop_id option" | StopDone

record ('a, 'j) bcast =
  subscribers :: "chan_id list"
  stop_ch :: "loop_id option"
  loop_done :: "loop_id option"
  loopGen :: nat
  stopped :: bool
  idleTimer :: "timer_id option"
  timers_set :: "timer_id list"
  timers_fired :: "timer_id list"
  stop_closed :: "loop_id list"
  loops :: "(loop_id, ('a, 'j) loop_goroutine) gomap"
  finished :: "loop_id list"
  waiters :: "(chan_id \<times> nat \<times> loop_id) list"
  stopPhase :: stop_phase
  buffers :: "chan_id \<Rightarrow> 'a list"
  chan_closed :: "chan_id list"
  unsubscribed :: "chan_id list"
  next_chan :: chan_id
  next_loop :: loop_id
  next_timer :: timer_id
  lastBroadcast :: "'a option"
  droppedMsgs :: nat
  double_close :: bool
  sent_on_closed :: bool

definition newBroadcaster :: "('a, 'j) bcast" where
  "newBroadcaster =
     \<lparr>subscribers = [], stop_ch = None, loop_done = None, loopGen = 0, stopped = False,
      idleTimer = None, timers_set = [], timers_fired = [], stop_closed = [], loops = [],
      finished = [], waiters = [], stopPhase = NotStopped, buffers = (\<lambda>_. []), chan_closed = [],
      unsubscribed = [], next_chan = 0, next_loop = 0, next_timer = 0, lastBroadcast = None,
      droppedMsgs = 0, double_close = False, sent_on_closed = False\<rparr>"

text \<open>Closing a closed channel is a panic; it is recorded and changes nothing else.\<close>

definition close_chan :: "chan_id \<Rightarrow> ('a, 'j) bcast \<Rightarrow> ('a, 'j) bcast" where
  "close_chan c b =
     (if c \<in> set (chan_closed b) then b\<lparr>double_close := True\<rparr>
      else b\<lparr>chan_closed := c # chan_closed b\<rparr>)"

definition close_stop_ch :: "('a, 'j) bcast \<Rightarrow> ('a, 'j) bcast" where
  "close_stop_ch b =
     (case stop_ch b of
        None \<Rightarrow> b
      | Some i \<Rightarrow> b\<lparr>stop_closed := i # stop_closed b, stop_ch := None\<rparr>)"

definition LastBroadcast :: "('a, 'j) bcast \<Rightarrow> 'a option" where
  "LastBroadcast b = lastBroadcast b"

text \<open>What \<open>snapshotSubscribers\<close> may return: the subscribers, in any order of the map.\<close>

definition snapshotSubscribers :: "('a, 'j) bcast \<Rightarrow> chan_id list \<Rightarrow> bool" where
  "snapshotSubscribers b cs = (distinct cs \<and> set cs = set (subscribers b))"

declare LastBroadcast_def [simp] snapshotSubscribers_def [simp]

text \<open>\<open>idleTimer.Stop()\<close> prevents a callback only if the timer has not fired yet.\<close>

definition cancel_idle :: "('a, 'j) bcast \<Rightarrow> ('a, 'j) bcast" where
  "cancel_idle b =
     (case idleTimer b of
        None \<Rightarrow> b
      | Some t \<Rightarrow> b\<lparr>timers_set := removeAll t (timers_set b), idleTimer := None\<rparr>)"

definition start_loop :: "('a, 'j) bc_fns \<Rightarrow> ('a, 'j) bcast \<Rightarrow> ('a, 'j) bcast" where
  "start_loop fns b =
     b\<lparr>stop_ch := Some (next_loop b), loop_done := Some (next_loop b),
       loops := AList.update (next_loop b) \<lparr>lp_vars = init_vars fns, lp_phase = AtSelect\<rparr> (loops b),
       next_loop := Suc (next_loop b)\<rparr>"

definition subscribe :: "('a, 'j) bc_fns \<Rightarrow> ('a, 'j) bcast \<Rightarrow> ('a, 'j) bcast" where
  "subscribe fns b0 =
     (let ch = next_chan b0; b = b0\<lparr>next_chan := Suc (next_chan b0)\<rparr> in
      if stopped b then close_chan ch b
      else
       (let b1 = cancel_idle b;
            wasEmpty = (subscribers b1 = [] \<and> stop_ch b1 = None);
            b2 = b1\<lparr>subscribers := subscribers b1 @ [ch]\<rparr> in
        if \<not> wasEmpty then b2
        else (case loop_done b2 of
                Some d \<Rightarrow> b2\<lparr>waiters := (ch, loopGen b2, d) # waiters b2\<rparr>
              | None \<Rightarrow> start_loop fns b2)))"

text \<open>The rest of \<open>Subscribe\<close> once the previous loop is done.\<close>

definition resume_subscribe ::
  "('a, 'j) bc_fns \<Rightarrow> chan_id \<times> nat \<times> loop_id \<Rightarrow> ('a, 'j) bcast \<Rightarrow> ('a, 'j) bcast option" where
  "resume_subscribe fns w b0 =
     (case w of (ch, gen, d) \<Rightarrow>
        if w \<notin> set (waiters b0) \<or> d \<notin> set (finished b0) then None
        else
         (let b = b0\<lparr>waiters := remove1 w (waiters b0)\<rparr> in
          if gen \<noteq> loopGen b then
            (if \<not> stopped b then Some b
             else Some (close_chan ch (b\<lparr>subscribers := removeAll ch (subscribers b)\<rparr>)))
          else Some (start_loop fns b)))"

definition unsubscribe :: "chan_id \<Rightarrow> ('a, 'j) bcast \<Rightarrow> ('a, 'j) bcast" where
  "unsubscribe ch b =
     (let b1 = b\<lparr>subscribers := removeAll ch (subscribers b), unsubscribed := ch # unsubscribed b\<rparr> in
      if subscribers b1 = [] \<and> stop_ch b1 \<noteq> None \<and> idleTimer b1 = None
      then b1\<lparr>idleTimer := Some (next_timer b1), timers_set := next_timer b1 # timers_set b1,
              next_timer := Suc (next_timer b1)\<rparr>
      else b1)"

definition idle_callback :: "('a, 'j) bcast \<Rightarrow> ('a, 'j) bcast" where
  "idle_callback b =
     (if stopped b then b\<lparr>idleTimer := None\<rparr>
      else (if subscribers b = [] then close_stop_ch b else b)\<lparr>idleTimer := None\<rparr>)"

definition stop_begin :: "('a, 'j) bcast \<Rightarrow> ('a, 'j) bcast" where
  "stop_begin b =
     (let b1 = close_stop_ch (cancel_idle (b\<lparr>stopped := True, loopGen := Suc (loopGen b)\<rparr>)) in
      b1\<lparr>stopPhase := Draining (loop_done b1)\<rparr>)"

definition stop_finish :: "('a, 'j) bcast \<Rightarrow> ('a, 'j) bcast" where
  "stop_finish b = (fold close_chan (subscribers b) b)\<lparr>subscribers := [], stopPhase := StopDone\<rparr>"

definition loop_end :: "loop_id \<Rightarrow> ('a, 'j) bcast \<Rightarrow> ('a, 'j) bcast" where
  "loop_end i b = b\<lparr>loops := AList.delete i (loops b), finished := i # finished b\<rparr>"

definition put_loop :: "loop_id \<Rightarrow> ('a, 'j) loop_goroutine \<Rightarrow> ('a, 'j) bcast \<Rightarrow> ('a, 'j) bcast" where
  "put_loop i l b = b\<lparr>loops := AList.update i l (loops b)\<rparr>"

definition tick_step ::
  "('a, 'j) bc_fns \<Rightarrow> loop_id \<Rightarrow> 'a tick \<Rightarrow> ('a, 'j) loop_goroutine \<Rightarrow> ('a, 'j) bcast \<Rightarrow> ('a, 'j) bcast" where
  "tick_step fns i t l b =
     (case t of (at, r, d) \<Rightarrow>
        case loop_tick fns at r d (lp_vars l) of
          (v, Quiet) \<Rightarrow> put_loop i (l\<lparr>lp_vars := v\<rparr>) b
        | (v, EmitDegraded p) \<Rightarrow> put_loop i \<lparr>lp_vars = v, lp_phase = BeforeSnapshot False p\<rparr> b
        | (v, EmitBroadcast p) \<Rightarrow>
            put_loop i \<lparr>lp_vars = v, lp_phase = BeforeSnapshot True p\<rparr> (b\<lparr>lastBroadcast := Some p\<rparr>)
        | (v, LoopPanic) \<Rightarrow> loop_end i b)"

text \<open>A non-blocking send into a channel of capacity 5.\<close>

definition send_step ::
  "loop_id \<Rightarrow> bool \<Rightarrow> 'a \<Rightarrow> chan_id \<Rightarrow> chan_id list \<Rightarrow> ('a, 'j) loop_goroutine \<Rightarrow> ('a, 'j) bcast \<Rightarrow> ('a, 'j) bcast" where
  "send_step i counted p c cs l b =
     (if c \<in> set (chan_closed b) then loop_end i (b\<lparr>sent_on_closed := True\<rparr>)
      else
       (let b1 = (if length (buffers b c) < 5 then b\<lparr>buffers := (buffers b)(c := buffers b c @ [p])\<rparr>
                  else if counted then b\<lparr>droppedMsgs := Suc (droppedMsgs b)\<rparr> else b) in
        put_loop i (l\<lparr>lp_phase := Sending counted p cs\<rparr>) b1))"

definition send_done :: "loop_id \<Rightarrow> bool \<Rightarrow> ('a, 'j) loop_goroutine \<Rightarrow> ('a, 'j) bcast \<Rightarrow> ('a, 'j) bcast" where
  "send_done i counted l b =
     put_loop i (l\<lparr>lp_phase := AtSelect\<rparr>) (if counted then b\<lparr>droppedMsgs := 0\<rparr> else b)"

datatype 'a bc_event =
    ESubscribe
  | EResume "chan_id \<times> nat \<times> loop_id"
  | EUnsubscribe chan_id
  | ETimerFire timer_id
  | ETimerRun timer_id
  | EStop
  | EStopFinish
  | ELoopExit loop_id
  | ETick loop_id "'a tick"
  | ESnapshot loop_id "chan_id list"
  | ESend loop_id
  | EReceive chan_id

text \<open>
  A channel can be unsubscribed once \<open>Subscribe\<close> has returned it. A snapshot lists the
  subscribers in any order. A loop can see its stop channel closed only at its \<open>select\<close>, where a
  tick may win all the same.
\<close>

fun bc_step :: "('a, 'j) bc_fns \<Rightarrow> 'a bc_event \<Rightarrow> ('a, 'j) bcast \<Rightarrow> ('a, 'j) bcast option" where
  "bc_step fns ESubscribe b = Some (subscribe fns b)"
| "bc_step fns (EResume w) b = resume_subscribe fns w b"
| "bc_step fns (EUnsubscribe ch) b =
     (if ch < next_chan b \<and> ch \<notin> fst ` set (waiters b) then Some (unsubscribe ch b) else None)"
| "bc_step fns (ETimerFire t) b =
     (if t \<in> set (timers_set b)
      then Some (b\<lparr>timers_set := removeAll t (timers_set b), timers_fired := t # timers_fired b\<rparr>)
      else None)"
| "bc_step fns (ETimerRun t) b =
     (if t \<in> set (timers_fired b)
      then Some (idle_callback (b\<lparr>timers_fired := removeAll t (timers_fired b)\<rparr>)) else None)"
| "bc_step fns EStop b = (if stopPhase b = NotStopped then Some (stop_begin b) else None)"
| "bc_step fns EStopFinish b =
     (case stopPhase b of
        Draining None \<Rightarrow> Some (stop_finish b)
      | Draining (Some d) \<Rightarrow> if d \<in> set (finished b) then Some (stop_finish b) else None
      | _ \<Rightarrow> None)"
| "bc_step fns (ELoopExit i) b =
     (case map_of (loops b) i of
        Some l \<Rightarrow> if lp_phase l = AtSelect \<and> i \<in> set (stop_closed b) then Some (loop_end i b) else None
      | None \<Rightarrow> None)"
| "bc_step fns (ETick i t) b =
     (case map_of (loops b) i of
        Some l \<Rightarrow> if lp_phase l = AtSelect then Some (tick_step fns i t l b) else None
      | None \<Rightarrow> None)"
| "bc_step fns (ESnapshot i cs) b =
     (case map_of (loops b) i of
        Some l \<Rightarrow>
          (case lp_phase l of
             BeforeSnapshot counted p \<Rightarrow>
               if snapshotSubscribers b cs
               then Some (put_loop i (l\<lparr>lp_phase := Sending counted p cs\<rparr>) b) else None
           | _ \<Rightarrow> None)
      | None \<Rightarrow> None)"
| "bc_step fns (ESend i) b =
     (case map_of (loops b) i of
        Some l \<Rightarrow>
          (case lp_phase l of
             Sending counted p (c # cs) \<Rightarrow> Some (send_step i counted p c cs l b)
           | Sending counted p [] \<Rightarrow> Some (send_done i counted l b)
           | _ \<Rightarrow> None)
      | None \<Rightarrow> None)"
| "bc_step fns (EReceive c) b =
     (case buffers b c of
        [] \<Rightarrow> None
      | _ # ps \<Rightarrow> Some (b\<lparr>buffers := (buffers b)(c := ps)\<rparr>))"

abbreviation bc_run :: "('a, 'j) bc_fns \<Rightarrow> 'a bc_event list \<Rightarrow> ('a, 'j) bcast \<Rightarrow> ('a, 'j) bcast option" where
  "bc_run fns \<equiv> run_events (bc_step fns)"

end
