(* ===== verification/BroadcasterProps.thy ===== *)
theory BroadcasterProps
  imports Broadcaster "HOL-Library.Sublist"
begin

text \<open>
  What the broadcaster guarantees: which ticks are broadcast, when the degraded event is pushed,
  and, over every interleaving of the concurrent object, that one loop polls at a time, that no
  payload is sent to a closed channel, that subscribers are served and that \<open>Stop\<close> closes
  every channel.
\<close>

section \<open>The state after each operation\<close>

definition live :: "('a, 'j) bcast \<Rightarrow> loop_id set" where
  "live b = set (gm_keys (loops b))"

definition send_list :: "('a, 'j) loop_goroutine \<Rightarrow> chan_id list" where
  "send_list l = (case lp_phase l of Sending _ _ cs \<Rightarrow> cs | _ \<Rightarrow> [])"

definition sending :: "('a, 'j) bcast \<Rightarrow> chan_id set" where
  "sending b = {c. \<exists>i l. map_of (loops b) i = Some l \<and> c \<in> set (send_list l)}"

lemma live_lookup: "i \<in> live b \<longleftrightarrow> (\<exists>l. map_of (loops b) i = Some l)"
  by (auto simp: live_def intro: gm_lookup_key dest: gm_key_lookup)

lemma sending_dead: "live b = {} \<Longrightarrow> sending b = {}"
  using live_lookup [of _ b] by (auto simp: sending_def)

text \<open>The loops: one polls at most, and it is the one \<open>loopDone\<close> belongs to.\<close>

definition inv_loops :: "('a, 'j) bcast \<Rightarrow> bool" where
  "inv_loops b \<longleftrightarrow>
     gm_wf (loops b) \<and>
     (\<forall>i\<in>live b. loop_done b = Some i \<and> i \<notin> set (finished b)) \<and>
     (\<forall>d. loop_done b = Some d \<longrightarrow> d < next_loop b \<and> (d \<in> set (finished b) \<or> d \<in> live b)) \<and>
     (\<forall>i\<in>set (finished b) \<union> set (stop_closed b). i < next_loop b) \<and>
     (\<forall>i. stop_ch b = Some i \<longrightarrow> loop_done b = Some i \<and> i \<notin> set (stop_closed b))"

text \<open>Stopping: its phases, and the generation counter, which nothing else changes.\<close>

definition inv_stop :: "('a, 'j) bcast \<Rightarrow> bool" where
  "inv_stop b \<longleftrightarrow>
     (stopped b \<longleftrightarrow> stopPhase b \<noteq> NotStopped) \<and>
     (stopped b \<longrightarrow> stop_ch b = None) \<and>
     loopGen b = (if stopped b then 1 else 0) \<and>
     (\<forall>d. stopPhase b = Draining d \<longrightarrow> loop_done b = d) \<and>
     (stopPhase b = StopDone \<longrightarrow> live b = {} \<and> subscribers b = [])"

text \<open>The waits: one \<open>Subscribe\<close> waits at most, for the last loop, and its channel is subscribed.\<close>

definition inv_wait :: "('a, 'j) bcast \<Rightarrow> bool" where
  "inv_wait b \<longleftrightarrow>
     length (waiters b) \<le> 1 \<and>
     (\<forall>(ch, gen, d)\<in>set (waiters b). gen = 0 \<and> loop_done b = Some d \<and> ch < next_chan b \<and>
        (\<not> stopped b \<longrightarrow> ch \<in> set (subscribers b) \<and> stop_ch b = None)) \<and>
     (\<not> stopped b \<and> subscribers b \<noteq> [] \<longrightarrow> stop_ch b \<noteq> None \<or> waiters b \<noteq> [])"

text \<open>The channels: what is subscribed or being sent to is open; every other one is closed or given back.\<close>

definition inv_chan :: "('a, 'j) bcast \<Rightarrow> bool" where
  "inv_chan b \<longleftrightarrow>
     distinct (subscribers b) \<and>
     (\<forall>c\<in>set (subscribers b) \<union> sending b. c < next_chan b \<and> c \<notin> set (chan_closed b)) \<and>
     (\<forall>c\<in>set (chan_closed b). c < next_chan b) \<and>
     (\<forall>c<next_chan b. c \<in> set (subscribers b) \<union> set (chan_closed b) \<union> set (unsubscribed b)) \<and>
     \<not> sent_on_closed b"

definition inv_buf :: "('a, 'j) bcast \<Rightarrow> bool" where
  "inv_buf b \<longleftrightarrow> (\<forall>c. length (buffers b c) \<le> 5)"

definition bc_inv :: "('a, 'j) bcast \<Rightarrow> bool" where
  "bc_inv b \<longleftrightarrow> inv_loops b \<and> inv_stop b \<and> inv_wait b \<and> inv_chan b \<and> inv_buf b"

lemmas inv_defs = inv_loops_def inv_stop_def inv_wait_def inv_chan_def inv_buf_def

section \<open>Selectors\<close>

lemma close_chan_sel [simp]:
  "subscribers (close_chan c b) = subscribers b" "stop_ch (close_chan c b) = stop_ch b"
  "loop_done (close_chan c b) = loop_done b" "loopGen (close_chan c b) = loopGen b"
  "stopped (close_chan c b) = stopped b" "stop_closed (close_chan c b) = stop_closed b"
  "loops (close_chan c b) = loops b" "finished (close_chan c b) = finished b"
  "waiters (close_chan c b) = waiters b" "stopPhase (close_chan c b) = stopPhase b"
  "buffers (close_chan c b) = buffers b" "unsubscribed (close_chan c b) = unsubscribed b"
  "next_chan (close_chan c b) = next_chan b" "next_loop (close_chan c b) = next_loop b"
  "sent_on_closed (close_chan c b) = sent_on_closed b" "idleTimer (close_chan c b) = idleTimer b"
  "set (chan_closed (close_chan c b)) = insert c (set (chan_closed b))"
  by (auto simp: close_chan_def)

lemma fold_close_chan_sel [simp]:
  "subscribers (fold close_chan cs b) = subscribers b" "stop_ch (fold close_chan cs b) = stop_ch b"
  "loop_done (fold close_chan cs b) = loop_done b" "loopGen (fold close_chan cs b) = loopGen b"
  "stopped (fold close_chan cs b) = stopped b" "stop_closed (fold close_chan cs b) = stop_closed b"
  "loops (fold close_chan cs b) = loops b" "finished (fold close_chan cs b) = finished b"
  "waiters (fold close_chan cs b) = waiters b" "stopPhase (fold close_chan cs b) = stopPhase b"
  "buffers (fold close_chan cs b) = buffers b" "unsubscribed (fold close_chan cs b) = unsubscribed b"
  "next_chan (fold close_chan cs b) = next_chan b" "next_loop (fold close_chan cs b) = next_loop b"
  "sent_on_closed (fold close_chan cs b) = sent_on_closed b" "idleTimer (fold close_chan cs b) = idleTimer b"
  "set (chan_closed (fold close_chan cs b)) = set cs \<union> set (chan_closed b)"
  by (induction cs arbitrary: b) auto

lemma cancel_idle_sel [simp]:
  "subscribers (cancel_idle b) = subscribers b" "stop_ch (cancel_idle b) = stop_ch b"
  "loop_done (cancel_idle b) = loop_done b" "loopGen (cancel_idle b) = loopGen b"
  "stopped (cancel_idle b) = stopped b" "stop_closed (cancel_idle b) = stop_closed b"
  "loops (cancel_idle b) = loops b" "finished (cancel_idle b) = finished b"
  "waiters (cancel_idle b) = waiters b" "stopPhase (cancel_idle b) = stopPhase b"
  "buffers (cancel_idle b) = buffers b" "unsubscribed (cancel_idle b) = unsubscribed b"
  "next_chan (cancel_idle b) = next_chan b" "next_loop (cancel_idle b) = next_loop b"
  "sent_on_closed (cancel_idle b) = sent_on_closed b" "chan_closed (cancel_idle b) = chan_closed b"
  by (auto simp: cancel_idle_def split: option.split)

lemma close_stop_ch_sel [simp]:
  "subscribers (close_stop_ch b) = subscribers b" "stop_ch (close_stop_ch b) = None"
  "loop_done (close_stop_ch b) = loop_done b" "loopGen (close_stop_ch b) = loopGen b"
  "stopped (close_stop_ch b) = stopped b" "idleTimer (close_stop_ch b) = idleTimer b"
  "loops (close_stop_ch b) = loops b" "finished (close_stop_ch b) = finished b"
  "waiters (close_stop_ch b) = waiters b" "stopPhase (close_stop_ch b) = stopPhase b"
  "buffers (close_stop_ch b) = buffers b" "unsubscribed (close_stop_ch b) = unsubscribed b"
  "next_chan (close_stop_ch b) = next_chan b" "next_loop (close_stop_ch b) = next_loop b"
  "sent_on_closed (close_stop_ch b) = sent_on_closed b" "chan_closed (close_stop_ch b) = chan_closed b"
  "set (stop_closed (close_stop_ch b)) = set_option (stop_ch b) \<union> set (stop_closed b)"
  by (auto simp: close_stop_ch_def split: option.split)

lemma live_cong [simp]:
  "live (close_chan c b) = live b" "live (fold close_chan cs b) = live b"
  "live (cancel_idle b) = live b" "live (close_stop_ch b) = live b"
  by (simp_all add: live_def)

lemma sending_cong [simp]:
  "sending (close_chan c b) = sending b" "sending (fold close_chan cs b) = sending b"
  "sending (cancel_idle b) = sending b" "sending (close_stop_ch b) = sending b"
  by (simp_all add: sending_def)

lemma put_loop_sel [simp]:
  "subscribers (put_loop i l b) = subscribers b" "stop_ch (put_loop i l b) = stop_ch b"
  "loop_done (put_loop i l b) = loop_done b" "loopGen (put_loop i l b) = loopGen b"
  "stopped (put_loop i l b) = stopped b" "stop_closed (put_loop i l b) = stop_closed b"
  "finished (put_loop i l b) = finished b" "waiters (put_loop i l b) = waiters b"
  "stopPhase (put_loop i l b) = stopPhase b" "buffers (put_loop i l b) = buffers b"
  "unsubscribed (put_loop i l b) = unsubscribed b" "next_chan (put_loop i l b) = next_chan b"
  "next_loop (put_loop i l b) = next_loop b" "sent_on_closed (put_loop i l b) = sent_on_closed b"
  "chan_closed (put_loop i l b) = chan_closed b" "gm_wf (loops b) \<Longrightarrow> gm_wf (loops (put_loop i l b))"
  "live (put_loop i l b) = insert i (live b)"
  by (auto simp: put_loop_def live_lookup split: if_splits)

lemma sending_put_loop: "sending (put_loop i l b) \<subseteq> sending b \<union> set (send_list l)"
  by (auto simp: sending_def put_loop_def split: if_splits)

lemma sending_elem: "map_of (loops b) i = Some l \<Longrightarrow> set (send_list l) \<subseteq> sending b"
  by (auto simp: sending_def)

lemma loop_end_sel [simp]:
  "subscribers (loop_end i b) = subscribers b" "stop_ch (loop_end i b) = stop_ch b"
  "loop_done (loop_end i b) = loop_done b" "loopGen (loop_end i b) = loopGen b"
  "stopped (loop_end i b) = stopped b" "stop_closed (loop_end i b) = stop_closed b"
  "set (finished (loop_end i b)) = insert i (set (finished b))" "waiters (loop_end i b) = waiters b"
  "stopPhase (loop_end i b) = stopPhase b" "buffers (loop_end i b) = buffers b"
  "unsubscribed (loop_end i b) = unsubscribed b" "next_chan (loop_end i b) = next_chan b"
  "next_loop (loop_end i b) = next_loop b" "sent_on_closed (loop_end i b) = sent_on_closed b"
  "chan_closed (loop_end i b) = chan_closed b" "gm_wf (loops b) \<Longrightarrow> gm_wf (loops (loop_end i b))"
  "live (loop_end i b) = live b - {i}"
  by (auto simp: loop_end_def live_lookup split: if_splits)

lemma sending_loop_end: "sending (loop_end i b) \<subseteq> sending b"
  by (auto simp: sending_def loop_end_def split: if_splits)

lemma start_loop_sel [simp]:
  "subscribers (start_loop fns b) = subscribers b" "stop_ch (start_loop fns b) = Some (next_loop b)"
  "loop_done (start_loop fns b) = Some (next_loop b)" "loopGen (start_loop fns b) = loopGen b"
  "stopped (start_loop fns b) = stopped b" "stop_closed (start_loop fns b) = stop_closed b"
  "finished (start_loop fns b) = finished b" "waiters (start_loop fns b) = waiters b"
  "stopPhase (start_loop fns b) = stopPhase b" "buffers (start_loop fns b) = buffers b"
  "unsubscribed (start_loop fns b) = unsubscribed b" "next_chan (start_loop fns b) = next_chan b"
  "next_loop (start_loop fns b) = Suc (next_loop b)" "sent_on_closed (start_loop fns b) = sent_on_closed b"
  "chan_closed (start_loop fns b) = chan_closed b" "gm_wf (loops b) \<Longrightarrow> gm_wf (loops (start_loop fns b))"
  "live (start_loop fns b) = insert (next_loop b) (live b)"
  by (auto simp: start_loop_def live_lookup split: if_splits)

lemma sending_start_loop: "sending (start_loop fns b) \<subseteq> sending b"
proof
  fix c
  assume "c \<in> sending (start_loop fns b)"
  then obtain i l where il: "map_of (loops (start_loop fns b)) i = Some l" "c \<in> set (send_list l)"
    by (auto simp: sending_def)
  then have "i \<noteq> next_loop b" by (auto simp: start_loop_def send_list_def)
  with il show "c \<in> sending b" by (auto simp: start_loop_def sending_def)
qed

lemma live_upd [simp]:
  "live (b\<lparr>subscribers := x1\<rparr>) = live b" "live (b\<lparr>stop_ch := x2\<rparr>) = live b"
  "live (b\<lparr>loopGen := x3\<rparr>) = live b" "live (b\<lparr>stopped := x4\<rparr>) = live b"
  "live (b\<lparr>idleTimer := x5\<rparr>) = live b" "live (b\<lparr>timers_set := x6\<rparr>) = live b"
  "live (b\<lparr>timers_fired := x7\<rparr>) = live b" "live (b\<lparr>stop_closed := x8\<rparr>) = live b"
  "live (b\<lparr>waiters := x9\<rparr>) = live b" "live (b\<lparr>stopPhase := y1\<rparr>) = live b"
  "live (b\<lparr>buffers := y2\<rparr>) = live b" "live (b\<lparr>unsubscribed := y3\<rparr>) = live b"
  "live (b\<lparr>next_chan := y4\<rparr>) = live b" "live (b\<lparr>next_timer := y5\<rparr>) = live b"
  "live (b\<lparr>lastBroadcast := y6\<rparr>) = live b" "live (b\<lparr>droppedMsgs := y7\<rparr>) = live b"
  "live (b\<lparr>sent_on_closed := y8\<rparr>) = live b"
  by (simp_all add: live_def)

lemma sending_upd [simp]:
  "sending (b\<lparr>subscribers := x1\<rparr>) = sending b" "sending (b\<lparr>stop_ch := x2\<rparr>) = sending b"
  "sending (b\<lparr>loopGen := x3\<rparr>) = sending b" "sending (b\<lparr>stopped := x4\<rparr>) = sending b"
  "sending (b\<lparr>idleTimer := x5\<rparr>) = sending b" "sending (b\<lparr>timers_set := x6\<rparr>) = sending b"
  "sending (b\<lparr>timers_fired := x7\<rparr>) = sending b" "sending (b\<lparr>stop_closed := x8\<rparr>) = sending b"
  "sending (b\<lparr>waiters := x9\<rparr>) = sending b" "sending (b\<lparr>stopPhase := y1\<rparr>) = sending b"
  "sending (b\<lparr>buffers := y2\<rparr>) = sending b" "sending (b\<lparr>unsubscribed := y3\<rparr>) = sending b"
  "sending (b\<lparr>next_chan := y4\<rparr>) = sending b" "sending (b\<lparr>next_timer := y5\<rparr>) = sending b"
  "sending (b\<lparr>lastBroadcast := y6\<rparr>) = sending b" "sending (b\<lparr>droppedMsgs := y7\<rparr>) = sending b"
  "sending (b\<lparr>sent_on_closed := y8\<rparr>) = sending b"
  by (simp_all add: sending_def)

section \<open>Every operation keeps the invariant\<close>

lemma inv_loops_cong:
  "loops b' = loops b \<Longrightarrow> loop_done b' = loop_done b \<Longrightarrow> set (finished b') = set (finished b) \<Longrightarrow>
   next_loop b' = next_loop b \<Longrightarrow> stop_ch b' = stop_ch b \<Longrightarrow> set (stop_closed b') = set (stop_closed b) \<Longrightarrow>
     inv_loops b' = inv_loops b"
  by (simp add: inv_loops_def live_def)

lemma inv_stop_cong:
  "loops b' = loops b \<Longrightarrow> loop_done b' = loop_done b \<Longrightarrow> stopped b' = stopped b \<Longrightarrow>
   stopPhase b' = stopPhase b \<Longrightarrow> stop_ch b' = stop_ch b \<Longrightarrow> loopGen b' = loopGen b \<Longrightarrow>
   (stopped b \<Longrightarrow> set (subscribers b') \<subseteq> set (subscribers b)) \<Longrightarrow> inv_stop b \<Longrightarrow> inv_stop b'"
  by (auto simp: inv_stop_def live_def)

lemma inv_buf_cong: "buffers b' = buffers b \<Longrightarrow> inv_buf b' = inv_buf b"
  by (simp add: inv_buf_def)

lemma bc_inv_intro:
  "inv_loops b \<Longrightarrow> inv_stop b \<Longrightarrow> inv_wait b \<Longrightarrow> inv_chan b \<Longrightarrow> inv_buf b \<Longrightarrow> bc_inv b"
  by (simp add: bc_inv_def)

lemma bc_inv_parts:
  assumes "bc_inv b"
  shows "inv_loops b" "inv_stop b" "inv_wait b" "inv_chan b" "inv_buf b"
  using assms by (simp_all add: bc_inv_def)

lemma inv_subscribe_closed: "bc_inv b \<Longrightarrow> stopped b \<Longrightarrow> bc_inv (subscribe fns b)"
  by (auto simp: bc_inv_def inv_defs subscribe_def Let_def less_Suc_eq)

lemma inv_subscribe_join:
  assumes inv: "bc_inv b" and run: "\<not> stopped b" and busy: "subscribers b \<noteq> [] \<or> stop_ch b \<noteq> None"
  shows "bc_inv (subscribe fns b)"
proof -
  note parts = bc_inv_parts [OF inv]
  let ?b = "(cancel_idle (b\<lparr>next_chan := Suc (next_chan b)\<rparr>))\<lparr>subscribers := subscribers b @ [next_chan b]\<rparr>"
  have b': "subscribe fns b = ?b" using run busy by (auto simp: subscribe_def Let_def)
  show ?thesis
    unfolding b'
  proof (rule bc_inv_intro)
    show "inv_loops ?b" using parts(1) by (simp add: inv_loops_cong [of ?b b])
    show "inv_stop ?b" using parts(2) run by (rule_tac inv_stop_cong [of ?b b]) simp_all
    show "inv_wait ?b" using parts(3) run busy by (auto simp: inv_wait_def)
    show "inv_chan ?b" using parts(4) by (auto simp: inv_chan_def less_Suc_eq)
    show "inv_buf ?b" using parts(5) by (simp add: inv_buf_cong [of ?b b])
  qed
qed

lemma inv_subscribe_wait:
  assumes inv: "bc_inv b" and run: "\<not> stopped b" and idle: "subscribers b = []" "stop_ch b = None"
    and prev: "loop_done b = Some d"
  shows "bc_inv (subscribe fns b)"
proof -
  note parts = bc_inv_parts [OF inv]
  have none: "waiters b = []" using parts(3) run idle by (cases "waiters b") (auto simp: inv_wait_def)
  have gen: "loopGen b = 0" using parts(2) run by (simp add: inv_stop_def)
  let ?b = "(cancel_idle (b\<lparr>next_chan := Suc (next_chan b)\<rparr>))\<lparr>subscribers := [next_chan b],
      waiters := [(next_chan b, 0, d)]\<rparr>"
  have b': "subscribe fns b = ?b" using run idle prev none gen by (auto simp: subscribe_def Let_def)
  show ?thesis
    unfolding b'
  proof (rule bc_inv_intro)
    show "inv_loops ?b" using parts(1) by (simp add: inv_loops_cong [of ?b b])
    show "inv_stop ?b" using parts(2) run by (rule_tac inv_stop_cong [of ?b b]) simp_all
    show "inv_wait ?b" using prev idle by (auto simp: inv_wait_def)
    show "inv_chan ?b" using parts(4) idle by (auto simp: inv_chan_def less_Suc_eq)
    show "inv_buf ?b" using parts(5) by (simp add: inv_buf_cong [of ?b b])
  qed
qed

text \<open>A new loop: allowed when no loop is alive.\<close>

lemma inv_loops_start: "inv_loops b \<Longrightarrow> live b = {} \<Longrightarrow> inv_loops (start_loop fns b)"
  by (auto simp: inv_loops_def less_Suc_eq)

lemma inv_chan_start: "inv_chan b \<Longrightarrow> inv_chan (start_loop fns b)"
  using sending_start_loop [of fns b] by (auto simp: inv_chan_def)

lemma inv_stop_start: "inv_stop b \<Longrightarrow> \<not> stopped b \<Longrightarrow> inv_stop (start_loop fns b)"
  by (auto simp: inv_stop_def)

lemma inv_subscribe_start:
  assumes inv: "bc_inv b" and run: "\<not> stopped b" and idle: "subscribers b = []" "stop_ch b = None"
    and prev: "loop_done b = None"
  shows "bc_inv (subscribe fns b)"
proof -
  note parts = bc_inv_parts [OF inv]
  have none: "waiters b = []" using parts(3) run idle by (cases "waiters b") (auto simp: inv_wait_def)
  have dead: "live b = {}" using parts(1) prev by (auto simp: inv_loops_def)
  let ?b = "(cancel_idle (b\<lparr>next_chan := Suc (next_chan b)\<rparr>))\<lparr>subscribers := [next_chan b]\<rparr>"
  have b': "subscribe fns b = start_loop fns ?b" using run idle prev by (auto simp: subscribe_def Let_def)
  have loops: "inv_loops ?b" using parts(1) by (simp add: inv_loops_cong [of ?b b])
  have stop: "inv_stop ?b" using parts(2) run by (rule_tac inv_stop_cong [of ?b b]) simp_all
  have chan: "inv_chan ?b" using parts(4) idle by (auto simp: inv_chan_def less_Suc_eq)
  show ?thesis
    unfolding b'
  proof (rule bc_inv_intro)
    show "inv_loops (start_loop fns ?b)" using loops dead by (intro inv_loops_start) simp_all
    show "inv_stop (start_loop fns ?b)" using stop run by (intro inv_stop_start) simp_all
    show "inv_wait (start_loop fns ?b)" using none by (simp add: inv_wait_def)
    show "inv_chan (start_loop fns ?b)" using chan by (rule inv_chan_start)
    show "inv_buf (start_loop fns ?b)" using parts(5) by (simp add: inv_buf_def)
  qed
qed

lemma inv_subscribe: "bc_inv b \<Longrightarrow> bc_inv (subscribe fns b)"
  using inv_subscribe_closed [of b fns] inv_subscribe_join [of b fns] inv_subscribe_wait [of b _ fns]
    inv_subscribe_start [of b fns]
  by (cases "stopped b"; cases "loop_done b") blast+

text \<open>Once the loop it waited for is done, no loop is alive.\<close>

lemma waiter_dead:
  assumes "bc_inv b" "(ch, gen, d) \<in> set (waiters b)" "d \<in> set (finished b)"
  shows "live b = {}" "gen = 0" "waiters b = [(ch, gen, d)]"
proof -
  from assms have w: "loop_done b = Some d" "gen = 0" "length (waiters b) \<le> 1"
    by (auto simp: bc_inv_def inv_wait_def)
  show "live b = {}" using w(1) assms by (auto simp: bc_inv_def inv_loops_def)
  show "gen = 0" by (rule w(2))
  show "waiters b = [(ch, gen, d)]" using w(3) assms(2) by (cases "waiters b") auto
qed

lemma inv_resume_closed:
  assumes inv: "bc_inv b" and w: "waiters b = [(ch, gen, d)]" and dead: "live b = {}" and stop: "stopped b"
  shows "bc_inv (close_chan ch (b\<lparr>waiters := [], subscribers := removeAll ch (subscribers b)\<rparr>))"
    (is "bc_inv ?b")
proof -
  note parts = bc_inv_parts [OF inv]
  have ch: "ch < next_chan b" using parts(3) w by (auto simp: inv_wait_def)
  show ?thesis
  proof (rule bc_inv_intro)
    show "inv_loops ?b" using parts(1) by (simp add: inv_loops_cong [of ?b b])
    show "inv_stop ?b" using parts(2) by (rule_tac inv_stop_cong [of ?b b]) auto
    show "inv_wait ?b" using stop by (simp add: inv_wait_def)
    show "inv_chan ?b" using parts(4) ch dead by (auto simp: inv_chan_def sending_dead distinct_removeAll)
    show "inv_buf ?b" using parts(5) by (simp add: inv_buf_cong [of ?b b])
  qed
qed

lemma inv_resume:
  assumes inv: "bc_inv b" and b': "resume_subscribe fns w b = Some b'"
  shows "bc_inv b'"
proof -
  note parts = bc_inv_parts [OF inv]
  obtain ch gen d where w: "w = (ch, gen, d)" by (cases w)
  with b' have mem: "(ch, gen, d) \<in> set (waiters b)" "d \<in> set (finished b)"
    by (auto simp: resume_subscribe_def split: if_splits)
  note dead = waiter_dead [OF inv mem]
  let ?b = "b\<lparr>waiters := []\<rparr>"
  show ?thesis
  proof (cases "stopped b")
    case True
    then have "b' = close_chan ch (?b\<lparr>subscribers := removeAll ch (subscribers b)\<rparr>)"
      using b' mem dead w parts(2) by (simp add: resume_subscribe_def Let_def inv_stop_def)
    then show ?thesis using inv_resume_closed [OF inv dead(3,1) True] by simp
  next
    case False
    then have b'_eq: "b' = start_loop fns ?b"
      using b' mem dead w parts(2) by (simp add: resume_subscribe_def Let_def inv_stop_def)
    have loops: "inv_loops ?b" using parts(1) by (simp add: inv_loops_cong [of ?b b])
    have stop: "inv_stop ?b" using parts(2) by (rule_tac inv_stop_cong [of ?b b]) auto
    have chan: "inv_chan ?b" using parts(4) by (simp add: inv_chan_def)
    show ?thesis
      unfolding b'_eq
    proof (rule bc_inv_intro)
      show "inv_loops (start_loop fns ?b)" using loops dead(1) by (intro inv_loops_start) simp_all
      show "inv_stop (start_loop fns ?b)" using stop False by (intro inv_stop_start) simp_all
      show "inv_wait (start_loop fns ?b)" by (simp add: inv_wait_def)
      show "inv_chan (start_loop fns ?b)" using chan by (rule inv_chan_start)
      show "inv_buf (start_loop fns ?b)" using parts(5) by (simp add: inv_buf_def)
    qed
  qed
qed

lemma inv_unsubscribe:
  assumes inv: "bc_inv b" and ch: "ch < next_chan b" "ch \<notin> fst ` set (waiters b)"
  shows "bc_inv (unsubscribe ch b)"
proof -
  note parts = bc_inv_parts [OF inv]
  let ?b = "b\<lparr>subscribers := removeAll ch (subscribers b), unsubscribed := ch # unsubscribed b\<rparr>"
  have "bc_inv ?b"
  proof (rule bc_inv_intro)
    show "inv_loops ?b" using parts(1) by (simp add: inv_loops_cong [of ?b b])
    show "inv_stop ?b" using parts(2) by (rule_tac inv_stop_cong [of ?b b]) auto
    show "inv_wait ?b" using parts(3) ch(2) by (force simp: inv_wait_def)
    show "inv_chan ?b" using parts(4) ch(1) by (auto simp: inv_chan_def distinct_removeAll)
    show "inv_buf ?b" using parts(5) by (simp add: inv_buf_cong [of ?b b])
  qed
  moreover have "bc_inv (a\<lparr>idleTimer := t, timers_set := ts, next_timer := n\<rparr>) = bc_inv a" for a :: "('a, 'b) bcast" and t ts n
    by (simp add: bc_inv_def inv_defs)
  ultimately show ?thesis by (auto simp: unsubscribe_def Let_def)
qed

lemma bc_inv_timers [simp]:
  "bc_inv (b\<lparr>timers_set := ts\<rparr>) = bc_inv b" "bc_inv (b\<lparr>timers_fired := fs\<rparr>) = bc_inv b"
  "bc_inv (b\<lparr>idleTimer := t\<rparr>) = bc_inv b" "bc_inv (b\<lparr>droppedMsgs := k\<rparr>) = bc_inv b"
  "bc_inv (b\<lparr>lastBroadcast := p\<rparr>) = bc_inv b"
  by (simp_all add: bc_inv_def inv_defs)

lemma inv_close_stop_ch:
  assumes inv: "bc_inv b" and idle: "subscribers b = []"
  shows "bc_inv (close_stop_ch b)"
proof -
  note parts = bc_inv_parts [OF inv]
  let ?b = "close_stop_ch b"
  show ?thesis
  proof (rule bc_inv_intro)
    show "inv_loops ?b" using parts(1) by (auto simp: inv_loops_def)
    show "inv_stop ?b" using parts(2) by (auto simp: inv_stop_def)
    show "inv_wait ?b" using parts(3) idle by (auto simp: inv_wait_def)
    show "inv_chan ?b" using parts(4) by (auto simp: inv_chan_def)
    show "inv_buf ?b" using parts(5) by (simp add: inv_buf_cong [of ?b b])
  qed
qed

lemma inv_idle_callback: "bc_inv b \<Longrightarrow> bc_inv (idle_callback b)"
  by (simp add: idle_callback_def inv_close_stop_ch)

lemma inv_stop_begin:
  assumes inv: "bc_inv b" and first: "stopPhase b = NotStopped"
  shows "bc_inv (stop_begin b)"
proof -
  note parts = bc_inv_parts [OF inv]
  let ?b = "stop_begin b"
  have run: "\<not> stopped b" "loopGen b = 0" using parts(2) first by (auto simp: inv_stop_def)
  show ?thesis
  proof (rule bc_inv_intro)
    show "inv_loops ?b" using parts(1) by (auto simp: inv_loops_def stop_begin_def Let_def)
    show "inv_stop ?b" using run by (auto simp: inv_stop_def stop_begin_def Let_def)
    show "inv_wait ?b" using parts(3) by (auto simp: inv_wait_def stop_begin_def Let_def)
    show "inv_chan ?b" using parts(4) by (auto simp: inv_chan_def stop_begin_def Let_def)
    show "inv_buf ?b" using parts(5) by (simp add: inv_buf_def stop_begin_def Let_def)
  qed
qed

lemma draining_dead:
  assumes "bc_inv b" "stopPhase b = Draining d" "set_option d \<subseteq> set (finished b)"
  shows "live b = {}"
  using assms by (auto simp: bc_inv_def inv_loops_def inv_stop_def)

lemma inv_stop_finish:
  assumes inv: "bc_inv b" and drain: "stopPhase b = Draining d" "set_option d \<subseteq> set (finished b)"
  shows "bc_inv (stop_finish b)"
proof -
  note parts = bc_inv_parts [OF inv]
  note dead = draining_dead [OF inv drain]
  have stop: "stopped b" using parts(2) drain by (auto simp: inv_stop_def)
  let ?b = "stop_finish b"
  show ?thesis
  proof (rule bc_inv_intro)
    show "inv_loops ?b" using parts(1) by (auto simp: inv_loops_def stop_finish_def)
    show "inv_stop ?b" using parts(2) dead stop by (auto simp: inv_stop_def stop_finish_def)
    show "inv_wait ?b" using parts(3) stop by (auto simp: inv_wait_def stop_finish_def)
    show "inv_chan ?b" using parts(4) dead by (auto simp: inv_chan_def stop_finish_def sending_dead)
    show "inv_buf ?b" using parts(5) by (simp add: inv_buf_def stop_finish_def)
  qed
qed

lemma live_unique: "bc_inv b \<Longrightarrow> i \<in> live b \<Longrightarrow> j \<in> live b \<Longrightarrow> i = j"
  unfolding bc_inv_def inv_loops_def by (metis option.inject)

lemma live_single: "bc_inv b \<Longrightarrow> i \<in> live b \<Longrightarrow> live b = {i}"
  using live_unique by blast

lemma inv_loop_end:
  assumes inv: "bc_inv b" and i: "i \<in> live b"
  shows "bc_inv (loop_end i b)"
proof -
  note parts = bc_inv_parts [OF inv]
  let ?b = "loop_end i b"
  show ?thesis
  proof (rule bc_inv_intro)
    show "inv_loops ?b" using parts(1) live_single [OF inv i] by (auto simp: inv_loops_def)
    show "inv_stop ?b" using parts(2) by (auto simp: inv_stop_def)
    show "inv_wait ?b" using parts(3) by (simp add: inv_wait_def)
    show "inv_chan ?b" using parts(4) sending_loop_end [of i b] by (auto simp: inv_chan_def)
    show "inv_buf ?b" using parts(5) by (simp add: inv_buf_def)
  qed
qed

lemma inv_put_loop:
  assumes inv: "bc_inv b" and i: "i \<in> live b" and l: "set (send_list l) \<subseteq> sending b \<union> set (subscribers b)"
  shows "bc_inv (put_loop i l b)"
proof -
  note parts = bc_inv_parts [OF inv]
  let ?b = "put_loop i l b"
  show ?thesis
  proof (rule bc_inv_intro)
    show "inv_loops ?b" using parts(1) live_single [OF inv i] by (auto simp: inv_loops_def)
    show "inv_stop ?b" using parts(2) i by (auto simp: inv_stop_def)
    show "inv_wait ?b" using parts(3) by (simp add: inv_wait_def)
    have "sending ?b \<subseteq> sending b \<union> set (subscribers b)" using sending_put_loop [of i l b] l by blast
    then show "inv_chan ?b" using parts(4) by (fastforce simp: inv_chan_def)
    show "inv_buf ?b" using parts(5) by (simp add: inv_buf_def)
  qed
qed

lemma live_elem: "map_of (loops b) i = Some l \<Longrightarrow> i \<in> live b"
  by (simp add: live_lookup)

lemma inv_tick:
  assumes inv: "bc_inv b" and l: "map_of (loops b) i = Some l" and at: "lp_phase l = AtSelect"
  shows "bc_inv (tick_step fns i t l b)"
proof -
  obtain a r d where t: "t = (a, r, d)" by (cases t)
  obtain v e where tick: "loop_tick fns a r d (lp_vars l) = (v, e)" by fastforce
  have i: "i \<in> live b" using l by (rule live_elem)
  show ?thesis
    using inv i at
    by (cases e) (simp_all add: tick_step_def t tick inv_put_loop inv_loop_end send_list_def)
qed

lemma inv_snapshot:
  assumes "bc_inv b" "map_of (loops b) i = Some l" "set cs = set (subscribers b)"
  shows "bc_inv (put_loop i (l\<lparr>lp_phase := Sending counted p cs\<rparr>) b)"
  using assms live_elem [OF assms(2)] by (intro inv_put_loop) (auto simp: send_list_def)

lemma inv_buffers:
  assumes "bc_inv b" and "\<And>c. length (f c) \<le> 5"
  shows "bc_inv (b\<lparr>buffers := f\<rparr>)"
proof -
  have "inv_loops (b\<lparr>buffers := f\<rparr>) = inv_loops b" "inv_stop (b\<lparr>buffers := f\<rparr>) = inv_stop b"
    "inv_wait (b\<lparr>buffers := f\<rparr>) = inv_wait b" "inv_chan (b\<lparr>buffers := f\<rparr>) = inv_chan b"
    by (simp_all add: inv_loops_def inv_stop_def inv_wait_def inv_chan_def)
  then show ?thesis using assms by (simp add: bc_inv_def inv_buf_def)
qed

lemma inv_send:
  assumes inv: "bc_inv b" and l: "map_of (loops b) i = Some l" and ph: "lp_phase l = Sending counted p (c # cs)"
  shows "bc_inv (send_step i counted p c cs l b)"
proof -
  note parts = bc_inv_parts [OF inv]
  have sl: "set (send_list l) \<subseteq> sending b" using l by (rule sending_elem)
  then have mem: "c \<in> sending b" "set cs \<subseteq> sending b" using ph by (auto simp: send_list_def)
  then have open_chan: "c \<notin> set (chan_closed b)" using parts(4) by (auto simp: inv_chan_def)
  let ?b1 = "if length (buffers b c) < 5 then b\<lparr>buffers := (buffers b)(c := buffers b c @ [p])\<rparr>
      else if counted then b\<lparr>droppedMsgs := Suc (droppedMsgs b)\<rparr> else b"
  have b1: "bc_inv ?b1" using inv parts(5) by (auto simp: inv_buf_def intro!: inv_buffers)
  have i: "i \<in> live ?b1" using live_elem [OF l] by simp
  have "bc_inv (put_loop i (l\<lparr>lp_phase := Sending counted p cs\<rparr>) ?b1)"
    using mem(2) by (intro inv_put_loop [OF b1 i]) (auto simp: send_list_def)
  then show ?thesis using open_chan by (simp add: send_step_def Let_def)
qed

lemma inv_send_done:
  assumes inv: "bc_inv b" and l: "map_of (loops b) i = Some l"
  shows "bc_inv (send_done i counted l b)"
  using inv live_elem [OF l] by (auto simp: send_done_def send_list_def intro!: inv_put_loop)

lemma inv_receive: "bc_inv b \<Longrightarrow> buffers b c = q # qs \<Longrightarrow> bc_inv (b\<lparr>buffers := (buffers b)(c := qs)\<rparr>)"
  using spec [of "\<lambda>c. length (buffers b c) \<le> 5" c] by (intro inv_buffers) (auto simp: bc_inv_def inv_buf_def)

lemma bc_inv_start: "bc_inv newBroadcaster"
  by (simp add: bc_inv_def inv_defs newBroadcaster_def live_def gm_keys_def sending_def gm_wf_def)

lemma bc_inv_step: "bc_inv b \<Longrightarrow> bc_step fns e b = Some b' \<Longrightarrow> bc_inv b'"
  by (cases e)
    (auto intro: inv_subscribe inv_resume inv_unsubscribe inv_idle_callback inv_stop_begin inv_stop_finish
      inv_loop_end inv_tick inv_snapshot inv_send inv_send_done inv_receive live_elem
      split: if_splits option.splits stop_phase.splits loop_phase.splits list.splits)

interpretation bcast: interleaving "bc_step fns" newBroadcaster bc_inv for fns :: "('a, 'j) bc_fns"
  by unfold_locales (auto intro: bc_inv_start bc_inv_step)

section \<open>A polling loop while there are subscribers\<close>

text \<open>
  When \<open>enrichFn\<close> does not panic, the loop whose stop channel is open is alive, and a live loop
  that no longer owns the stop channel has been told to stop.
\<close>

definition enrich_total :: "('a, 'j) bc_fns \<Rightarrow> bool" where
  "enrich_total fns = (\<forall>f d p t t'. enrichFn fns = Some f \<longrightarrow> f d p t t' \<noteq> None)"

definition poll_inv :: "('a, 'j) bcast \<Rightarrow> bool" where
  "poll_inv b \<longleftrightarrow>
     (\<forall>i. stop_ch b = Some i \<longrightarrow> i \<in> live b) \<and>
     (\<forall>i\<in>live b. stop_ch b = None \<longrightarrow> i \<in> set (stop_closed b))"

lemma enrich_no_panic: "enrich_total fns \<Longrightarrow> enrich_and_send fns a d v \<noteq> (v', LoopPanic)"
proof -
  assume total: "enrich_total fns"
  show ?thesis
  proof (cases "enrichFn fns")
    case (Some f)
    with total obtain x where "f d (lastSnapshot v) a (lastAt v) = Some x"
      unfolding enrich_total_def by blast
    with Some show ?thesis by (simp add: enrich_and_send_def)
  qed (simp add: enrich_and_send_def)
qed

lemma total_no_panic:
  "enrich_total fns \<Longrightarrow> loop_tick fns a r d v = (v', e) \<Longrightarrow> e \<noteq> LoopPanic"
  using enrich_no_panic [of fns]
  by (auto simp: loop_tick_def Let_def split: fetch.splits option.splits if_splits)

lemma poll_put_loop: "poll_inv b \<Longrightarrow> i \<in> live b \<Longrightarrow> poll_inv (put_loop i l b)"
  by (auto simp: poll_inv_def)

lemma poll_tick:
  assumes total: "enrich_total fns" and inv: "poll_inv b" and i: "i \<in> live b"
  shows "poll_inv (tick_step fns i t l b)"
proof -
  obtain a r d where t: "t = (a, r, d)" by (cases t)
  obtain v e where tick: "loop_tick fns a r d (lp_vars l) = (v, e)" by fastforce
  have "poll_inv (b\<lparr>lastBroadcast := p\<rparr>)" for p using inv by (simp add: poll_inv_def)
  then show ?thesis
    using inv i total_no_panic [OF total tick]
    by (cases e) (simp_all add: tick_step_def t tick poll_put_loop)
qed

lemma poll_subscribe: "poll_inv b \<Longrightarrow> bc_inv b \<Longrightarrow> poll_inv (subscribe fns b)"
  by (auto simp: poll_inv_def subscribe_def Let_def bc_inv_def inv_loops_def split: option.split)

lemma poll_resume:
  assumes inv: "poll_inv b" "bc_inv b" and b': "resume_subscribe fns w b = Some b'"
  shows "poll_inv b'"
proof -
  obtain ch gen d where w: "w = (ch, gen, d)" by (cases w)
  with b' have mem: "(ch, gen, d) \<in> set (waiters b)" "d \<in> set (finished b)"
    by (auto simp: resume_subscribe_def split: if_splits)
  note dead = waiter_dead [OF inv(2) mem]
  show ?thesis
    using b' mem inv(1) dead w
    by (auto simp: resume_subscribe_def Let_def poll_inv_def split: if_splits)
qed

lemma poll_send:
  assumes inv: "poll_inv b" "bc_inv b" and l: "map_of (loops b) i = Some l"
    and ph: "lp_phase l = Sending counted p (c # cs)"
  shows "poll_inv (send_step i counted p c cs l b)"
proof -
  have "c \<in> sending b" using sending_elem [OF l] ph by (auto simp: send_list_def)
  then have "c \<notin> set (chan_closed b)" using inv(2) by (auto simp: bc_inv_def inv_chan_def)
  moreover have "poll_inv (b\<lparr>buffers := f\<rparr>)" "poll_inv (b\<lparr>droppedMsgs := n\<rparr>)" for f n
    using inv(1) by (simp_all add: poll_inv_def)
  ultimately show ?thesis
    using inv(1) live_elem [OF l] by (auto simp: send_step_def Let_def intro!: poll_put_loop)
qed

lemma poll_loop_end:
  assumes "poll_inv b" "bc_inv b" "i \<in> set (stop_closed b)"
  shows "poll_inv (loop_end i b)"
proof -
  have "stop_ch b \<noteq> Some i" using assms(2,3) unfolding bc_inv_def inv_loops_def by blast
  with assms(1) show ?thesis by (auto simp: poll_inv_def)
qed

lemma poll_close_stop_ch:
  assumes "poll_inv b" "bc_inv b"
  shows "poll_inv (close_stop_ch b)"
proof (cases "stop_ch b")
  case None
  with assms show ?thesis by (simp add: poll_inv_def)
next
  case (Some j)
  then have "live b = {j}" using assms by (intro live_single) (auto simp: poll_inv_def)
  with Some show ?thesis by (simp add: poll_inv_def)
qed

lemma poll_callback: "poll_inv b \<Longrightarrow> bc_inv b \<Longrightarrow> poll_inv (idle_callback b)"
proof -
  assume inv: "poll_inv b" "bc_inv b"
  have "poll_inv (a\<lparr>idleTimer := None\<rparr>) = poll_inv a" for a :: "('a, 'b) bcast"
    by (simp add: poll_inv_def)
  with inv poll_close_stop_ch [OF inv] show ?thesis by (simp add: idle_callback_def)
qed

lemma poll_stop:
  assumes "poll_inv b" "bc_inv b"
  shows "poll_inv (stop_begin b)"
proof -
  let ?c = "cancel_idle (b\<lparr>stopped := True, loopGen := Suc (loopGen b)\<rparr>)"
  have same: "stop_ch ?c = stop_ch b" "live ?c = live b" "stop_closed ?c = stop_closed b" by simp_all
  have "poll_inv (close_stop_ch ?c)"
  proof (cases "stop_ch b")
    case None
    with assms(1) show ?thesis by (simp add: poll_inv_def)
  next
    case (Some j)
    then have "live b = {j}" using assms by (intro live_single) (auto simp: poll_inv_def)
    with Some show ?thesis by (simp add: poll_inv_def)
  qed
  then show ?thesis by (simp add: stop_begin_def Let_def poll_inv_def)
qed

lemma poll_frame [simp]:
  "poll_inv (b\<lparr>timers_set := ts\<rparr>) = poll_inv b" "poll_inv (b\<lparr>timers_fired := tf\<rparr>) = poll_inv b"
  "poll_inv (b\<lparr>buffers := f\<rparr>) = poll_inv b" "poll_inv (b\<lparr>droppedMsgs := n\<rparr>) = poll_inv b"
  by (simp_all add: poll_inv_def)

lemma poll_unsubscribe: "poll_inv b \<Longrightarrow> poll_inv (unsubscribe ch b)"
  by (auto simp: poll_inv_def unsubscribe_def Let_def)

lemma poll_stop_finish: "poll_inv b \<Longrightarrow> poll_inv (stop_finish b)"
  by (simp add: poll_inv_def stop_finish_def)

lemma poll_send_done: "poll_inv b \<Longrightarrow> i \<in> live b \<Longrightarrow> poll_inv (send_done i counted l b)"
  by (simp add: send_done_def poll_put_loop)

lemma poll_step:
  assumes total: "enrich_total fns" and inv: "bc_inv b \<and> poll_inv b" and step: "bc_step fns e b = Some b'"
  shows "bc_inv b' \<and> poll_inv b'"
proof
  show "bc_inv b'" using inv step by (auto intro: bc_inv_step)
  from inv have bc: "bc_inv b" and po: "poll_inv b" by simp_all
  show "poll_inv b'"
  proof (cases e)
    case ESubscribe
    with step po bc show ?thesis by (auto intro: poll_subscribe)
  next
    case (EResume w)
    with step po bc show ?thesis by (auto intro: poll_resume)
  next
    case (EUnsubscribe ch)
    with step po show ?thesis by (auto intro: poll_unsubscribe split: if_splits)
  next
    case (ETimerFire t)
    with step po show ?thesis by (auto split: if_splits)
  next
    case (ETimerRun t)
    with step po bc show ?thesis by (auto intro!: poll_callback split: if_splits)
  next
    case EStop
    with step po bc show ?thesis by (auto intro: poll_stop split: if_splits)
  next
    case EStopFinish
    with step po show ?thesis
      by (auto intro: poll_stop_finish split: stop_phase.splits option.splits if_splits)
  next
    case (ELoopExit i)
    with step po bc show ?thesis by (auto intro: poll_loop_end split: option.splits if_splits)
  next
    case (ETick i t)
    with step po total show ?thesis
      by (auto intro: poll_tick live_elem split: option.splits if_splits)
  next
    case (ESnapshot i cs)
    with step po show ?thesis
      by (auto intro!: poll_put_loop live_elem split: option.splits if_splits loop_phase.splits)
  next
    case (ESend i)
    with step po bc show ?thesis
      by (auto intro: poll_send poll_send_done live_elem split: option.splits loop_phase.splits list.splits)
  next
    case (EReceive c)
    with step po show ?thesis by (auto split: list.splits)
  qed
qed

text \<open>The same component with callbacks that return.\<close>

lemma poll_inv_start: "poll_inv newBroadcaster"
  by (simp add: poll_inv_def newBroadcaster_def live_def gm_keys_def)

lemma poll_reached:
  assumes "enrich_total fns" "bc_run fns es newBroadcaster = Some b"
  shows "bc_inv b \<and> poll_inv b"
proof -
  have "interleaving (bc_step fns) newBroadcaster (\<lambda>b. bc_inv b \<and> poll_inv b)"
    by unfold_locales (use bc_inv_start poll_inv_start poll_step [OF assms(1)] in blast)+
  from interleaving.inv_reached [OF this assms(2)] show ?thesis .
qed

section \<open>Closing channels\<close>

lemma fold_close_chan_double:
  "distinct cs \<Longrightarrow> set cs \<inter> set (chan_closed b) = {} \<Longrightarrow> double_close (fold close_chan cs b) = double_close b"
  by (induction cs arbitrary: b) (auto simp: close_chan_def)

lemma double_close_frame [simp]:
  "double_close (cancel_idle b) = double_close b" "double_close (close_stop_ch b) = double_close b"
  "double_close (start_loop fns b) = double_close b" "double_close (put_loop i l b) = double_close b"
  "double_close (loop_end i b) = double_close b"
  by (auto simp: cancel_idle_def close_stop_ch_def start_loop_def put_loop_def loop_end_def split: option.split)

lemma double_close_ops [simp]:
  "double_close (unsubscribe ch b) = double_close b" "double_close (idle_callback b) = double_close b"
  "double_close (stop_begin b) = double_close b" "double_close (send_step i k p c cs l b) = double_close b"
  "double_close (send_done i k l b) = double_close b"
  by (simp_all add: unsubscribe_def idle_callback_def stop_begin_def send_step_def send_done_def Let_def)

lemma double_close_tick [simp]: "double_close (tick_step fns i t l b) = double_close b"
  by (auto simp: tick_step_def split: prod.split emit.split)

lemma double_close_subscribe: "bc_inv b \<Longrightarrow> double_close (subscribe fns b) = double_close b"
  by (auto simp: subscribe_def Let_def close_chan_def bc_inv_def inv_chan_def split: option.split)

lemma double_close_finish: "bc_inv b \<Longrightarrow> double_close (stop_finish b) = double_close b"
  using fold_close_chan_double [of "subscribers b" b]
  by (auto simp: stop_finish_def bc_inv_def inv_chan_def)

lemma double_close_step:
  assumes inv: "bc_inv b" and step: "bc_step fns e b = Some b'" and was: "\<not> double_close b" and now: "double_close b'"
  shows "\<exists>w. e = EResume w \<and> stopped b"
proof (cases e)
  case (EResume w)
  obtain ch gen d where w: "w = (ch, gen, d)" by (cases w)
  have "stopped b"
    using step was now EResume w by (auto simp: resume_subscribe_def Let_def split: if_splits)
  with EResume show ?thesis by blast
qed (use step was now double_close_subscribe [OF inv] double_close_finish [OF inv] in
  \<open>auto split: if_splits option.splits stop_phase.splits loop_phase.splits list.splits\<close>)

section \<open>Properties of the concurrent object\<close>

text \<open>
  C10. In every interleaving of subscribers, unsubscribers, the idle timer, \<open>Stop\<close> and the loops,
  at most one loop goroutine exists at a time, nothing is ever sent to a closed channel, and no
  subscriber's buffer holds more than 5 payloads.
\<close>

theorem bcast_single_loop_safe:
  assumes "bc_run fns es newBroadcaster = Some b"
  shows "length (loops b) \<le> 1 \<and> \<not> sent_on_closed b \<and> (\<forall>c. length (buffers b c) \<le> 5)"
proof -
  have inv: "bc_inv b" using assms by (rule bcast.inv_reached)
  have "length (loops b) \<le> 1"
  proof (cases "loops b")
    case (Cons x xs)
    have "fst x \<in> live b" using Cons by (simp add: live_def gm_keys_def)
    from live_single [OF inv this] have one: "set (gm_keys (loops b)) = {fst x}" by (simp add: live_def)
    have "distinct (gm_keys (loops b))"
      using inv by (simp add: bc_inv_def inv_loops_def gm_wf_def gm_keys_def)
    then have "length (gm_keys (loops b)) = card {fst x}" using one distinct_card by metis
    then show ?thesis by (simp add: gm_keys_def)
  qed simp
  with inv show ?thesis by (simp add: bc_inv_def inv_chan_def inv_buf_def)
qed

definition nat_fns :: "(nat, nat) bc_fns" where
  "nat_fns = \<lparr>marshal = Some, enrichFn = None, zero_payload = 0\<rparr>"

definition one_broadcast :: "nat bc_event list" where
  "one_broadcast = [ESubscribe, ESubscribe, ETick 0 (1, Fetched 7, None), ESnapshot 0 [0, 1], ESend 0, ESend 0, ESend 0]"

theorem bcast_single_loop_safe_witness:
  "\<exists>b. bc_run nat_fns one_broadcast newBroadcaster = Some b \<and> buffers b 1 = [7] \<and>
    length (loops b) \<le> 1 \<and> \<not> sent_on_closed b \<and> (\<forall>c. length (buffers b c) \<le> 5)"
proof -
  let ?b = "the (bc_run nat_fns one_broadcast newBroadcaster)"
  have run: "bc_run nat_fns one_broadcast newBroadcaster = Some ?b" "buffers ?b 1 = [7]"
    by (simp_all add: one_broadcast_def nat_fns_def newBroadcaster_def subscribe_def start_loop_def cancel_idle_def
        tick_step_def loop_tick_def init_vars_def enrich_and_send_def put_loop_def send_step_def send_done_def Let_def)
  from bcast_single_loop_safe [OF run(1)] run show ?thesis by blast
qed

text \<open>
  C12. Subscribers are served: while the broadcaster is not stopped and somebody is subscribed,
  a loop is polling, or exactly one subscriber waits for the previous loop, which has ended or
  has been told to end. (\<open>enrichFn\<close> must not panic: a panic takes the loop down for good.)
\<close>

theorem bcast_subscribers_served:
  assumes total: "enrich_total fns" and run: "bc_run fns es newBroadcaster = Some b"
    and active: "\<not> stopped b" "subscribers b \<noteq> []"
  shows "(\<exists>i\<in>live b. stop_ch b = Some i) \<or>
    (\<exists>ch d. waiters b = [(ch, 0, d)] \<and> ch \<in> set (subscribers b) \<and>
       (d \<in> set (finished b) \<or> d \<in> live b \<and> d \<in> set (stop_closed b)))"
proof (cases "stop_ch b")
  case (Some i)
  then show ?thesis using poll_reached [OF total run] by (auto simp: poll_inv_def)
next
  case None
  have inv: "bc_inv b" and poll: "poll_inv b" using poll_reached [OF total run] by simp_all
  have "length (waiters b) \<le> 1" "waiters b \<noteq> []"
    using inv active None by (auto simp: bc_inv_def inv_wait_def)
  then obtain ch gen d where w: "waiters b = [(ch, gen, d)]" by (cases "waiters b") auto
  then have g: "gen = 0" "loop_done b = Some d" "ch \<in> set (subscribers b)"
    using inv active by (auto simp: bc_inv_def inv_wait_def)
  then have "d \<in> set (finished b) \<or> d \<in> live b" using inv by (auto simp: bc_inv_def inv_loops_def)
  with w g None poll show ?thesis by (auto simp: poll_inv_def)
qed

theorem bcast_subscribers_served_witness:
  "\<exists>b. bc_run nat_fns [ESubscribe] newBroadcaster = Some b \<and>
    ((\<exists>i\<in>live b. stop_ch b = Some i) \<or>
     (\<exists>ch d. waiters b = [(ch, 0, d)] \<and> ch \<in> set (subscribers b) \<and>
       (d \<in> set (finished b) \<or> d \<in> live b \<and> d \<in> set (stop_closed b))))"
proof -
  have total: "enrich_total nat_fns" by (simp add: enrich_total_def nat_fns_def)
  have run: "bc_run nat_fns [ESubscribe] newBroadcaster = Some (subscribe nat_fns newBroadcaster)" by simp
  have "\<not> stopped (subscribe nat_fns newBroadcaster)" "subscribers (subscribe nat_fns newBroadcaster) \<noteq> []"
    by (simp_all add: subscribe_def newBroadcaster_def Let_def)
  from bcast_subscribers_served [OF total run this] run show ?thesis by blast
qed

text \<open>
  C18. After \<open>Stop\<close> has returned no loop is left, every channel ever handed out is closed or was
  unsubscribed, and a later \<open>Subscribe\<close> returns a closed channel and starts nothing.
\<close>

theorem bcast_stop_complete:
  assumes "bc_run fns es newBroadcaster = Some b" and "stopPhase b = StopDone"
  shows "loops b = [] \<and> (\<forall>c<next_chan b. c \<in> set (chan_closed b) \<or> c \<in> set (unsubscribed b)) \<and>
    next_chan b \<in> set (chan_closed (subscribe fns b)) \<and> loops (subscribe fns b) = []"
proof -
  have inv: "bc_inv b" using assms(1) by (rule bcast.inv_reached)
  then have stop: "stopped b" "live b = {}" "subscribers b = []"
    using assms(2) by (auto simp: bc_inv_def inv_stop_def)
  then have "loops b = []" by (cases "loops b") (auto simp: live_def gm_keys_def)
  with inv stop show ?thesis by (auto simp: bc_inv_def inv_chan_def subscribe_def Let_def)
qed

definition stop_run :: "nat bc_event list" where
  "stop_run = [ESubscribe, EStop, ELoopExit 0, EStopFinish]"

lemmas bc_run_simps = nat_fns_def newBroadcaster_def subscribe_def start_loop_def cancel_idle_def stop_begin_def
  stop_finish_def loop_end_def close_chan_def close_stop_ch_def unsubscribe_def idle_callback_def
  resume_subscribe_def init_vars_def Let_def

theorem bcast_stop_complete_witness:
  "\<exists>b. bc_run nat_fns stop_run newBroadcaster = Some b \<and>
    loops b = [] \<and> (\<forall>c<next_chan b. c \<in> set (chan_closed b) \<or> c \<in> set (unsubscribed b)) \<and>
    next_chan b \<in> set (chan_closed (subscribe nat_fns b)) \<and> loops (subscribe nat_fns b) = []"
proof -
  let ?b = "the (bc_run nat_fns stop_run newBroadcaster)"
  have run: "bc_run nat_fns stop_run newBroadcaster = Some ?b" "stopPhase ?b = StopDone"
    by (simp_all add: stop_run_def bc_run_simps)
  from bcast_stop_complete [OF run] run(1) show ?thesis by blast
qed

text \<open>A subscriber waits for an idle loop to end; \<open>Stop\<close> gets in between.\<close>

definition stop_overtakes_waiter :: "nat bc_event list" where
  "stop_overtakes_waiter =
     [ESubscribe, EUnsubscribe 0, ETimerFire 0, ETimerRun 0, ESubscribe, EStop, ELoopExit 0, EStopFinish,
      EResume (1, 0, 0)]"


text \<open>
  That race is the only one: the step of any run that first closes a channel twice is a
  \<open>Subscribe\<close> that resumes its wait after \<open>Stop\<close> was called.
\<close>

theorem bcast_double_close_only_resume:
  assumes "bc_run fns es newBroadcaster = Some b" and "bc_step fns e b = Some b'"
    and "\<not> double_close b" and "double_close b'"
  shows "\<exists>w. e = EResume w \<and> stopped b"
  using double_close_step bcast.inv_reached assms by blast

theorem bcast_double_close_only_resume_witness:
  "\<exists>b. bc_run nat_fns (butlast stop_overtakes_waiter) newBroadcaster = Some b \<and>
     (\<exists>w. EResume (1, 0, 0) = (EResume w :: nat bc_event) \<and> stopped b)"
proof -
  let ?b = "the (bc_run nat_fns (butlast stop_overtakes_waiter) newBroadcaster)"
  let ?c = "the (bc_step nat_fns (EResume (1, 0, 0)) ?b)"
  have run: "bc_run nat_fns (butlast stop_overtakes_waiter) newBroadcaster = Some ?b"
    "bc_step nat_fns (EResume (1, 0, 0)) ?b = Some ?c" "\<not> double_close ?b" "double_close ?c"
    by (simp_all add: stop_overtakes_waiter_def bc_run_simps)
  from bcast_double_close_only_resume [OF run] run(1) show ?thesis by blast
qed

text \<open>
  The generation counter changes only when \<open>Stop\<close> runs, never when another \<open>Subscribe\<close> starts
  a loop: a subscriber that resumes and finds the generation changed always finds the broadcaster
  stopped.
\<close>

theorem bcast_generation_only_stop:
  assumes "bc_run fns es newBroadcaster = Some b" and "(ch, gen, d) \<in> set (waiters b)"
  shows "gen \<noteq> loopGen b \<longleftrightarrow> stopped b"
proof -
  have "bc_inv b" using assms(1) by (rule bcast.inv_reached)
  with assms(2) show ?thesis by (auto simp: bc_inv_def inv_wait_def inv_stop_def)
qed

theorem bcast_generation_only_stop_witness:
  "\<exists>b. bc_run nat_fns (take 6 stop_overtakes_waiter) newBroadcaster = Some b \<and> (0 \<noteq> loopGen b \<longleftrightarrow> stopped b)"
proof -
  let ?b = "the (bc_run nat_fns (take 6 stop_overtakes_waiter) newBroadcaster)"
  have run: "bc_run nat_fns (take 6 stop_overtakes_waiter) newBroadcaster = Some ?b"
    "(1, 0, 0) \<in> set (waiters ?b)"
    by (simp_all add: stop_overtakes_waiter_def bc_run_simps)
  from bcast_generation_only_stop [OF run] run(1) show ?thesis by blast
qed

section \<open>Properties of the loop body\<close>

fun successes :: "'a tick list \<Rightarrow> (time \<times> 'a) list" where
  "successes [] = []"
| "successes ((at, Fetched d, g) # ts) = (at, d) # successes ts"
| "successes ((at, FetchError, g) # ts) = successes ts"

fun broadcasts :: "'a emit list \<Rightarrow> 'a list" where
  "broadcasts [] = []"
| "broadcasts (EmitBroadcast p # es) = p # broadcasts es"
| "broadcasts (_ # es) = broadcasts es"

text \<open>Each payload enriched against its predecessor and the time between the two.\<close>

fun enrich_chain :: "('a \<Rightarrow> 'a \<Rightarrow> time \<Rightarrow> time \<Rightarrow> 'a) \<Rightarrow> time \<times> 'a \<Rightarrow> (time \<times> 'a) list \<Rightarrow> 'a list" where
  "enrich_chain f prev [] = []"
| "enrich_chain f prev (x # xs) = f (snd x) (snd prev) (fst x) (fst prev) # enrich_chain f x xs"

lemma dedup_run:
  assumes m: "\<And>d. marshal fns d = Some (m d)"
    and f: "enrichFn fns = Some (\<lambda>d p t t'. Some (f d p t t'))"
  shows "\<exists>ps. subseq ps (successes ts) \<and>
    (case prevJSON v of
       None \<Rightarrow> map (m \<circ> snd) ps = remdups_adj (map (m \<circ> snd) (successes ts))
     | Some j \<Rightarrow> j # map (m \<circ> snd) ps = remdups_adj (j # map (m \<circ> snd) (successes ts))) \<and>
    broadcasts (run_ticks fns ts v) = enrich_chain f (lastAt v, lastSnapshot v) ps"
proof (induction ts arbitrary: v)
  case Nil
  then show ?case by (auto split: option.split)
next
  case (Cons t ts)
  obtain a r g where t: "t = (a, r, g)" by (cases t)
  show ?case
  proof (cases r)
    case FetchError
    let ?v = "v\<lparr>consecutiveErrors := Suc (consecutiveErrors v)\<rparr>"
    have "broadcasts (run_ticks fns (t # ts) v) = broadcasts (run_ticks fns ts ?v)"
      by (simp add: t FetchError loop_tick_def Let_def split: option.split)
    moreover have "successes (t # ts) = successes ts" by (simp add: t FetchError)
    ultimately show ?thesis using Cons.IH [of ?v] by (simp cong: option.case_cong)
  next
    case (Fetched d)
    show ?thesis
    proof (cases "prevJSON v = Some (m d)")
      case True
      let ?v = "v\<lparr>consecutiveErrors := 0\<rparr>"
      have "broadcasts (run_ticks fns (t # ts) v) = broadcasts (run_ticks fns ts ?v)"
        by (simp add: t Fetched loop_tick_def Let_def m True)
      with Cons.IH [of ?v] True show ?thesis by (auto simp: t Fetched)
    next
      case False
      let ?v = "v\<lparr>consecutiveErrors := 0, prevJSON := Some (m d), lastSnapshot := d, lastAt := a\<rparr>"
      have "broadcasts (run_ticks fns (t # ts) v) =
          f d (lastSnapshot v) a (lastAt v) # broadcasts (run_ticks fns ts ?v)"
        using False by (simp add: t Fetched loop_tick_def enrich_and_send_def Let_def m f)
      moreover obtain ps where ps: "subseq ps (successes ts)"
        "m d # map (m \<circ> snd) ps = remdups_adj (m d # map (m \<circ> snd) (successes ts))"
        "broadcasts (run_ticks fns ts ?v) = enrich_chain f (a, d) ps"
        using Cons.IH [of ?v] by auto
      ultimately show ?thesis
        using False by (intro exI [of _ "(a, d) # ps"]) (auto simp: t Fetched split: option.split)
    qed
  qed
qed

text \<open>
  C26. What is broadcast: over any run of ticks, failures included, the payloads sent are the
  successful fetches without adjacent repetitions (of their JSON), each enriched with its
  predecessor in that list and the two tick times. Nothing is lost, repeated or compared with a
  payload that was not sent.
\<close>

theorem bcast_dedup_enrich:
  assumes "\<And>d. marshal fns d = Some (m d)"
    and "enrichFn fns = Some (\<lambda>d p t t'. Some (f d p t t'))"
  shows "\<exists>ps. subseq ps (successes ts) \<and>
    map (m \<circ> snd) ps = remdups_adj (map (m \<circ> snd) (successes ts)) \<and>
    broadcasts (run_ticks fns ts (init_vars fns)) = enrich_chain f (0, zero_payload fns) ps"
  using dedup_run [of fns m f ts "init_vars fns"] assms by (simp add: init_vars_def)

theorem bcast_dedup_enrich_witness:
  "let fns = \<lparr>marshal = Some, enrichFn = Some (\<lambda>d p t t'. Some (d - p)), zero_payload = 0\<rparr>;
       ts = [(1, Fetched 5, None), (2, FetchError, None), (3, Fetched 5, None), (4, Fetched (9::int), None)] in
   \<exists>ps. subseq ps (successes ts) \<and> map (id \<circ> snd) ps = remdups_adj (map (id \<circ> snd) (successes ts)) \<and>
    broadcasts (run_ticks fns ts (init_vars fns)) = enrich_chain (\<lambda>d p t t'. d - p) (0, zero_payload fns) ps"
  unfolding Let_def by (rule bcast_dedup_enrich) simp_all

lemma failure_run:
  "run_ticks fns (map (\<lambda>(at, g). (at, FetchError, g)) fs) v =
     map (\<lambda>k. if consecutiveErrors v + k + 1 = maxConsecutiveErrors
              then (case snd (fs ! k) of None \<Rightarrow> Quiet | Some p \<Rightarrow> EmitDegraded p) else Quiet)
       [0..<length fs]"
proof (induction fs arbitrary: v)
  case (Cons x fs)
  obtain a g where x: "x = (a, g)" by (cases x)
  let ?v = "v\<lparr>consecutiveErrors := Suc (consecutiveErrors v)\<rparr>"
  have "run_ticks fns (map (\<lambda>(at, g). (at, FetchError, g)) (x # fs)) v =
      (if consecutiveErrors v + 1 = maxConsecutiveErrors
       then (case g of None \<Rightarrow> Quiet | Some p \<Rightarrow> EmitDegraded p) else Quiet) #
      run_ticks fns (map (\<lambda>(at, g). (at, FetchError, g)) fs) ?v"
    by (simp add: x loop_tick_def Let_def split: option.split)
  also have "\<dots> = map (\<lambda>k. if consecutiveErrors v + k + 1 = maxConsecutiveErrors
              then (case snd ((x # fs) ! k) of None \<Rightarrow> Quiet | Some p \<Rightarrow> EmitDegraded p) else Quiet)
       [0..<Suc (length fs)]"
    unfolding Cons.IH map_upt_Suc by (simp add: x)
  finally show ?case by simp
qed simp

text \<open>
  In a row of failures, however long, the degraded event is pushed exactly once: at the third
  failure after the last success.
\<close>

theorem bcast_degraded_exactly_third:
  assumes "consecutiveErrors v = 0"
  shows "run_ticks fns (map (\<lambda>(at, g). (at, FetchError, g)) fs) v =
    map (\<lambda>k. if k = 2 then (case snd (fs ! k) of None \<Rightarrow> Quiet | Some p \<Rightarrow> EmitDegraded p) else Quiet)
      [0..<length fs]"
  using assms by (simp add: failure_run maxConsecutiveErrors_def cong: if_cong)

theorem bcast_degraded_exactly_third_witness:
  "let fs = [(1, Some 9), (2, Some 9), (3, Some (9::nat)), (4, Some 9)] in
   run_ticks nat_fns (map (\<lambda>(at, g). (at, FetchError, g)) fs) (init_vars nat_fns) =
   map (\<lambda>k. if k = 2 then (case snd (fs ! k) of None \<Rightarrow> Quiet | Some p \<Rightarrow> EmitDegraded p) else Quiet)
     [0..<length fs]"
  unfolding Let_def by (rule bcast_degraded_exactly_third) (simp add: init_vars_def)

text \<open>
  A recovery can be silent: after the degraded event, the first successful fetch is not
  broadcast when its payload equals the last one before the failures, so the subscribers keep
  showing the degraded state although the source is back.
\<close>

theorem bcast_recovery_silent:
  assumes "marshal fns d = Some j" "prevJSON v = Some j" "consecutiveErrors v = 0"
  shows "run_ticks fns
      [(t1, FetchError, Some q), (t2, FetchError, Some q), (t3, FetchError, Some q), (t4, Fetched d, Some q)] v =
    [Quiet, Quiet, EmitDegraded q, Quiet]"
  using assms by (simp add: loop_tick_def maxConsecutiveErrors_def)

theorem bcast_recovery_silent_witness:
  "run_ticks nat_fns [(1, Fetched 7, None)] (init_vars nat_fns) = [EmitBroadcast 7] \<and>
   run_ticks nat_fns [(2, FetchError, Some 0), (3, FetchError, Some 0), (4, FetchError, Some 0), (5, Fetched 7, Some 0)]
     (fst (loop_tick nat_fns 1 (Fetched 7) None (init_vars nat_fns))) = [Quiet, Quiet, EmitDegraded 0, Quiet]"
proof
  show "run_ticks nat_fns [(1, Fetched 7, None)] (init_vars nat_fns) = [EmitBroadcast 7]"
    by (simp add: loop_tick_def nat_fns_def init_vars_def enrich_and_send_def)
  show "run_ticks nat_fns [(2, FetchError, Some 0), (3, FetchError, Some 0), (4, FetchError, Some 0), (5, Fetched 7, Some 0)]
     (fst (loop_tick nat_fns 1 (Fetched 7) None (init_vars nat_fns))) = [Quiet, Quiet, EmitDegraded 0, Quiet]"
    by (rule bcast_recovery_silent [where j = 7])
      (simp_all add: loop_tick_def nat_fns_def init_vars_def enrich_and_send_def)
qed

end
