(* ===== verification/XrayProto.thy ===== *)
theory XrayProto
  imports GoBase
begin

text \<open>
  The protobuf messages and gRPC client methods of internal/xray-proto the server uses: messages
  as records (a pointer field is an option; a nil slice is the empty list, as the decoder leaves
  it), the getters, which accept nil, and the client stubs. The connection
  (\<open>grpc.ClientConnInterface\<close>) is an argument: what \<open>Invoke\<close> answers to the n-th call.
\<close>

section \<open>Messages\<close>

text \<open>A getter reads through a pointer that may be nil.\<close>

definition nil_safe :: "'b \<Rightarrow> ('a \<Rightarrow> 'b) \<Rightarrow> 'a option \<Rightarrow> 'b" where
  "nil_safe d f x = (case x of None \<Rightarrow> d | Some m \<Rightarrow> f m)"

record typed_message =
  tm_Type :: gostring
  tm_Value :: gostring

definition TypedMessage_GetType :: "typed_message option \<Rightarrow> gostring" where
  "TypedMessage_GetType = nil_safe [] tm_Type"

definition TypedMessage_GetValue :: "typed_message option \<Rightarrow> gostring" where
  "TypedMessage_GetValue = nil_safe [] tm_Value"

record outbound_handler_config =
  ob_Tag :: gostring
  ob_SenderSettings :: "typed_message option"
  ob_ProxySettings :: "typed_message option"
  ob_Expire :: int
  ob_Comment :: gostring

definition OutboundHandlerConfig_GetTag :: "outbound_handler_config option \<Rightarrow> gostring" where
  "OutboundHandlerConfig_GetTag = nil_safe [] ob_Tag"

definition OutboundHandlerConfig_GetSenderSettings :: "outbound_handler_config option \<Rightarrow> typed_message option" where
  "OutboundHandlerConfig_GetSenderSettings = nil_safe None ob_SenderSettings"

definition OutboundHandlerConfig_GetProxySettings :: "outbound_handler_config option \<Rightarrow> typed_message option" where
  "OutboundHandlerConfig_GetProxySettings = nil_safe None ob_ProxySettings"

definition OutboundHandlerConfig_GetExpire :: "outbound_handler_config option \<Rightarrow> int" where
  "OutboundHandlerConfig_GetExpire = nil_safe 0 ob_Expire"

definition OutboundHandlerConfig_GetComment :: "outbound_handler_config option \<Rightarrow> gostring" where
  "OutboundHandlerConfig_GetComment = nil_safe [] ob_Comment"

record list_outbounds_response =
  lo_Outbounds :: "outbound_handler_config list"

definition ListOutboundsResponse_GetOutbounds :: "list_outbounds_response option \<Rightarrow> outbound_handler_config list" where
  "ListOutboundsResponse_GetOutbounds = nil_safe [] lo_Outbounds"

record principle_target_info =
  pt_Tag :: "gostring list"

definition PrincipleTargetInfo_GetTag :: "principle_target_info option \<Rightarrow> gostring list" where
  "PrincipleTargetInfo_GetTag = nil_safe [] pt_Tag"

record override_info =
  ov_Target :: gostring

definition OverrideInfo_GetTarget :: "override_info option \<Rightarrow> gostring" where
  "OverrideInfo_GetTarget = nil_safe [] ov_Target"

record balancer_msg =
  bm_Override :: "override_info option"
  bm_PrincipleTarget :: "principle_target_info option"

definition BalancerMsg_GetOverride :: "balancer_msg option \<Rightarrow> override_info option" where
  "BalancerMsg_GetOverride = nil_safe None bm_Override"

definition BalancerMsg_GetPrincipleTarget :: "balancer_msg option \<Rightarrow> principle_target_info option" where
  "BalancerMsg_GetPrincipleTarget = nil_safe None bm_PrincipleTarget"

record get_balancer_info_request =
  bi_Tag :: gostring

definition GetBalancerInfoRequest_GetTag :: "get_balancer_info_request option \<Rightarrow> gostring" where
  "GetBalancerInfoRequest_GetTag = nil_safe [] bi_Tag"

record get_balancer_info_response =
  bi_Balancer :: "balancer_msg option"

definition GetBalancerInfoResponse_GetBalancer :: "get_balancer_info_response option \<Rightarrow> balancer_msg option" where
  "GetBalancerInfoResponse_GetBalancer = nil_safe None bi_Balancer"

record override_balancer_target_request =
  ot_BalancerTag :: gostring
  ot_Target :: gostring

definition OverrideBalancerTargetRequest_GetBalancerTag :: "override_balancer_target_request option \<Rightarrow> gostring" where
  "OverrideBalancerTargetRequest_GetBalancerTag = nil_safe [] ot_BalancerTag"

definition OverrideBalancerTargetRequest_GetTarget :: "override_balancer_target_request option \<Rightarrow> gostring" where
  "OverrideBalancerTargetRequest_GetTarget = nil_safe [] ot_Target"

record health_ping =
  hp_All :: int
  hp_Fail :: int
  hp_Deviation :: int
  hp_Average :: int
  hp_Max :: int
  hp_Min :: int

definition HealthPingMeasurementResult_GetAll :: "health_ping option \<Rightarrow> int" where
  "HealthPingMeasurementResult_GetAll = nil_safe 0 hp_All"

definition HealthPingMeasurementResult_GetFail :: "health_ping option \<Rightarrow> int" where
  "HealthPingMeasurementResult_GetFail = nil_safe 0 hp_Fail"

definition HealthPingMeasurementResult_GetDeviation :: "health_ping option \<Rightarrow> int" where
  "HealthPingMeasurementResult_GetDeviation = nil_safe 0 hp_Deviation"

definition HealthPingMeasurementResult_GetAverage :: "health_ping option \<Rightarrow> int" where
  "HealthPingMeasurementResult_GetAverage = nil_safe 0 hp_Average"

definition HealthPingMeasurementResult_GetMax :: "health_ping option \<Rightarrow> int" where
  "HealthPingMeasurementResult_GetMax = nil_safe 0 hp_Max"

definition HealthPingMeasurementResult_GetMin :: "health_ping option \<Rightarrow> int" where
  "HealthPingMeasurementResult_GetMin = nil_safe 0 hp_Min"

record outbound_status =
  os_Alive :: bool
  os_Delay :: int
  os_LastErrorReason :: gostring
  os_OutboundTag :: gostring
  os_LastSeenTime :: int
  os_LastTryTime :: int
  os_HealthPing :: "health_ping option"

definition OutboundStatus_GetAlive :: "outbound_status option \<Rightarrow> bool" where
  "OutboundStatus_GetAlive = nil_safe False os_Alive"

definition OutboundStatus_GetDelay :: "outbound_status option \<Rightarrow> int" where
  "OutboundStatus_GetDelay = nil_safe 0 os_Delay"

definition OutboundStatus_GetLastErrorReason :: "outbound_status option \<Rightarrow> gostring" where
  "OutboundStatus_GetLastErrorReason = nil_safe [] os_LastErrorReason"

definition OutboundStatus_GetOutboundTag :: "outbound_status option \<Rightarrow> gostring" where
  "OutboundStatus_GetOutboundTag = nil_safe [] os_OutboundTag"

definition OutboundStatus_GetLastSeenTime :: "outbound_status option \<Rightarrow> int" where
  "OutboundStatus_GetLastSeenTime = nil_safe 0 os_LastSeenTime"

definition OutboundStatus_GetLastTryTime :: "outbound_status option \<Rightarrow> int" where
  "OutboundStatus_GetLastTryTime = nil_safe 0 os_LastTryTime"

definition OutboundStatus_GetHealthPing :: "outbound_status option \<Rightarrow> health_ping option" where
  "OutboundStatus_GetHealthPing = nil_safe None os_HealthPing"

record observation_result =
  or_Status :: "outbound_status list"

definition ObservationResult_GetStatus :: "observation_result option \<Rightarrow> outbound_status list" where
  "ObservationResult_GetStatus = nil_safe [] or_Status"

record get_outbound_status_response =
  gs_Status :: "observation_result option"

definition GetOutboundStatusResponse_GetStatus :: "get_outbound_status_response option \<Rightarrow> observation_result option" where
  "GetOutboundStatusResponse_GetStatus = nil_safe None gs_Status"

record stat =
  st_Name :: gostring
  st_Value :: int

definition Stat_GetName :: "stat option \<Rightarrow> gostring" where
  "Stat_GetName = nil_safe [] st_Name"

definition Stat_GetValue :: "stat option \<Rightarrow> int" where
  "Stat_GetValue = nil_safe 0 st_Value"

record query_stats_request =
  qs_Pattern :: gostring
  qs_Reset :: bool

definition QueryStatsRequest_GetPattern :: "query_stats_request option \<Rightarrow> gostring" where
  "QueryStatsRequest_GetPattern = nil_safe [] qs_Pattern"

definition QueryStatsRequest_GetReset :: "query_stats_request option \<Rightarrow> bool" where
  "QueryStatsRequest_GetReset = nil_safe False qs_Reset"

record query_stats_response =
  qs_Stat :: "stat list"

definition QueryStatsResponse_GetStat :: "query_stats_response option \<Rightarrow> stat list" where
  "QueryStatsResponse_GetStat = nil_safe [] qs_Stat"

record sys_stats_response =
  ss_NumGoroutine :: int
  ss_NumGC :: int
  ss_Alloc :: int
  ss_TotalAlloc :: int
  ss_Sys :: int
  ss_Mallocs :: int
  ss_Frees :: int
  ss_LiveObjects :: int
  ss_PauseTotalNs :: int
  ss_Uptime :: int

definition SysStatsResponse_GetNumGoroutine :: "sys_stats_response option \<Rightarrow> int" where
  "SysStatsResponse_GetNumGoroutine = nil_safe 0 ss_NumGoroutine"

definition SysStatsResponse_GetNumGC :: "sys_stats_response option \<Rightarrow> int" where
  "SysStatsResponse_GetNumGC = nil_safe 0 ss_NumGC"

definition SysStatsResponse_GetAlloc :: "sys_stats_response option \<Rightarrow> int" where
  "SysStatsResponse_GetAlloc = nil_safe 0 ss_Alloc"

definition SysStatsResponse_GetTotalAlloc :: "sys_stats_response option \<Rightarrow> int" where
  "SysStatsResponse_GetTotalAlloc = nil_safe 0 ss_TotalAlloc"

definition SysStatsResponse_GetSys :: "sys_stats_response option \<Rightarrow> int" where
  "SysStatsResponse_GetSys = nil_safe 0 ss_Sys"

definition SysStatsResponse_GetMallocs :: "sys_stats_response option \<Rightarrow> int" where
  "SysStatsResponse_GetMallocs = nil_safe 0 ss_Mallocs"

definition SysStatsResponse_GetFrees :: "sys_stats_response option \<Rightarrow> int" where
  "SysStatsResponse_GetFrees = nil_safe 0 ss_Frees"

definition SysStatsResponse_GetLiveObjects :: "sys_stats_response option \<Rightarrow> int" where
  "SysStatsResponse_GetLiveObjects = nil_safe 0 ss_LiveObjects"

definition SysStatsResponse_GetPauseTotalNs :: "sys_stats_response option \<Rightarrow> int" where
  "SysStatsResponse_GetPauseTotalNs = nil_safe 0 ss_PauseTotalNs"

definition SysStatsResponse_GetUptime :: "sys_stats_response option \<Rightarrow> int" where
  "SysStatsResponse_GetUptime = nil_safe 0 ss_Uptime"

section \<open>Calls\<close>

text \<open>The error of a call, and whether \<open>errors.Is(err, context.Canceled)\<close> holds of it.\<close>

datatype rpc_error = RpcCanceled | RpcFailed

datatype rpc_msg =
    MListOutbounds
  | MGetBalancerInfo get_balancer_info_request
  | MOverrideBalancerTarget override_balancer_target_request
  | MGetOutboundStatus
  | MQueryStats query_stats_request
  | MSysStats

datatype rpc_reply =
    RListOutbounds list_outbounds_response
  | RGetBalancerInfo get_balancer_info_response
  | ROverrideBalancerTarget
  | RGetOutboundStatus get_outbound_status_response
  | RQueryStats query_stats_response
  | RSysStats sys_stats_response

type_synonym rpc_call = "gostring \<times> rpc_msg"

type_synonym grpc_conn = "nat \<Rightarrow> rpc_call \<Rightarrow> rpc_error + rpc_reply"

text \<open>A Go result pair: the response pointer and the error.\<close>

type_synonym 'a rpc_result = "'a option \<times> rpc_error option"

section \<open>Client stubs\<close>

definition listOutbounds_name :: gostring where
  "listOutbounds_name = ''/xray.app.proxyman.command.HandlerService/ListOutbounds''"

definition listOutbounds :: "grpc_conn \<Rightarrow> nat \<Rightarrow> list_outbounds_response rpc_result" where
  "listOutbounds cc n =
     (case cc n (listOutbounds_name, MListOutbounds) of
        Inl e \<Rightarrow> (None, Some e)
      | Inr (RListOutbounds x) \<Rightarrow> (Some x, None)
      | Inr _ \<Rightarrow> (None, Some RpcFailed))"

definition getBalancerInfo_name :: gostring where
  "getBalancerInfo_name = ''/xray.app.router.command.RoutingService/GetBalancerInfo''"

definition getBalancerInfo :: "grpc_conn \<Rightarrow> nat \<Rightarrow> get_balancer_info_request \<Rightarrow> get_balancer_info_response rpc_result" where
  "getBalancerInfo cc n m =
     (case cc n (getBalancerInfo_name, (MGetBalancerInfo m)) of
        Inl e \<Rightarrow> (None, Some e)
      | Inr (RGetBalancerInfo x) \<Rightarrow> (Some x, None)
      | Inr _ \<Rightarrow> (None, Some RpcFailed))"

definition overrideBalancerTarget_name :: gostring where
  "overrideBalancerTarget_name = ''/xray.app.router.command.RoutingService/OverrideBalancerTarget''"

definition overrideBalancerTarget :: "grpc_conn \<Rightarrow> nat \<Rightarrow> override_balancer_target_request \<Rightarrow> unit rpc_result" where
  "overrideBalancerTarget cc n m =
     (case cc n (overrideBalancerTarget_name, (MOverrideBalancerTarget m)) of
        Inl e \<Rightarrow> (None, Some e)
      | Inr (ROverrideBalancerTarget) \<Rightarrow> (Some (), None)
      | Inr _ \<Rightarrow> (None, Some RpcFailed))"

definition getOutboundStatus_name :: gostring where
  "getOutboundStatus_name = ''/xray.core.app.observatory.command.ObservatoryService/GetOutboundStatus''"

definition getOutboundStatus :: "grpc_conn \<Rightarrow> nat \<Rightarrow> get_outbound_status_response rpc_result" where
  "getOutboundStatus cc n =
     (case cc n (getOutboundStatus_name, MGetOutboundStatus) of
        Inl e \<Rightarrow> (None, Some e)
      | Inr (RGetOutboundStatus x) \<Rightarrow> (Some x, None)
      | Inr _ \<Rightarrow> (None, Some RpcFailed))"

definition queryStats_name :: gostring where
  "queryStats_name = ''/xray.app.stats.command.StatsService/QueryStats''"

definition queryStats :: "grpc_conn \<Rightarrow> nat \<Rightarrow> query_stats_request \<Rightarrow> query_stats_response rpc_result" where
  "queryStats cc n m =
     (case cc n (queryStats_name, (MQueryStats m)) of
        Inl e \<Rightarrow> (None, Some e)
      | Inr (RQueryStats x) \<Rightarrow> (Some x, None)
      | Inr _ \<Rightarrow> (None, Some RpcFailed))"

definition getSysStats_name :: gostring where
  "getSysStats_name = ''/xray.app.stats.command.StatsService/GetSysStats''"

definition getSysStats :: "grpc_conn \<Rightarrow> nat \<Rightarrow> sys_stats_response rpc_result" where
  "getSysStats cc n =
     (case cc n (getSysStats_name, MSysStats) of
        Inl e \<Rightarrow> (None, Some e)
      | Inr (RSysStats x) \<Rightarrow> (Some x, None)
      | Inr _ \<Rightarrow> (None, Some RpcFailed))"

text \<open>A stub returns a response exactly when it returns no error.\<close>

lemma stub_result:
  "(fst (listOutbounds cc n) = None) = (snd (listOutbounds cc n) \<noteq> None)"
  "(fst (getBalancerInfo cc n m1) = None) = (snd (getBalancerInfo cc n m1) \<noteq> None)"
  "(fst (overrideBalancerTarget cc n m2) = None) = (snd (overrideBalancerTarget cc n m2) \<noteq> None)"
  "(fst (getOutboundStatus cc n) = None) = (snd (getOutboundStatus cc n) \<noteq> None)"
  "(fst (queryStats cc n m3) = None) = (snd (queryStats cc n m3) \<noteq> None)"
  "(fst (getSysStats cc n) = None) = (snd (getSysStats cc n) \<noteq> None)"
  by (auto simp: listOutbounds_def getBalancerInfo_def overrideBalancerTarget_def getOutboundStatus_def
      queryStats_def getSysStats_def split: sum.split rpc_reply.split)

end
