(* ===== verification/ServerState.thy ===== *)
theory ServerState
  imports Middleware Config SseManager Broadcaster XrayProto
begin

text \<open>
  The state of server/server.go's \<open>Server\<close>: configuration, connection manager, clients, the
  three caches (health, observatory, excluded tags) and the broadcaster, with the
  operations that read and write the caches. The gRPC connection answers the n-th call made;
  the calls are recorded in order (\<open>s_calls\<close>).

  A slice or map that may be nil is an option. The clock readings are those of \<^typ>\<open>world\<close>.
\<close>

section \<open>Data\<close>

record out_status =
  od_tag :: gostring
  od_alive :: bool
  od_delay :: int

record stats_data =
  sd_uplink :: int
  sd_downlink :: int
  sd_uplink_bps :: float64
  sd_downlink_bps :: float64
  sd_uptime :: int
  sd_sys_mem :: int
  sd_goroutines :: int
  sd_outbounds :: "out_status list option"
  sd_degraded :: bool

record cached_health =
  ch_status :: gostring
  ch_timestamp :: time
  ch_stale :: bool
  ch_ttl :: duration

record cached_observatory =
  co_data :: "out_status list option"
  co_timestamp :: time

type_synonym tag_set = "(gostring, unit) gomap"

record cached_excluded =
  ce_tags :: "tag_set option"
  ce_timestamp :: time

record srv_world = mw_world +
  s_config :: config
  s_handlerClient :: bool
  s_observatoryClient :: bool
  s_conn :: grpc_conn
  s_calls :: "rpc_call list"
  s_mgr :: manager
  s_startTime :: time
  s_health :: cached_health
  s_obs :: cached_observatory
  s_excl :: cached_excluded
  s_broadcaster :: "(stats_data, json) bcast"
  s_bpsUplinkWarnLast :: int
  s_bpsDownlinkWarnLast :: int
  s_ctxDone :: bool

text \<open>
  \<open>s_handlerClient\<close> and \<open>s_observatoryClient\<close> say that the client is not nil; \<open>NewServer\<close> sets both.
  \<open>s_ctxDone\<close> says that the server's own context was cancelled.
\<close>

definition zero_health :: cached_health where
  "zero_health = \<lparr>ch_status = [], ch_timestamp = 0, ch_stale = False, ch_ttl = 0\<rparr>"

definition zero_observatory :: cached_observatory where
  "zero_observatory = \<lparr>co_data = None, co_timestamp = 0\<rparr>"

definition zero_excluded :: cached_excluded where
  "zero_excluded = \<lparr>ce_tags = None, ce_timestamp = 0\<rparr>"

text \<open>\<open>NewServer\<close> on a given environment (clock, connection) and middleware state.\<close>

definition newServer :: "config \<Rightarrow> grpc_conn \<Rightarrow> manager \<Rightarrow> time \<Rightarrow> mw_world \<Rightarrow> srv_world" where
  "newServer cfg cc mgr startTime m =
     mw_world.extend m
       (srv_world.fields cfg True True cc [] mgr startTime zero_health zero_observatory zero_excluded newBroadcaster 0 0 False)"

section \<open>Calls\<close>

text \<open>The number of the next call, and the state after it.\<close>

definition call_no :: "'a srv_world_scheme \<Rightarrow> nat" where
  "call_no w = length (s_calls w)"

definition called :: "gostring \<Rightarrow> rpc_msg \<Rightarrow> 'a srv_world_scheme \<Rightarrow> 'a srv_world_scheme" where
  "called name m w = w\<lparr>s_calls := s_calls w @ [(name, m)]\<rparr>"

section \<open>Copies\<close>

text \<open>A copy has the value of the original; nil stays nil.\<close>

definition cloneMap :: "('k, 'v) gomap option \<Rightarrow> ('k, 'v) gomap option" where
  "cloneMap m =
     (case m of None \<Rightarrow> None | Some kvs \<Rightarrow> Some (fold (\<lambda>(k, v) c. AList.update k v c) kvs []))"

definition cloneSlice :: "'a list option \<Rightarrow> 'a list option" where
  "cloneSlice xs = (case xs of None \<Rightarrow> None | Some ys \<Rightarrow> Some ([] @ ys))"

lemma cloneSlice_id [simp]: "cloneSlice xs = xs"
  by (simp add: cloneSlice_def split: option.split)

lemma clone_fold:
  "gm_wf (acc @ kvs) \<Longrightarrow> fold (\<lambda>(k, v) c. AList.update k v c) kvs acc = acc @ kvs"
proof (induction kvs arbitrary: acc)
  case (Cons kv kvs)
  obtain k v where kv: "kv = (k, v)" by (cases kv)
  have "k \<notin> fst ` set acc" using Cons.prems by (auto simp: kv gm_wf_def)
  then have "AList.update k v acc = acc @ [(k, v)]" by (induction acc) auto
  with Cons.IH [of "acc @ [(k, v)]"] Cons.prems show ?case by (simp add: kv)
qed simp

lemma cloneMap_id: "(case m of None \<Rightarrow> True | Some kvs \<Rightarrow> gm_wf kvs) \<Longrightarrow> cloneMap m = m"
  using clone_fold [of "[]"] by (auto simp: cloneMap_def split: option.split)

section \<open>Caches that expire\<close>

text \<open>
  A cache entry with a time stamp: readable while it is younger than the time to live. The zero
  time stamp of an empty cache is centuries old for any clock of this era.
\<close>

definition cache_get :: "('c \<Rightarrow> 'v option) \<Rightarrow> ('c \<Rightarrow> time) \<Rightarrow> duration \<Rightarrow> time \<Rightarrow> 'c \<Rightarrow> 'v option" where
  "cache_get stored stamp ttl now c = (if time_sub now (stamp c) < ttl then stored c else None)"

definition this_era :: "time \<Rightarrow> bool" where
  "this_era t = (max_duration \<le> t)"

locale ttl_cache =
  fixes stored :: "'c \<Rightarrow> 'v option"
    and stamp :: "'c \<Rightarrow> time"
    and put :: "'v option \<Rightarrow> time \<Rightarrow> 'c"
    and empty :: 'c
    and ttl :: duration
  assumes stored_put: "stored (put v t) = v"
    and stamp_put: "stamp (put v t) = t"
    and stamp_empty: "stamp empty = 0"
    and ttl_pos: "0 < ttl"
    and ttl_max: "ttl \<le> max_duration"
begin

lemma get_put:
  assumes "t \<le> now"
  shows "cache_get stored stamp ttl now (put v t) = (if now - t < ttl then v else None)"
  using assms ttl_max
  by (auto simp: cache_get_def stored_put stamp_put time_sub_def min_duration_def max_duration_def)

lemma get_empty: "this_era now \<Longrightarrow> cache_get stored stamp ttl now empty = None"
  using ttl_max
  by (simp add: cache_get_def stamp_empty time_sub_def this_era_def min_duration_def max_duration_def)

lemma get_put_same: "cache_get stored stamp ttl t (put v t) = v"
  using get_put [of t t v] ttl_pos by simp

end

definition observatoryCacheTTL :: duration where
  "observatoryCacheTTL = 2 * second"

definition put_observatory :: "out_status list option \<Rightarrow> time \<Rightarrow> cached_observatory" where
  "put_observatory d t = \<lparr>co_data = d, co_timestamp = t\<rparr>"

definition put_excluded :: "tag_set option \<Rightarrow> time \<Rightarrow> cached_excluded" where
  "put_excluded d t = \<lparr>ce_tags = d, ce_timestamp = t\<rparr>"

interpretation obs_cache: ttl_cache co_data co_timestamp put_observatory zero_observatory observatoryCacheTTL
  by unfold_locales
    (simp_all add: put_observatory_def zero_observatory_def observatoryCacheTTL_def go_defs max_duration_def)

interpretation excl_cache: ttl_cache ce_tags ce_timestamp put_excluded zero_excluded observatoryCacheTTL
  by unfold_locales
    (simp_all add: put_excluded_def zero_excluded_def observatoryCacheTTL_def go_defs max_duration_def)

section \<open>Observatory\<close>

definition obsSnapshot :: "'a srv_world_scheme \<Rightarrow> out_status list option \<times> 'a srv_world_scheme" where
  "obsSnapshot w =
     (if time_sub (time_now w) (co_timestamp (s_obs w)) < observatoryCacheTTL
      then cloneSlice (co_data (s_obs w)) else None, tick w)"

definition updateObsCache :: "out_status list option \<Rightarrow> 'a srv_world_scheme \<Rightarrow> 'a srv_world_scheme" where
  "updateObsCache data w =
     (tick w)\<lparr>s_obs := \<lparr>co_data = cloneSlice data, co_timestamp = time_now w\<rparr>\<rparr>"

definition to_out_status :: "outbound_status \<Rightarrow> out_status" where
  "to_out_status st = \<lparr>od_tag = os_OutboundTag st, od_alive = os_Alive st, od_delay = os_Delay st\<rparr>"

text \<open>The statuses of an answer; an error or a missing part counts as none.\<close>

definition answered_statuses :: "get_outbound_status_response rpc_result \<Rightarrow> out_status list" where
  "answered_statuses res =
     (case res of
        (_, Some _) \<Rightarrow> []
      | (resp, None) \<Rightarrow>
          (case Option.bind resp gs_Status of
             None \<Rightarrow> []
           | Some result \<Rightarrow> map to_out_status (or_Status result)))"

definition refresh_observatory :: "'a srv_world_scheme \<Rightarrow> 'a srv_world_scheme" where
  "refresh_observatory w =
     (let res = getOutboundStatus (s_conn w) (call_no w) in
      updateObsCache (Some (answered_statuses res)) (called getOutboundStatus_name MGetOutboundStatus w))"

definition getAllOutboundStatuses ::
  "'a srv_world_scheme \<Rightarrow> out_status list option \<times> 'a srv_world_scheme" where
  "getAllOutboundStatuses w =
     (if \<not> s_observatoryClient w then (Some [], w)
      else if time_sub (time_now w) (co_timestamp (s_obs w)) < observatoryCacheTTL
      then (cloneSlice (co_data (s_obs w)), tick w)
      else (case obsSnapshot (refresh_observatory (tick w)) of
              (Some snapshot, w1) \<Rightarrow> (Some snapshot, w1)
            | (None, w1) \<Rightarrow> (Some [], w1)))"

section \<open>JSON of the data\<close>

definition out_status_json :: "out_status \<Rightarrow> json" where
  "out_status_json d =
     JObj [(''tag'', JStr (od_tag d)), (''alive'', JBool (od_alive d)), (''delay'', JInt (od_delay d))]"

definition slice_json :: "('a \<Rightarrow> json) \<Rightarrow> 'a list option \<Rightarrow> json" where
  "slice_json f xs = (case xs of None \<Rightarrow> JNull | Some ys \<Rightarrow> JArr (map f ys))"

end
