(* ===== verification/Outbounds.thy ===== *)
theory Outbounds
  imports ServerState
begin

text \<open>
  server/handleroutbound.go: the outbound list, the status and the current outbound, the choice
  of the best node, and the switch. \<open>unicode.ToLower\<close> beyond ASCII is an argument (\<open>uni_lower\<close>).
\<close>

section \<open>Protocols\<close>

definition excludeProtocols :: "gostring list" where
  "excludeProtocols = [''loopback'', ''freedom'', ''dns'', ''blackhole'']"

definition parseProtocol :: "(rune \<Rightarrow> rune) \<Rightarrow> typed_message option \<Rightarrow> gostring" where
  "parseProtocol uni_lower settings =
     (case settings of
        None \<Rightarrow> ''unknown''
      | Some m \<Rightarrow>
          if tm_Type m = [] then ''unknown''
          else (let parts = split_on (CHR ''.'') (tm_Type m) in
                if length parts < 3 then toLower uni_lower (parts ! (length parts - 1))
                else toLower uni_lower (parts ! 2)))"

definition isValidOutbound :: "gostring \<Rightarrow> bool" where
  "isValidOutbound protocolName = (protocolName \<notin> set excludeProtocols)"

record outbound_info =
  oi_tag :: gostring
  oi_protocol :: gostring

definition listed_outbounds :: "(rune \<Rightarrow> rune) \<Rightarrow> outbound_handler_config list \<Rightarrow> outbound_info list" where
  "listed_outbounds uni_lower obs =
     concat (map (\<lambda>ob.
       if ob_Tag ob = [] then []
       else (let p = parseProtocol uni_lower (ob_ProxySettings ob) in
             if isValidOutbound p then [\<lparr>oi_tag = ob_Tag ob, oi_protocol = p\<rparr>] else [])) obs)"

definition outbound_info_json :: "outbound_info \<Rightarrow> json" where
  "outbound_info_json i = JObj [(''tag'', JStr (oi_tag i)), (''protocol'', JStr (oi_protocol i))]"

section \<open>Messages\<close>

definition msg_outbounds_failed :: gostring where
  "msg_outbounds_failed = utf8_lit
     [232, 142, 183, 229, 143, 150, 229, 135, 186, 231, 171, 153, 229, 136, 151, 232, 161,
      168, 229, 164, 177, 232, 180, 165]"

definition msg_outbounds_empty :: gostring where
  "msg_outbounds_empty = utf8_lit
     [230, 148, 182, 229, 136, 176, 231, 169, 186, 231, 154, 132, 229, 135, 186, 231, 171,
      153, 229, 136, 151, 232, 161, 168, 229, 147, 141, 229, 186, 148]"

definition msg_balancer_failed :: gostring where
  "msg_balancer_failed = utf8_lit
     [232, 142, 183, 229, 143, 150, 232, 180, 159, 232, 189, 189, 229, 157, 135, 232, 161,
      161, 229, 153, 168, 228, 191, 161, 230, 129, 175, 229, 164, 177, 232, 180, 165]"

definition msg_balancer_empty :: gostring where
  "msg_balancer_empty = utf8_lit
     [230, 148, 182, 229, 136, 176, 231, 169, 186, 231, 154, 132, 232, 180, 159, 232, 189,
      189, 229, 157, 135, 232, 161, 161, 229, 153, 168, 229, 147, 141, 229, 186, 148]"

definition msg_bad_body :: gostring where
  "msg_bad_body = utf8_lit
     [230, 151, 160, 230, 149, 136, 231, 154, 132, 232, 175, 183, 230, 177, 130, 228, 189, 147]"

definition msg_tag_too_long :: gostring where
  "msg_tag_too_long = utf8_lit
     [229, 135, 186, 231, 171, 153, 230, 160, 135, 231, 173, 190, 232, 191, 135, 233, 149, 191]"

definition msg_tag_illegal :: gostring where
  "msg_tag_illegal = utf8_lit
     [229, 135, 186, 231, 171, 153, 230, 160, 135, 231, 173, 190, 229, 140, 133, 229, 144,
      171, 233, 157, 158, 230, 179, 149, 229, 173, 151, 231, 172, 166]"

definition msg_switch_failed :: gostring where
  "msg_switch_failed = utf8_lit
     [229, 136, 135, 230, 141, 162, 229, 135, 186, 231, 171, 153, 229, 164, 177, 232, 180, 165]"

section \<open>Listing\<close>

definition handleGetOutbounds :: "(rune \<Rightarrow> rune) \<Rightarrow> ('a srv_world_scheme) handler" where
  "handleGetOutbounds uni_lower r w =
     (let w1 = called listOutbounds_name MListOutbounds w in
      case listOutbounds (s_conn w) (call_no w) of
        (_, Some _) \<Rightarrow> Done (on_rw (jsonError msg_outbounds_failed 500 ''server'') w1)
      | (None, None) \<Rightarrow> Done (on_rw (jsonError msg_outbounds_empty 502 ''bad_gateway'') w1)
      | (Some resp, None) \<Rightarrow>
          Done (on_rw (jsonResponse
            (JArr (map outbound_info_json (listed_outbounds uni_lower (lo_Outbounds resp)))) 200) w1))"

definition handleGetOutboundsStatus :: "('a srv_world_scheme) handler" where
  "handleGetOutboundsStatus r w =
     (case getAllOutboundStatuses w of
        (statuses, w1) \<Rightarrow> Done (on_rw (jsonResponse (slice_json out_status_json statuses) 200) w1))"

section \<open>Excluded tags\<close>

definition excludedTagsSnapshot :: "'a srv_world_scheme \<Rightarrow> tag_set option \<times> 'a srv_world_scheme" where
  "excludedTagsSnapshot w =
     (if time_sub (time_now w) (ce_timestamp (s_excl w)) < observatoryCacheTTL
      then cloneMap (ce_tags (s_excl w)) else None, tick w)"

definition updateExcludedTagsCache :: "tag_set option \<Rightarrow> 'a srv_world_scheme \<Rightarrow> 'a srv_world_scheme" where
  "updateExcludedTagsCache tags w =
     (tick w)\<lparr>s_excl := \<lparr>ce_tags = cloneMap tags, ce_timestamp = time_now w\<rparr>\<rparr>"

definition excluded_of :: "(rune \<Rightarrow> rune) \<Rightarrow> outbound_handler_config list \<Rightarrow> tag_set" where
  "excluded_of uni_lower obs =
     fold (\<lambda>ob excluded.
       if parseProtocol uni_lower (ob_ProxySettings ob) \<in> set excludeProtocols
       then AList.update (ob_Tag ob) () excluded else excluded) obs []"

definition refresh_excluded :: "(rune \<Rightarrow> rune) \<Rightarrow> 'a srv_world_scheme \<Rightarrow> 'a srv_world_scheme" where
  "refresh_excluded uni_lower w =
     (if \<not> s_handlerClient w then updateExcludedTagsCache (Some []) w
      else
       (let w1 = called listOutbounds_name MListOutbounds w in
        case listOutbounds (s_conn w) (call_no w) of
          (_, Some _) \<Rightarrow> updateExcludedTagsCache (Some []) w1
        | (None, None) \<Rightarrow> updateExcludedTagsCache (Some []) w1
        | (Some resp, None) \<Rightarrow> updateExcludedTagsCache (Some (excluded_of uni_lower (lo_Outbounds resp))) w1))"

definition buildExcludedTags :: "(rune \<Rightarrow> rune) \<Rightarrow> 'a srv_world_scheme \<Rightarrow> tag_set \<times> 'a srv_world_scheme" where
  "buildExcludedTags uni_lower w =
     (case excludedTagsSnapshot w of
        (Some snapshot, w1) \<Rightarrow> (snapshot, w1)
      | (None, w1) \<Rightarrow>
          (case excludedTagsSnapshot (refresh_excluded uni_lower w1) of
             (Some snapshot, w2) \<Rightarrow> (snapshot, w2)
           | (None, w2) \<Rightarrow> ([], w2)))"

section \<open>The current outbound\<close>

text \<open>The scan of the statuses: best node so far, its delay, first node alive.\<close>

definition scan_status ::
  "tag_set \<Rightarrow> out_status \<Rightarrow> gostring \<times> int \<times> gostring \<Rightarrow> gostring \<times> int \<times> gostring" where
  "scan_status excluded st acc =
     (case acc of (bestNode, minDelay, firstAlive) \<Rightarrow>
        if od_tag st \<in> set (gm_keys excluded) then acc
        else if \<not> od_alive st then acc
        else
         (let fa = (if firstAlive = [] then od_tag st else firstAlive) in
          if 0 < od_delay st \<and> od_delay st < minDelay then (od_tag st, od_delay st, fa)
          else (bestNode, minDelay, fa)))"

definition best_node :: "tag_set \<Rightarrow> out_status list \<Rightarrow> gostring" where
  "best_node excluded statuses =
     (case fold (scan_status excluded) statuses ([], 2 ^ 63 - 1, []) of
        (bestNode, _, firstAlive) \<Rightarrow> if bestNode \<noteq> [] then bestNode else firstAlive)"

definition findBestAvailableNode :: "(rune \<Rightarrow> rune) \<Rightarrow> 'a srv_world_scheme \<Rightarrow> gostring \<times> 'a srv_world_scheme" where
  "findBestAvailableNode uni_lower w =
     (if \<not> s_observatoryClient w then ([], w)
      else
       (case getAllOutboundStatuses w of
          (statuses, w1) \<Rightarrow>
            (case statuses of
               None \<Rightarrow> ([], w1)
             | Some xs \<Rightarrow>
                 if xs = [] then ([], w1)
                 else (case buildExcludedTags uni_lower w1 of
                         (excluded, w2) \<Rightarrow> (best_node excluded xs, w2)))))"

definition current_json :: "gostring \<Rightarrow> bool \<Rightarrow> gostring \<Rightarrow> json" where
  "current_json current auto activeNode =
     JObj ([(''current'', JStr current), (''auto'', JBool auto)] @
           (if activeNode = [] then [] else [(''active_node'', JStr activeNode)]))"

text \<open>The override target of an answer, empty when there is none.\<close>

definition override_target :: "get_balancer_info_response \<Rightarrow> gostring" where
  "override_target resp =
     (case Option.bind (bi_Balancer resp) bm_Override of None \<Rightarrow> [] | Some ov \<Rightarrow> ov_Target ov)"

definition handleGetCurrentOutbound :: "(rune \<Rightarrow> rune) \<Rightarrow> ('a srv_world_scheme) handler" where
  "handleGetCurrentOutbound uni_lower r w =
     (let m = \<lparr>bi_Tag = BalancerTag (cfg_xray (s_config w))\<rparr>;
          w1 = called getBalancerInfo_name (MGetBalancerInfo m) w in
      case getBalancerInfo (s_conn w) (call_no w) m of
        (_, Some _) \<Rightarrow> Done (on_rw (jsonError msg_balancer_failed 502 ''bad_gateway'') w1)
      | (None, None) \<Rightarrow> Done (on_rw (jsonError msg_balancer_empty 502 ''bad_gateway'') w1)
      | (Some resp, None) \<Rightarrow>
          (let current = override_target resp; auto = (current = []);
               (activeNode, w2) = (if auto then findBestAvailableNode uni_lower w1 else ([], w1)) in
           Done (on_rw (jsonResponse (current_json current auto activeNode) 200) w2)))"

section \<open>The switch\<close>

datatype tag_error = TagTooLong | TagIllegal

definition tag_char :: "rune \<Rightarrow> bool" where
  "tag_char c =
     (97 \<le> c \<and> c \<le> 122 \<or> 65 \<le> c \<and> c \<le> 90 \<or> 48 \<le> c \<and> c \<le> 57 \<or> c = 45 \<or> c = 95 \<or> c = 46 \<or> c = 58)"

definition validateOutboundTag :: "gostring \<Rightarrow> tag_error option" where
  "validateOutboundTag tag =
     (if 256 < length tag then Some TagTooLong
      else if tag = [] then None
      else if list_all tag_char (runes tag) then None else Some TagIllegal)"

fun tag_error_message :: "tag_error \<Rightarrow> gostring" where
  "tag_error_message TagTooLong = msg_tag_too_long"
| "tag_error_message TagIllegal = msg_tag_illegal"

text \<open>
  Decoding the body into the request struct: keys match regardless of ASCII case, null leaves the
  field, a value of another type is an error, unknown keys are skipped, the last match wins.
\<close>

definition tag_key :: "gostring \<Rightarrow> bool" where
  "tag_key k = (map (\<lambda>c. ascii_lower (byte_of c)) k = map byte_of ''outbound_tag'')"

fun decode_fields :: "(gostring \<times> json) list \<Rightarrow> gostring option \<Rightarrow> gostring option" where
  "decode_fields [] acc = acc"
| "decode_fields ((k, v) # kvs) acc =
     decode_fields kvs
       (if \<not> tag_key k then acc
        else (case v of
                JStr s \<Rightarrow> map_option (\<lambda>_. s) acc
              | JNull \<Rightarrow> acc
              | _ \<Rightarrow> None))"

definition decode_switch :: "json option \<Rightarrow> gostring option" where
  "decode_switch body =
     (case body of
        Some (JObj kvs) \<Rightarrow> decode_fields kvs (Some [])
      | Some JNull \<Rightarrow> Some []
      | _ \<Rightarrow> None)"

definition success_json :: json where
  "success_json = JObj [(''status'', JStr ''success'')]"

definition invalidate_caches :: "'a srv_world_scheme \<Rightarrow> 'a srv_world_scheme" where
  "invalidate_caches w = w\<lparr>s_health := zero_health\<lparr>ch_stale := True\<rparr>, s_obs := zero_observatory\<rparr>"

definition handleSwitchOutbound :: "('a srv_world_scheme) handler" where
  "handleSwitchOutbound r w =
     (case decode_switch (req_body r) of
        None \<Rightarrow> Done (on_rw (jsonError msg_bad_body 400 ''validation'') w)
      | Some tag \<Rightarrow>
          (case validateOutboundTag tag of
             Some e \<Rightarrow> Done (on_rw (jsonError (tag_error_message e) 400 ''validation'') w)
           | None \<Rightarrow>
               (let m = \<lparr>ot_BalancerTag = BalancerTag (cfg_xray (s_config w)), ot_Target = tag\<rparr>;
                    w1 = called overrideBalancerTarget_name (MOverrideBalancerTarget m) w in
                case overrideBalancerTarget (s_conn w) (call_no w) m of
                  (_, Some _) \<Rightarrow> Done (on_rw (jsonError msg_switch_failed 500 ''server'') w1)
                | (_, None) \<Rightarrow> Done (on_rw (jsonResponse success_json 200) (invalidate_caches w1)))))"

end
