(* ===== verification/OutboundsProps.thy ===== *)
theory OutboundsProps
  imports Outbounds
begin

text \<open>
  What the outbound handlers guarantee: the tag check, the switch, the choice of the best node,
  the agreement of the listed and the excluded outbounds, and the observatory cache.
\<close>

section \<open>State frames\<close>

lemma called_sel [simp]:
  "w_rw (called n m w) = w_rw w" "w_clk (called n m w) = w_clk w" "w_iter (called n m w) = w_iter w"
  "w_ticks (called n m w) = w_ticks w" "w_access (called n m w) = w_access w"
  "s_config (called n m w) = s_config w" "s_conn (called n m w) = s_conn w"
  "s_calls (called n m w) = s_calls w @ [(n, m)]" "s_obs (called n m w) = s_obs w"
  "s_excl (called n m w) = s_excl w" "s_health (called n m w) = s_health w" "s_mgr (called n m w) = s_mgr w"
  "s_handlerClient (called n m w) = s_handlerClient w"
  "s_observatoryClient (called n m w) = s_observatoryClient w"
  "s_startTime (called n m w) = s_startTime w" "s_broadcaster (called n m w) = s_broadcaster w"
  by (simp_all add: called_def)

lemma srv_tick_sel [simp]:
  "s_config (tick w) = s_config w" "s_conn (tick w) = s_conn w" "s_calls (tick w) = s_calls w"
  "s_obs (tick w) = s_obs w" "s_excl (tick w) = s_excl w" "s_health (tick w) = s_health w"
  "s_mgr (tick w) = s_mgr w" "s_handlerClient (tick w) = s_handlerClient w"
  "s_observatoryClient (tick w) = s_observatoryClient w" "s_startTime (tick w) = s_startTime w"
  "s_broadcaster (tick w) = s_broadcaster w"
  by (simp_all add: tick_def)

lemma srv_on_rw_sel [simp]:
  "s_config (on_rw f w) = s_config w" "s_conn (on_rw f w) = s_conn w" "s_calls (on_rw f w) = s_calls w"
  "s_obs (on_rw f w) = s_obs w" "s_excl (on_rw f w) = s_excl w" "s_health (on_rw f w) = s_health w"
  "s_mgr (on_rw f w) = s_mgr w" "s_handlerClient (on_rw f w) = s_handlerClient w"
  "s_observatoryClient (on_rw f w) = s_observatoryClient w" "s_startTime (on_rw f w) = s_startTime w"
  "s_broadcaster (on_rw f w) = s_broadcaster w"
  by (simp_all add: on_rw_def)

lemma invalidate_caches_sel [simp]:
  "w_rw (invalidate_caches w) = w_rw w" "s_calls (invalidate_caches w) = s_calls w"
  "s_obs (invalidate_caches w) = zero_observatory" "s_excl (invalidate_caches w) = s_excl w"
  "ch_stale (s_health (invalidate_caches w))" "s_config (invalidate_caches w) = s_config w"
  "s_mgr (invalidate_caches w) = s_mgr w"
  by (simp_all add: invalidate_caches_def)

lemma updateObsCache_sel [simp]:
  "s_calls (updateObsCache d w) = s_calls w"
  "s_obs (updateObsCache d w) = put_observatory d (time_now w)"
  "w_clk (updateObsCache d w) = w_clk w" "w_ticks (updateObsCache d w) = Suc (w_ticks w)"
  "s_observatoryClient (updateObsCache d w) = s_observatoryClient w"
  "s_conn (updateObsCache d w) = s_conn w" "w_rw (updateObsCache d w) = w_rw w"
  "s_config (updateObsCache d w) = s_config w"
  by (simp_all add: updateObsCache_def put_observatory_def)

section \<open>The clock of this era\<close>

definition wall_ok :: "'a world_scheme \<Rightarrow> bool" where
  "wall_ok w = (\<forall>i. this_era (w_clk w i) \<and> w_clk w i \<le> w_clk w (Suc i))"

lemma wall_era: "wall_ok w \<Longrightarrow> this_era (time_now w)"
  by (simp add: wall_ok_def time_now_def)

lemma obsSnapshot_get:
  "obsSnapshot w = (cache_get co_data co_timestamp observatoryCacheTTL (time_now w) (s_obs w), tick w)"
  by (simp add: obsSnapshot_def cache_get_def)

lemma getAll_get:
  assumes "s_observatoryClient w"
  shows "getAllOutboundStatuses w =
    (if time_sub (time_now w) (co_timestamp (s_obs w)) < observatoryCacheTTL
     then (cache_get co_data co_timestamp observatoryCacheTTL (time_now w) (s_obs w), tick w)
     else (case obsSnapshot (refresh_observatory (tick w)) of
             (Some snapshot, w1) \<Rightarrow> (Some snapshot, w1) | (None, w1) \<Rightarrow> (Some [], w1)))"
  using assms by (simp add: getAllOutboundStatuses_def cache_get_def)

section \<open>Tags\<close>

lemma tag_char_ascii: "tag_char c \<Longrightarrow> c < 128"
  by (auto simp: tag_char_def)

lemma validate_tag_iff:
  "validateOutboundTag tag = None \<longleftrightarrow> length tag \<le> 256 \<and> (\<forall>ch\<in>set tag. tag_char (byte_of ch))"
proof -
  have "list_all tag_char (runes tag) = list_all (\<lambda>c. tag_char (byte_of c)) tag"
    by (rule list_all_runes_ascii) (rule tag_char_ascii)
  then show ?thesis by (auto simp: validateOutboundTag_def list_all_iff)
qed


text \<open>A body that switches to \<open>node-1\<close>, on a server whose connection answers every call.\<close>

definition ok_conn :: grpc_conn where
  "ok_conn n c =
     (case snd c of
        MListOutbounds \<Rightarrow> Inr (RListOutbounds \<lparr>lo_Outbounds = []\<rparr>)
      | MGetBalancerInfo m \<Rightarrow> Inr (RGetBalancerInfo \<lparr>bi_Balancer = None\<rparr>)
      | MOverrideBalancerTarget m \<Rightarrow> Inr ROverrideBalancerTarget
      | MGetOutboundStatus \<Rightarrow> Inr (RGetOutboundStatus \<lparr>gs_Status = None\<rparr>)
      | MQueryStats m \<Rightarrow> Inr (RQueryStats \<lparr>qs_Stat = []\<rparr>)
      | MSysStats \<Rightarrow> Inl RpcFailed)"

definition sample_server :: srv_world where
  "sample_server =
     newServer newDefaultConfig ok_conn newManager (2 ^ 63)
       \<lparr>w_clk = (\<lambda>i. 2 ^ 63 + int i), w_iter = (\<lambda>_ ks. ks), w_ticks = 0, w_rw = empty_response,
        w_access = [], g_limiter = limiter, g_authLimiter = authLimiter, g_noCredLimiter = noCredLimiter\<rparr>"

lemma sample_server_sel [simp]:
  "w_rw sample_server = empty_response" "w_clk sample_server = (\<lambda>i. 2 ^ 63 + int i)"
  "w_ticks sample_server = 0" "s_conn sample_server = ok_conn" "s_calls sample_server = []"
  "s_obs sample_server = zero_observatory" "s_health sample_server = zero_health"
  "s_excl sample_server = zero_excluded" "s_observatoryClient sample_server"
  "s_handlerClient sample_server" "s_config sample_server = newDefaultConfig"
  "s_mgr sample_server = newManager" "s_startTime sample_server = 2 ^ 63"
  "s_broadcaster sample_server = newBroadcaster"
  by (simp_all add: sample_server_def newServer_def mw_world.defs srv_world.defs)

lemma sample_server_wall: "wall_ok sample_server"
  by (simp add: wall_ok_def this_era_def max_duration_def)

definition switch_request :: request where
  "switch_request =
     \<lparr>req_method = ''POST'', req_path = ''/api/switch-outbound'', req_headers = [], req_query = [],
      req_remote = ''10.0.0.9:5000'', req_body = Some (JObj [(''outbound_tag'', JStr ''node-1'')]),
      req_ctx_ip = None\<rparr>"

lemma empty_response_status [simp]: "rw_status empty_response = None"
  by (simp add: empty_response_def)


text \<open>
  A body without a tag is not rejected: null, an empty object, or an object with unknown keys
  only resets the override, as the empty tag does.
\<close>

theorem switch_without_tag_resets:
  assumes "list_all (\<lambda>(k, v). \<not> tag_key k) kvs"
  shows "decode_switch (Some (JObj kvs)) = Some [] \<and> decode_switch (Some JNull) = Some [] \<and>
    validateOutboundTag [] = None"
proof -
  have "decode_fields kvs acc = acc" for acc using assms by (induction kvs arbitrary: acc) auto
  then show ?thesis by (simp add: decode_switch_def validateOutboundTag_def)
qed

theorem switch_without_tag_resets_witness:
  "decode_switch (Some (JObj [(''outbound'', JStr ''node-1'')])) = Some [] \<and> decode_switch (Some JNull) = Some [] \<and>
    validateOutboundTag [] = None"
  by (rule switch_without_tag_resets) (simp add: tag_key_def ascii_lower_def)

section \<open>The best node\<close>

abbreviation candidate :: "tag_set \<Rightarrow> out_status \<Rightarrow> bool" where
  "candidate excluded st \<equiv> od_alive st \<and> od_tag st \<notin> set (gm_keys excluded)"

definition first_tag :: "out_status list \<Rightarrow> gostring" where
  "first_tag xs = (case xs of [] \<Rightarrow> [] | c # _ \<Rightarrow> od_tag c)"

definition scan_ok :: "tag_set \<Rightarrow> out_status list \<Rightarrow> gostring \<times> int \<times> gostring \<Rightarrow> bool" where
  "scan_ok excluded xs acc \<longleftrightarrow>
     (case acc of (b, m, f) \<Rightarrow>
        f = first_tag (filter (candidate excluded) xs) \<and>
        (if \<exists>c\<in>set xs. candidate excluded c \<and> 0 < od_delay c
         then \<exists>c\<in>set xs. candidate excluded c \<and> 0 < od_delay c \<and> b = od_tag c \<and> m = od_delay c \<and>
                (\<forall>c'\<in>set xs. candidate excluded c' \<and> 0 < od_delay c' \<longrightarrow> m \<le> od_delay c')
         else b = [] \<and> m = 2 ^ 63 - 1))"

lemma scan_ok_fold:
  assumes "\<forall>st\<in>set xs. od_alive st \<longrightarrow> od_tag st \<noteq> [] \<and> od_delay st < 2 ^ 63 - 1"
  shows "scan_ok excluded xs (fold (scan_status excluded) xs ([], 2 ^ 63 - 1, []))"
  using assms
proof (induction xs rule: rev_induct)
  case Nil
  then show ?case by (simp add: scan_ok_def first_tag_def)
next
  case (snoc st xs)
  obtain b m f where acc: "fold (scan_status excluded) xs ([], 2 ^ 63 - 1, []) = (b, m, f)"
    by (metis prod_cases3)
  have IH: "scan_ok excluded xs (b, m, f)" using snoc acc by simp
  have run: "fold (scan_status excluded) (xs @ [st]) ([], 2 ^ 63 - 1, []) = scan_status excluded st (b, m, f)"
    using acc by simp
  show ?case
  proof (cases "candidate excluded st")
    case False
    then have "scan_status excluded st (b, m, f) = (b, m, f)" by (auto simp: scan_status_def)
    moreover have "scan_ok excluded (xs @ [st]) (b, m, f) = scan_ok excluded xs (b, m, f)"
      using False by (auto simp: scan_ok_def)
    ultimately show ?thesis using IH run by simp
  next
    case True
    let ?f = "if f = [] then od_tag st else f"
    have tag: "od_tag st \<noteq> []" "od_delay st < 2 ^ 63 - 1" using snoc.prems True by auto
    have f: "f = first_tag (filter (candidate excluded) xs)" using IH by (simp add: scan_ok_def)
    have old_tags: "\<forall>c\<in>set (filter (candidate excluded) xs). od_tag c \<noteq> []" using snoc.prems by auto
    have f': "?f = first_tag (filter (candidate excluded) (xs @ [st]))"
      using f True old_tags by (cases "filter (candidate excluded) xs") (auto simp: first_tag_def)
    show ?thesis
    proof (cases "0 < od_delay st \<and> od_delay st < m")
      case better: True
      have "scan_status excluded st (b, m, f) = (od_tag st, od_delay st, ?f)"
        using True better by (simp add: scan_status_def Let_def)
      moreover have "\<forall>c'\<in>set xs. candidate excluded c' \<and> 0 < od_delay c' \<longrightarrow> od_delay st \<le> od_delay c'"
        using IH better by (fastforce simp: scan_ok_def split: if_splits)
      ultimately show ?thesis unfolding run using True better f' by (auto simp: scan_ok_def)
    next
      case worse: False
      have "scan_status excluded st (b, m, f) = (b, m, ?f)"
        using True worse by (auto simp: scan_status_def Let_def)
      moreover have "0 < od_delay st \<Longrightarrow> \<exists>c\<in>set xs. candidate excluded c \<and> 0 < od_delay c"
        using IH worse tag by (auto simp: scan_ok_def split: if_splits)
      ultimately show ?thesis
        unfolding run using True worse f' IH by (auto simp: scan_ok_def split: if_splits)
    qed
  qed
qed

text \<open>
  C6. The automatic choice is optimal: among the nodes that are alive and not excluded it returns
  one of least positive delay, and only if none has been measured the first of them; nothing if
  there is none.
\<close>

theorem best_node_optimal:
  assumes sane: "\<forall>st\<in>set statuses. od_alive st \<longrightarrow> od_tag st \<noteq> [] \<and> od_delay st < 2 ^ 63 - 1"
    and cands: "cands = filter (candidate excluded) statuses"
  shows "if \<exists>c\<in>set cands. 0 < od_delay c
    then \<exists>c\<in>set cands. best_node excluded statuses = od_tag c \<and> 0 < od_delay c \<and>
           (\<forall>c'\<in>set cands. 0 < od_delay c' \<longrightarrow> od_delay c \<le> od_delay c')
    else best_node excluded statuses = (case cands of [] \<Rightarrow> [] | c # _ \<Rightarrow> od_tag c)"
proof -
  obtain b m f where acc: "fold (scan_status excluded) statuses ([], 2 ^ 63 - 1, []) = (b, m, f)"
    by (metis prod_cases3)
  have ok: "scan_ok excluded statuses (b, m, f)" using scan_ok_fold [OF sane, of excluded] unfolding acc .
  have best: "best_node excluded statuses = (if b \<noteq> [] then b else f)" using acc by (simp add: best_node_def)
  show ?thesis
  proof (cases "\<exists>c\<in>set cands. 0 < od_delay c")
    case True
    then have "\<exists>c\<in>set statuses. candidate excluded c \<and> 0 < od_delay c" by (auto simp: cands)
    with ok obtain c where c: "c \<in> set statuses" "candidate excluded c" "0 < od_delay c" "b = od_tag c"
      "m = od_delay c" "\<forall>c'\<in>set statuses. candidate excluded c' \<and> 0 < od_delay c' \<longrightarrow> m \<le> od_delay c'"
      by (auto simp: scan_ok_def)
    then have "b \<noteq> []" using sane by auto
    with c best True show ?thesis by (auto simp: cands)
  next
    case False
    then have "b = []" "f = first_tag cands" using ok by (auto simp: scan_ok_def cands)
    with best False show ?thesis by (simp add: first_tag_def)
  qed
qed

definition sample_statuses :: "out_status list" where
  "sample_statuses =
     [\<lparr>od_tag = ''direct'', od_alive = True, od_delay = 1\<rparr>, \<lparr>od_tag = ''a'', od_alive = True, od_delay = 90\<rparr>,
      \<lparr>od_tag = ''b'', od_alive = True, od_delay = 40\<rparr>, \<lparr>od_tag = ''c'', od_alive = False, od_delay = 5\<rparr>]"

theorem best_node_optimal_witness:
  "let excluded = [(''direct'', ())]; cands = filter (candidate excluded) sample_statuses in
   best_node excluded sample_statuses = ''b'' \<and>
   (if \<exists>c\<in>set cands. 0 < od_delay c
    then \<exists>c\<in>set cands. best_node excluded sample_statuses = od_tag c \<and> 0 < od_delay c \<and>
           (\<forall>c'\<in>set cands. 0 < od_delay c' \<longrightarrow> od_delay c \<le> od_delay c')
    else best_node excluded sample_statuses = (case cands of [] \<Rightarrow> [] | c # _ \<Rightarrow> od_tag c))"
  unfolding Let_def
  by (rule conjI, simp add: best_node_def scan_status_def sample_statuses_def gm_keys_def,
      rule best_node_optimal) (auto simp: sample_statuses_def)

section \<open>Listed and excluded outbounds\<close>

lemma excluded_fold_keys:
  "set (gm_keys (fold (\<lambda>ob ex. if P ob then AList.update (ob_Tag ob) () ex else ex) obs acc)) =
     set (gm_keys acc) \<union> ob_Tag ` {ob \<in> set obs. P ob}"
  by (induction obs arbitrary: acc) (auto simp: gm_keys_update)

lemma excluded_of_keys:
  "set (gm_keys (excluded_of uni_lower obs)) =
     ob_Tag ` {ob \<in> set obs. \<not> isValidOutbound (parseProtocol uni_lower (ob_ProxySettings ob))}"
  unfolding excluded_of_def
  by (subst excluded_fold_keys [where P = "\<lambda>ob. parseProtocol uni_lower (ob_ProxySettings ob) \<in> set excludeProtocols"])
    (simp add: isValidOutbound_def gm_keys_def)

lemma listed_tags:
  "set (map oi_tag (listed_outbounds uni_lower obs)) =
     ob_Tag ` {ob \<in> set obs. ob_Tag ob \<noteq> [] \<and> isValidOutbound (parseProtocol uni_lower (ob_ProxySettings ob))}"
  by (induction obs) (auto simp: listed_outbounds_def Let_def)

text \<open>
  The two views of the outbound list agree: of the outbounds Xray reports under distinct
  tags, the node list shows exactly those with a nonempty tag that the automatic choice does not
  exclude.
\<close>

theorem listed_iff_not_excluded:
  assumes distinct: "distinct (map ob_Tag obs)" and known: "tag \<in> ob_Tag ` set obs"
  shows "tag \<in> set (map oi_tag (listed_outbounds uni_lower obs)) \<longleftrightarrow>
    tag \<noteq> [] \<and> tag \<notin> set (gm_keys (excluded_of uni_lower obs))"
proof -
  have "inj_on ob_Tag (set obs)" using distinct by (simp add: distinct_map)
  with known show ?thesis
    unfolding listed_tags excluded_of_keys by (auto dest: inj_onD)
qed

definition sample_outbounds :: "outbound_handler_config list" where
  "sample_outbounds =
     [\<lparr>ob_Tag = ''direct'', ob_SenderSettings = None,
       ob_ProxySettings = Some \<lparr>tm_Type = ''xray.proxy.freedom.Config'', tm_Value = []\<rparr>, ob_Expire = 0, ob_Comment = []\<rparr>,
      \<lparr>ob_Tag = ''node-1'', ob_SenderSettings = None,
       ob_ProxySettings = Some \<lparr>tm_Type = ''xray.proxy.vless.outbound.Config'', tm_Value = []\<rparr>, ob_Expire = 0, ob_Comment = []\<rparr>]"

theorem listed_iff_not_excluded_witness:
  "listed_outbounds id sample_outbounds = [\<lparr>oi_tag = ''node-1'', oi_protocol = ''vless''\<rparr>] \<and>
   (''direct'' \<in> set (map oi_tag (listed_outbounds id sample_outbounds)) \<longleftrightarrow>
    ''direct'' \<noteq> [] \<and> ''direct'' \<notin> set (gm_keys (excluded_of id sample_outbounds)))"
proof
  show "listed_outbounds id sample_outbounds = [\<lparr>oi_tag = ''node-1'', oi_protocol = ''vless''\<rparr>]"
    by code_simp
  show "''direct'' \<in> set (map oi_tag (listed_outbounds id sample_outbounds)) \<longleftrightarrow>
    ''direct'' \<noteq> [] \<and> ''direct'' \<notin> set (gm_keys (excluded_of id sample_outbounds))"
    by (rule listed_iff_not_excluded) (simp_all add: sample_outbounds_def)
qed

section \<open>The observatory cache\<close>

lemma refresh_observatory_sel [simp]:
  "s_calls (refresh_observatory w) = s_calls w @ [(getOutboundStatus_name, MGetOutboundStatus)]"
  "s_obs (refresh_observatory w) =
     put_observatory (Some (answered_statuses (getOutboundStatus (s_conn w) (call_no w)))) (time_now w)"
  "w_clk (refresh_observatory w) = w_clk w" "w_ticks (refresh_observatory w) = Suc (w_ticks w)"
  "s_observatoryClient (refresh_observatory w) = s_observatoryClient w"
  by (simp_all add: refresh_observatory_def Let_def time_now_def)

lemma call_no_tick [simp]: "call_no (tick w) = call_no w"
  by (simp add: call_no_def)

lemma time_now_tick: "time_now (tick w) = w_clk w (Suc (w_ticks w))"
  by (simp add: time_now_def)

text \<open>A stale cache: one call, and its answer is returned if the clock moves on by less than the time to live.\<close>

lemma getAll_stale:
  assumes client: "s_observatoryClient w"
    and stale: "observatoryCacheTTL \<le> time_sub (time_now w) (co_timestamp (s_obs w))"
    and t1: "t1 = w_clk w (Suc (w_ticks w))" and t2: "t2 = w_clk w (Suc (Suc (w_ticks w)))" and mono: "t1 \<le> t2"
    and xs: "xs = answered_statuses (getOutboundStatus (s_conn w) (call_no w))"
  shows "\<exists>w1. getAllOutboundStatuses w = (Some (if t2 - t1 < observatoryCacheTTL then xs else []), w1) \<and>
    s_calls w1 = s_calls w @ [(getOutboundStatus_name, MGetOutboundStatus)] \<and>
    s_obs w1 = put_observatory (Some xs) t1"
proof -
  let ?v = "refresh_observatory (tick w)"
  have obs: "s_obs ?v = put_observatory (Some xs) t1" by (simp add: xs t1 time_now_tick)
  have now: "time_now ?v = t2" by (simp add: time_now_def t2)
  have "obsSnapshot ?v = (if t2 - t1 < observatoryCacheTTL then Some xs else None, tick ?v)"
    unfolding obsSnapshot_get obs now obs_cache.get_put [OF mono, of "Some xs"] ..
  then have "getAllOutboundStatuses w = (Some (if t2 - t1 < observatoryCacheTTL then xs else []), tick ?v)"
    using client stale by (simp add: getAll_get)
  then show ?thesis using obs by simp
qed

text \<open>A fresh cache: no call.\<close>

lemma getAll_fresh:
  assumes "s_observatoryClient w" and "time_sub (time_now w) (co_timestamp (s_obs w)) < observatoryCacheTTL"
  shows "getAllOutboundStatuses w = (co_data (s_obs w), tick w)"
  using assms by (simp add: getAllOutboundStatuses_def)

text \<open>
  The observatory cache saves calls without going stale: with an expired cache Xray is asked
  once and its answer returned (an error counts as no nodes), and every request within the next
  two seconds is answered with the same list and asks nothing.
\<close>

theorem statuses_cached_two_seconds:
  assumes client: "s_observatoryClient w" "s_observatoryClient v"
    and stale: "observatoryCacheTTL \<le> time_sub (time_now w) (co_timestamp (s_obs w))"
    and t1: "t1 = w_clk w (Suc (w_ticks w))" and t2: "t2 = w_clk w (Suc (Suc (w_ticks w)))"
    and quick: "t1 \<le> t2" "t2 - t1 < 2 * second"
    and later: "s_obs v = s_obs (snd (getAllOutboundStatuses w))" "t1 \<le> time_now v" "time_now v - t1 < 2 * second"
  shows "fst (getAllOutboundStatuses w) = Some (answered_statuses (getOutboundStatus (s_conn w) (call_no w))) \<and>
    s_calls (snd (getAllOutboundStatuses w)) = s_calls w @ [(getOutboundStatus_name, MGetOutboundStatus)] \<and>
    fst (getAllOutboundStatuses v) = fst (getAllOutboundStatuses w) \<and>
    s_calls (snd (getAllOutboundStatuses v)) = s_calls v"
proof -
  let ?xs = "answered_statuses (getOutboundStatus (s_conn w) (call_no w))"
  from getAll_stale [OF client(1) stale t1 t2 quick(1) refl] quick(2) obtain w1 where
    w1: "getAllOutboundStatuses w = (Some ?xs, w1)" "s_obs w1 = put_observatory (Some ?xs) t1"
      "s_calls w1 = s_calls w @ [(getOutboundStatus_name, MGetOutboundStatus)]"
    by (auto simp: observatoryCacheTTL_def)
  have "time_sub (time_now v) (co_timestamp (s_obs v)) < observatoryCacheTTL"
    using later w1 by (simp add: put_observatory_def time_sub_def observatoryCacheTTL_def second_def
        min_duration_def max_duration_def)
  from getAll_fresh [OF client(2) this] w1 later(1) show ?thesis by (simp add: put_observatory_def)
qed

theorem statuses_cached_two_seconds_witness:
  "let w = sample_server; v = snd (getAllOutboundStatuses w) in
   fst (getAllOutboundStatuses w) = Some (answered_statuses (getOutboundStatus (s_conn w) (call_no w))) \<and>
    s_calls (snd (getAllOutboundStatuses w)) = s_calls w @ [(getOutboundStatus_name, MGetOutboundStatus)] \<and>
    fst (getAllOutboundStatuses v) = fst (getAllOutboundStatuses w) \<and>
    s_calls (snd (getAllOutboundStatuses v)) = s_calls v"
proof -
  have stale: "observatoryCacheTTL \<le> time_sub (time_now sample_server) (co_timestamp (s_obs sample_server))"
    by (simp add: time_now_def zero_observatory_def time_sub_def observatoryCacheTTL_def second_def
        min_duration_def max_duration_def)
  have v: "s_observatoryClient (snd (getAllOutboundStatuses sample_server))"
    "w_clk (snd (getAllOutboundStatuses sample_server)) = w_clk sample_server"
    "w_ticks (snd (getAllOutboundStatuses sample_server)) = 3"
    using stale by (auto simp: getAll_get obsSnapshot_get split: option.split)
  show ?thesis
    unfolding Let_def
    by (rule statuses_cached_two_seconds [OF _ _ stale refl refl])
      (simp_all add: v time_now_def second_def)
qed

text \<open>The cache holds a list once it was written.\<close>

definition obs_ok :: "'a srv_world_scheme \<Rightarrow> bool" where
  "obs_ok w = (s_obs w = zero_observatory \<or> co_data (s_obs w) \<noteq> None)"

text \<open>
  The status list handed to clients is never null, not even on the first call, after an
  error, or right after a switch dropped the cache.
\<close>

theorem statuses_never_null:
  assumes "obs_ok w" and "wall_ok w"
  shows "fst (getAllOutboundStatuses w) \<noteq> None \<and> obs_ok (snd (getAllOutboundStatuses w))"
proof (cases "s_observatoryClient w")
  case False
  with assms show ?thesis by (simp add: getAllOutboundStatuses_def)
next
  case client: True
  show ?thesis
  proof (cases "time_sub (time_now w) (co_timestamp (s_obs w)) < observatoryCacheTTL")
    case True
    have "s_obs w \<noteq> zero_observatory"
      using True wall_era [OF assms(2)]
      by (auto simp: zero_observatory_def time_sub_def this_era_def observatoryCacheTTL_def second_def
          min_duration_def max_duration_def)
    with assms(1) getAll_fresh [OF client True] show ?thesis by (simp add: obs_ok_def)
  next
    case False
    have "w_clk w (Suc (w_ticks w)) \<le> w_clk w (Suc (Suc (w_ticks w)))"
      using assms(2) by (simp add: wall_ok_def)
    from getAll_stale [OF client _ refl refl this refl] False show ?thesis
      by (auto simp: obs_ok_def put_observatory_def)
  qed
qed

theorem statuses_never_null_witness:
  "fst (getAllOutboundStatuses sample_server) \<noteq> None \<and> obs_ok (snd (getAllOutboundStatuses sample_server))"
  by (rule statuses_never_null) (simp_all add: obs_ok_def sample_server_wall)

text \<open>
  A refresh of the observatory cache that asked Xray before a switch and stores the answer after it
  undoes the invalidation: for two seconds the old statuses are served and Xray is not asked.
\<close>

theorem switch_invalidation_lost:
  assumes late: "s_obs v = s_obs (updateObsCache (Some old) (invalidate_caches w))"
    and client: "s_observatoryClient v"
    and soon: "time_now (invalidate_caches w) \<le> time_now v" "time_now v - time_now (invalidate_caches w) < 2 * second"
  shows "getAllOutboundStatuses v = (Some old, tick v)"
proof -
  have "time_sub (time_now v) (co_timestamp (s_obs v)) < observatoryCacheTTL"
    using late soon by (simp add: put_observatory_def time_sub_def observatoryCacheTTL_def second_def
        min_duration_def max_duration_def)
  from getAll_fresh [OF client this] late show ?thesis by (simp add: put_observatory_def)
qed

end
