(* ===== verification/Health.thy ===== *)
theory Health
  imports OutboundsProps
begin

text \<open>
  server/handlerhealth.go. The handler reads the health cache, and where it has expired probes
  Xray inside a singleflight group and stores the result. Between these phases other requests
  run, so each phase is a definition of its own; \<open>handleHealthCheck\<close> runs them in a row.
\<close>

definition healthCacheTTL :: duration where
  "healthCacheTTL = 10 * second"

definition healthCacheFailTTL :: duration where
  "healthCacheFailTTL = 3 * second"

text \<open>The first check, on the copy of the cache that was read.\<close>

definition health_expired :: "cached_health \<Rightarrow> time \<Rightarrow> bool" where
  "health_expired c now = (ch_stale c \<or> ch_ttl c < time_sub now (ch_timestamp c))"

text \<open>
  The function run by the group: the cache is read again, and a fresh entry is returned as it is,
  with no error; otherwise Xray is asked. The result is the status and the error.
\<close>

definition health_probe :: "'a srv_world_scheme \<Rightarrow> (gostring \<times> rpc_error option) \<times> 'a srv_world_scheme" where
  "health_probe w =
     (let fresh = s_health w; (reuse, w1) =
        (if ch_stale fresh then (False, w)
         else (time_sub (time_now w) (ch_timestamp fresh) \<le> ch_ttl fresh, tick w)) in
      if reuse then ((ch_status fresh, None), w1)
      else
       (let w2 = called getSysStats_name MSysStats w1 in
        case getSysStats (s_conn w1) (call_no w1) of
          (_, Some e) \<Rightarrow> ((''disconnected'', Some e), w2)
        | (_, None) \<Rightarrow> ((''connected'', None), w2)))"

definition health_store :: "gostring \<times> rpc_error option \<Rightarrow> 'a srv_world_scheme \<Rightarrow> 'a srv_world_scheme" where
  "health_store res w =
     (case res of (status, err) \<Rightarrow>
        (tick w)\<lparr>s_health := \<lparr>ch_status = status, ch_timestamp = time_now w, ch_stale = False,
           ch_ttl = (case err of None \<Rightarrow> healthCacheTTL | Some _ \<Rightarrow> healthCacheFailTTL)\<rparr>\<rparr>)"

text \<open>The first phase: the cached entry and whether it has to be refreshed.\<close>

definition health_read :: "'a srv_world_scheme \<Rightarrow> (cached_health \<times> bool) \<times> 'a srv_world_scheme" where
  "health_read w =
     (let c = s_health w in
      if ch_stale c then ((c, True), w) else ((c, health_expired c (time_now w)), tick w))"

text \<open>\<open>Seconds\<close> as an integer: whole seconds, towards zero.\<close>

definition whole_seconds :: "duration \<Rightarrow> int" where
  "whole_seconds d = dur_div d second"

text \<open>Seconds between the year 1 and the Unix epoch.\<close>

definition unix_seconds :: "time \<Rightarrow> int" where
  "unix_seconds t = t div second - 62135596800"

definition health_json :: "gostring \<Rightarrow> gostring \<Rightarrow> int \<Rightarrow> int \<Rightarrow> gostring \<Rightarrow> int \<Rightarrow> json" where
  "health_json status xray conns uptime balancer ts =
     JObj [(''status'', JStr status), (''xray_api_status'', JStr xray), (''sse_connections'', JInt conns),
           (''uptime'', JInt uptime), (''balancer_tag'', JStr balancer), (''timestamp'', JInt ts)]"

definition health_respond :: "gostring \<Rightarrow> 'a srv_world_scheme \<Rightarrow> 'a srv_world_scheme" where
  "health_respond xrayStatus w =
     (let uptime = whole_seconds (time_sub (time_now w) (s_startTime w));
          w1 = tick w;
          status = (if xrayStatus \<noteq> ''connected'' then ''degraded'' else ''healthy'') in
      on_rw (jsonResponse (health_json status xrayStatus (int (mgr_count (s_mgr w))) uptime
               (BalancerTag (cfg_xray (s_config w))) (unix_seconds (time_now w1))) 200) (tick w1))"

definition handleHealthCheck :: "('a srv_world_scheme) handler" where
  "handleHealthCheck r w =
     (case health_read w of
        ((c, refresh), w1) \<Rightarrow>
          if \<not> refresh then Done (health_respond (ch_status c) w1)
          else (case health_probe w1 of
                  (res, w2) \<Rightarrow> Done (health_respond (fst res) (health_store res w2))))"

section \<open>Properties\<close>

lemma health_respond_sel [simp]:
  "s_health (health_respond st w) = s_health w" "s_calls (health_respond st w) = s_calls w"
  by (simp_all add: health_respond_def Let_def)

lemma health_store_sel [simp]:
  "s_calls (health_store res w) = s_calls w" "w_clk (health_store res w) = w_clk w"
  "w_ticks (health_store res w) = Suc (w_ticks w)" "w_rw (health_store res w) = w_rw w"
  "s_config (health_store res w) = s_config w" "s_mgr (health_store res w) = s_mgr w"
  "s_conn (health_store res w) = s_conn w"
  by (cases res; simp add: health_store_def)+

lemma health_store_health:
  "s_health (health_store (st, err) w) =
     \<lparr>ch_status = st, ch_timestamp = time_now w, ch_stale = False,
      ch_ttl = (case err of None \<Rightarrow> healthCacheTTL | Some _ \<Rightarrow> healthCacheFailTTL)\<rparr>"
  by (simp add: health_store_def)

text \<open>A probe with the cache stale or expired asks Xray once.\<close>

lemma health_probe_asks:
  assumes "ch_stale (s_health w) \<or> ch_ttl (s_health w) < time_sub (time_now w) (ch_timestamp (s_health w))"
  shows "\<exists>w2. health_probe w =
      ((case snd (getSysStats (s_conn w) (call_no w)) of
          None \<Rightarrow> (''connected'', None) | Some e \<Rightarrow> (''disconnected'', Some e)), w2) \<and>
    s_calls w2 = s_calls w @ [(getSysStats_name, MSysStats)] \<and> w_clk w2 = w_clk w \<and>
    w_ticks w2 \<le> Suc (w_ticks w) \<and> w_rw w2 = w_rw w"
proof -
  obtain resp err where res: "getSysStats (s_conn w) (call_no w) = (resp, err)" by fastforce
  show ?thesis
    using assms res by (cases err) (auto simp: health_probe_def Let_def)
qed

text \<open>
  After a successful switch the next health check asks Xray again, whatever was cached: its
  answer is reported (connected, or disconnected and degraded) and kept for ten seconds, a
  failure for three.
\<close>

theorem health_after_switch_probes:
  assumes stale: "ch_stale (s_health w)" and fresh: "rw_status (w_rw w) = None"
  shows "\<exists>w' xray. handleHealthCheck r w = Done w' \<and>
    s_calls w' = s_calls w @ [(getSysStats_name, MSysStats)] \<and> rw_status (w_rw w') = Some 200 \<and>
    (if snd (getSysStats (s_conn w) (call_no w)) = None
     then xray = ''connected'' \<and> ch_ttl (s_health w') = 10 * second
     else xray = ''disconnected'' \<and> ch_ttl (s_health w') = 3 * second) \<and>
    ch_status (s_health w') = xray \<and> \<not> ch_stale (s_health w') \<and>
    (\<exists>conns uptime ts. rw_body (w_rw w') = rw_body (w_rw w) @
       [EncodeChunk (health_json (if xray = ''connected'' then ''healthy'' else ''degraded'') xray conns uptime
         (BalancerTag (cfg_xray (s_config w))) ts)])"
proof -
  obtain resp err where res: "getSysStats (s_conn w) (call_no w) = (resp, err)" by fastforce
  show ?thesis
    using stale fresh res
    by (cases err)
      (simp_all add: handleHealthCheck_def health_read_def health_probe_def Let_def health_store_health
        health_respond_def healthCacheTTL_def healthCacheFailTTL_def, blast+)
qed

theorem health_after_switch_probes_witness:
  "let w = invalidate_caches sample_server in
   \<exists>w' xray. handleHealthCheck switch_request w = Done w' \<and>
    s_calls w' = s_calls w @ [(getSysStats_name, MSysStats)] \<and> rw_status (w_rw w') = Some 200 \<and>
    (if snd (getSysStats (s_conn w) (call_no w)) = None
     then xray = ''connected'' \<and> ch_ttl (s_health w') = 10 * second
     else xray = ''disconnected'' \<and> ch_ttl (s_health w') = 3 * second) \<and>
    ch_status (s_health w') = xray \<and> \<not> ch_stale (s_health w') \<and>
    (\<exists>conns uptime ts. rw_body (w_rw w') = rw_body (w_rw w) @
       [EncodeChunk (health_json (if xray = ''connected'' then ''healthy'' else ''degraded'') xray conns uptime
         (BalancerTag (cfg_xray (s_config w))) ts)])"
  unfolding Let_def by (rule health_after_switch_probes) simp_all

text \<open>
  A failure can be cached for the time of a success: two checks find the cache expired; the
  first probes, fails and stores "disconnected" for three seconds; the second enters the group
  after that, takes the fresh entry over without an error, and stores the same "disconnected"
  for ten seconds.
\<close>

theorem health_failure_kept_ten_seconds:
  fixes w :: "'a srv_world_scheme"
  assumes expired: "ch_stale (s_health w)"
    and down: "snd (getSysStats (s_conn w) (call_no w)) = Some e"
    and mono: "w_clk w (w_ticks w) \<le> w_clk w (Suc (w_ticks w))"
    and quick: "w_clk w (Suc (w_ticks w)) - w_clk w (w_ticks w) \<le> 3 * second"
    and first: "p1 = health_probe w" "w1 = health_store (fst p1) (snd p1)"
    and second: "p2 = health_probe w1" "w2 = health_store (fst p2) (snd p2)"
  shows "health_read w = ((s_health w, True), w) \<and>
    ch_status (s_health w1) = ''disconnected'' \<and> ch_ttl (s_health w1) = 3 * second \<and>
    ch_status (s_health w2) = ''disconnected'' \<and> ch_ttl (s_health w2) = 10 * second \<and> s_calls w2 = s_calls w1"
proof -
  obtain resp where res: "getSysStats (s_conn w) (call_no w) = (resp, Some e)"
    using down by (cases "getSysStats (s_conn w) (call_no w)") simp
  have p1: "p1 = ((''disconnected'', Some e), called getSysStats_name MSysStats w)"
    using expired res by (simp add: first(1) health_probe_def Let_def)
  have w1: "s_health w1 = \<lparr>ch_status = ''disconnected'', ch_timestamp = w_clk w (w_ticks w), ch_stale = False,
      ch_ttl = healthCacheFailTTL\<rparr>" "w_ticks w1 = Suc (w_ticks w)" "w_clk w1 = w_clk w"
    by (simp_all add: first(2) p1 health_store_health time_now_def)
  have "time_sub (time_now w1) (ch_timestamp (s_health w1)) \<le> ch_ttl (s_health w1)"
    using mono quick w1
    by (simp add: time_now_def time_sub_def healthCacheFailTTL_def second_def min_duration_def max_duration_def)
  then have p2: "p2 = ((''disconnected'', None), tick w1)"
    using w1(1) by (simp add: second(1) health_probe_def Let_def)
  show ?thesis
    using expired by (simp add: health_read_def w1(1) second(2) p2 health_store_health healthCacheTTL_def healthCacheFailTTL_def)
qed

theorem health_failure_kept_ten_seconds_witness:
  "let w = invalidate_caches sample_server; p1 = health_probe w; w1 = health_store (fst p1) (snd p1);
       p2 = health_probe w1; w2 = health_store (fst p2) (snd p2) in
   health_read w = ((s_health w, True), w) \<and>
    ch_status (s_health w1) = ''disconnected'' \<and> ch_ttl (s_health w1) = 3 * second \<and>
    ch_status (s_health w2) = ''disconnected'' \<and> ch_ttl (s_health w2) = 10 * second \<and> s_calls w2 = s_calls w1"
  unfolding Let_def
  by (rule health_failure_kept_ten_seconds [of _ RpcFailed])
    (simp_all add: invalidate_caches_def getSysStats_def ok_conn_def second_def)

end
