(* ===== verification/Logs.thy ===== *)
theory Logs
  imports ServerState
begin

text \<open>
  server/handlerlog.go and server/journal.go: reading the last lines of a log file or of the
  systemd journal, with search and a limit on the bytes returned. The operating system's answers
  are a record (\<open>log_file\<close>), the journal (\<open>sdjournal\<close>) another; \<open>uni_lower\<close> is \<open>unicode.ToLower\<close>
  beyond ASCII. \<open>expired k\<close> says that the context is done at the k-th check of the loop.
\<close>

definition logDefaultLines :: int where
  "logDefaultLines = 500"

definition logMaxLines :: int where
  "logMaxLines = 2000"

definition logMaxFileSize :: int where
  "logMaxFileSize = 10 * 1024 * 1024"

definition maxSearchLength :: nat where
  "maxSearchLength = 256"

definition msg_bad_log_type :: gostring where
  "msg_bad_log_type = utf8_lit
     [228, 184, 141, 230, 148, 175, 230, 140, 129, 231, 154, 132, 230, 151, 165, 229, 191,
      151, 231, 177, 187, 229, 158, 139]"

definition msg_log_failed :: gostring where
  "msg_log_failed = utf8_lit
     [232, 175, 187, 229, 143, 150, 230, 151, 165, 229, 191, 151, 229, 164, 177, 232, 180, 165]"

definition msg_file_too_large :: gostring where
  "msg_file_too_large = utf8_lit
     [230, 151, 165, 229, 191, 151, 230, 150, 135, 228,
      187, 182, 232, 191, 135, 229, 164, 167, 32, 40]"

definition msg_at_most :: gostring where
  "msg_at_most = utf8_lit
     [77, 66, 41, 44, 32, 230, 156, 128, 229,
      164, 167, 230, 148, 175, 230, 140, 129, 32]"

definition truncationMarker :: gostring where
  "truncationMarker = utf8_lit
     [91, 230, 151, 165, 229, 191, 151, 232, 190, 147, 229, 135, 186, 232, 191, 135, 229, 164,
      167, 239, 188, 140, 229, 183, 178, 230, 136, 170, 230, 150, 173, 93]"

section \<open>Limiting the bytes\<close>

text \<open>The number of newest lines that fit, scanned from the newest.\<close>

fun fitting :: "int \<Rightarrow> gostring list \<Rightarrow> int \<Rightarrow> nat" where
  "fitting maxBytes [] used = 0"
| "fitting maxBytes (l # ls) used =
     (let u = used + int (length l) in
      if maxBytes < u then 0 else Suc (fitting maxBytes ls u))"

definition trimLinesToBytes :: "gostring list \<Rightarrow> int \<Rightarrow> gostring list" where
  "trimLinesToBytes lines maxBytes =
     (if maxBytes \<le> 0 \<or> lines = [] then lines
      else (let start = length lines - fitting maxBytes (rev lines) 0 in
            if 0 < start \<and> start < length lines then truncationMarker # drop start lines else lines))"

section \<open>Limiting the search string\<close>

function back_up :: "gostring \<Rightarrow> gostring" where
  "back_up s =
     (if s = [] then s
      else (let s1 = take (length s - snd (decodeLastRune s)) s in
            if validString s1 then s1 else back_up s1))"
  by auto
termination
proof (relation "measure length")
  fix s x
  assume "s \<noteq> []" and "x = take (length s - snd (decodeLastRune s)) s"
  then show "(x, s) \<in> measure length"
    using decodeLastRune_size_pos [of s] by (simp add: Suc_le_eq)
qed simp

declare back_up.simps [simp del]

definition truncateSearch :: "gostring \<Rightarrow> nat \<Rightarrow> gostring" where
  "truncateSearch s maxBytes =
     (if length s \<le> maxBytes then s
      else (let s1 = take maxBytes s in if validString s1 then s1 else back_up s1))"

section \<open>Lines of a file\<close>

text \<open>
  \<open>bufio.Scanner\<close> with \<open>ScanLines\<close> and a buffer of at most 262144 bytes: lines end at a newline, a
  carriage return before it is dropped, an empty rest at the end is no line, and a line that does
  not fit the buffer together with its newline is an error.
\<close>

definition scanLimit :: nat where
  "scanLimit = 256 * 1024"

definition dropCR :: "gostring \<Rightarrow> gostring" where
  "dropCR l = (if l \<noteq> [] \<and> last l = CHR 0x0D then butlast l else l)"

fun scan_pieces :: "gostring list \<Rightarrow> gostring list \<times> bool" where
  "scan_pieces [] = ([], True)"
| "scan_pieces (p # ps) =
     (if scanLimit \<le> length p then ([], False)
      else if p = [] \<and> ps = [] then ([], True)
      else (case scan_pieces ps of (ls, ok) \<Rightarrow> (dropCR p # ls, ok)))"

text \<open>The lines delivered, and whether the scan ended without error.\<close>

definition scan_lines :: "gostring \<Rightarrow> gostring list \<times> bool" where
  "scan_lines d = scan_pieces (split_on (CHR 0x0A) d)"

definition matches :: "(rune \<Rightarrow> rune) \<Rightarrow> gostring \<Rightarrow> gostring \<Rightarrow> bool" where
  "matches uni_lower search line =
     (search = [] \<or> sublist (toLower uni_lower search) (toLower uni_lower line))"

section \<open>The ring buffer\<close>

record ring_state =
  rg_ring :: "gostring list"
  rg_pos :: nat
  rg_count :: nat

definition ring_push :: "nat \<Rightarrow> gostring \<Rightarrow> ring_state \<Rightarrow> ring_state" where
  "ring_push n line s =
     s\<lparr>rg_ring := (rg_ring s)[rg_pos s := line], rg_pos := (rg_pos s + 1) mod n, rg_count := rg_count s + 1\<rparr>"

text \<open>The slice taken from the pool (its old contents stay) or a new one.\<close>

definition ring_start :: "nat \<Rightarrow> gostring list \<Rightarrow> ring_state" where
  "ring_start n pool =
     \<lparr>rg_ring = (if n \<le> length pool then take n pool else replicate n []), rg_pos = 0, rg_count = 0\<rparr>"

definition ring_result :: "nat \<Rightarrow> ring_state \<Rightarrow> gostring list" where
  "ring_result n s =
     (if rg_count s < n then take (rg_count s) (rg_ring s)
      else drop (rg_pos s) (rg_ring s) @ take (rg_pos s) (rg_ring s))"

datatype log_error =
    LogOpen | LogStat | LogTooLarge int | LogContext | LogScan
  | JournalOpen | JournalMatch | JournalSeek | JournalPrevious | JournalDisabled | JournalUnsupported

text \<open>The line the server logs for a file over the limit. Go's division truncates.\<close>

definition fileTooLargeError_Error :: "int \<Rightarrow> gostring" where
  "fileTooLargeError_Error sz =
     msg_file_too_large @ formatInt (dur_div (dur_div sz 1024) 1024) @ msg_at_most @
     formatInt (dur_div (dur_div logMaxFileSize 1024) 1024) @ ''MB''"

text \<open>
  A file the reader refuses is reported with its whole megabytes, so one that is over the limit by
  less than a megabyte is reported with the limit itself.
\<close>

lemma too_large_message:
  assumes "logMaxFileSize < sz"
  shows "fileTooLargeError_Error sz =
    msg_file_too_large @ formatInt (sz div 1048576) @ msg_at_most @ ''10MB''"
proof -
  have "dur_div (dur_div sz 1024) 1024 = sz div 1048576"
    using assms zdiv_zmult2_eq [of 1024 sz 1024] by (simp add: dur_div_def logMaxFileSize_def sgn_if)
  moreover have "formatInt 10 = ''10''" by code_simp
  ultimately show ?thesis by (simp add: fileTooLargeError_Error_def dur_div_def logMaxFileSize_def)
qed

record log_file =
  lf_open :: bool
  lf_stat :: "int option"
  lf_data :: gostring
  lf_read_ok :: bool

text \<open>The loop over the lines: the context is checked before each line is looked at.\<close>

fun ring_loop ::
  "(rune \<Rightarrow> rune) \<Rightarrow> gostring \<Rightarrow> nat \<Rightarrow> (nat \<Rightarrow> bool) \<Rightarrow> nat \<Rightarrow> gostring list \<Rightarrow> ring_state \<Rightarrow> ring_state option" where
  "ring_loop uni_lower search n expired k [] s = Some s"
| "ring_loop uni_lower search n expired k (l # ls) s =
     (if expired k then None
      else ring_loop uni_lower search n expired (Suc k) ls
             (if matches uni_lower search l then ring_push n l s else s))"

definition readLogFile ::
  "(rune \<Rightarrow> rune) \<Rightarrow> (nat \<Rightarrow> bool) \<Rightarrow> gostring list \<Rightarrow> log_file \<Rightarrow> nat \<Rightarrow> gostring \<Rightarrow> int \<Rightarrow> log_error + gostring list" where
  "readLogFile uni_lower expired pool f maxLines search maxBytes =
     (if \<not> lf_open f then Inl LogOpen
      else (case lf_stat f of
              None \<Rightarrow> Inl LogStat
            | Some sz \<Rightarrow>
                if logMaxFileSize < sz then Inl (LogTooLarge sz)
                else (case scan_lines (lf_data f) of
                        (lines, ok) \<Rightarrow>
                          (case ring_loop uni_lower search maxLines expired 0 lines (ring_start maxLines pool) of
                             None \<Rightarrow> Inl LogContext
                           | Some s \<Rightarrow>
                               if \<not> ok \<or> \<not> lf_read_ok f then Inl LogScan
                               else (let result = ring_result maxLines s in
                                     Inr (if 0 < maxBytes then trimLinesToBytes result maxBytes else result))))))"

section \<open>The journal\<close>

text \<open>
  A journal entry as the loop sees it: the MESSAGE field (None where reading it fails) and the
  time stamp in microseconds. \<open>jr_entries\<close> lists, newest first, what \<open>Previous\<close> steps to under a
  match expression; None is an error of \<open>Previous\<close> itself.
\<close>

record journal_entry =
  je_message :: "gostring option"
  je_usec :: "int option"

record journal =
  jr_open :: bool
  jr_match :: bool
  jr_seek :: bool
  jr_entries :: "gostring \<Rightarrow> journal_entry option list"

definition journal_match :: "gostring \<Rightarrow> gostring" where
  "journal_match u = ''_SYSTEMD_UNIT='' @ u @ ''.service''"

text \<open>\<open>rfc3339\<close> formats seconds and nanoseconds in the local time zone.\<close>

definition journal_line :: "(int \<Rightarrow> int \<Rightarrow> gostring) \<Rightarrow> gostring \<Rightarrow> int option \<Rightarrow> gostring" where
  "journal_line rfc3339 msg usec =
     (case usec of
        None \<Rightarrow> msg
      | Some u \<Rightarrow> rfc3339 (dur_div u 1000000) ((u - dur_div u 1000000 * 1000000) * 1000) @ '' '' @ msg)"

fun journal_loop ::
  "(rune \<Rightarrow> rune) \<Rightarrow> (int \<Rightarrow> int \<Rightarrow> gostring) \<Rightarrow> gostring \<Rightarrow> nat \<Rightarrow> (nat \<Rightarrow> bool) \<Rightarrow> nat \<Rightarrow>
   journal_entry option list \<Rightarrow> gostring list \<Rightarrow> log_error + gostring list" where
  "journal_loop uni_lower rfc3339 search n expired k es lines =
     (if n \<le> length lines then Inr lines
      else if expired k then Inl LogContext
      else (case es of
              [] \<Rightarrow> Inr lines
            | None # _ \<Rightarrow> Inl JournalPrevious
            | Some e # rest \<Rightarrow>
                (case je_message e of
                   None \<Rightarrow> journal_loop uni_lower rfc3339 search n expired (Suc k) rest lines
                 | Some m \<Rightarrow>
                     (let msg = trimPrefix m ''MESSAGE='' in
                      if \<not> matches uni_lower search msg
                      then journal_loop uni_lower rfc3339 search n expired (Suc k) rest lines
                      else journal_loop uni_lower rfc3339 search n expired (Suc k) rest
                             (lines @ [journal_line rfc3339 msg (je_usec e)])))))"

declare journal_loop.simps [simp del]

definition readJournalLog ::
  "(rune \<Rightarrow> rune) \<Rightarrow> (int \<Rightarrow> int \<Rightarrow> gostring) \<Rightarrow> (nat \<Rightarrow> bool) \<Rightarrow> journal \<Rightarrow> gostring \<Rightarrow> nat \<Rightarrow> gostring \<Rightarrow> int \<Rightarrow>
   log_error + gostring list" where
  "readJournalLog uni_lower rfc3339 expired j u maxLines search maxBytes =
     (if \<not> jr_open j then Inl JournalOpen
      else if \<not> jr_match j then Inl JournalMatch
      else if \<not> jr_seek j then Inl JournalSeek
      else (case journal_loop uni_lower rfc3339 search maxLines expired 0 (jr_entries j (journal_match u)) [] of
              Inl e \<Rightarrow> Inl e
            | Inr lines \<Rightarrow>
                (let lines1 = rev lines in
                 Inr (if 0 < maxBytes then trimLinesToBytes lines1 maxBytes else lines1))))"

text \<open>Builds without the journal.\<close>

definition readJournalLog_disabled :: "log_error + gostring list" where
  "readJournalLog_disabled = Inl JournalDisabled"

definition readJournalLog_nonlinux :: "log_error + gostring list" where
  "readJournalLog_nonlinux = Inl JournalUnsupported"

text \<open>The build tags choose one of the three.\<close>

datatype journal_build = WithJournal journal | NoJournal | NonLinux

section \<open>The handler\<close>

definition log_json :: "gostring list \<Rightarrow> gostring \<Rightarrow> json" where
  "log_json lines source = JObj [(''lines'', JArr (map JStr lines)), (''source'', JStr source)]"

definition requested_lines :: "gostring \<Rightarrow> int" where
  "requested_lines linesParam =
     (let n = (if linesParam = [] then logDefaultLines
               else (case atoi linesParam of
                       Some n \<Rightarrow> if 0 < n then n else logDefaultLines
                     | None \<Rightarrow> logDefaultLines)) in
      if logMaxLines < n then logMaxLines else n)"

text \<open>What the handler reads its lines from: the pool, the file of a path, the journal.\<close>

record log_env =
  le_uni_lower :: "rune \<Rightarrow> rune"
  le_rfc3339 :: "int \<Rightarrow> int \<Rightarrow> gostring"
  le_expired :: "nat \<Rightarrow> bool"
  le_pool :: "gostring list"
  le_file :: "gostring \<Rightarrow> log_file"
  le_journal :: journal_build

definition read_log :: "log_env \<Rightarrow> log_config \<Rightarrow> nat \<Rightarrow> gostring \<Rightarrow> log_error + gostring list" where
  "read_log env cfg maxLines search =
     (if LogType cfg = ''file''
      then readLogFile (le_uni_lower env) (le_expired env) (le_pool env) (le_file env (FilePath cfg))
             maxLines search (MaxBytes cfg)
      else (case le_journal env of
              NoJournal \<Rightarrow> readJournalLog_disabled
            | NonLinux \<Rightarrow> readJournalLog_nonlinux
            | WithJournal j \<Rightarrow> readJournalLog (le_uni_lower env) (le_rfc3339 env) (le_expired env) j (Journal cfg)
                          maxLines search (MaxBytes cfg)))"

definition handleGetLogs :: "log_env \<Rightarrow> ('a srv_world_scheme) handler" where
  "handleGetLogs env r w =
     (let cfg = cfg_log (s_config w) in
      if LogType cfg = ''none'' \<or> LogType cfg = []
      then Done (on_rw (jsonResponse (log_json [] ''none'') 200) w)
      else
       (let maxLines = requested_lines (query_get r ''lines'');
            search = truncateSearch (trimSpace (query_get r ''search'')) maxSearchLength in
        if LogType cfg \<noteq> ''file'' \<and> LogType cfg \<noteq> ''journal''
        then Done (on_rw (jsonError msg_bad_log_type 400 ''validation'') w)
        else (case read_log env cfg (nat maxLines) search of
                Inl e \<Rightarrow> Done (on_rw (jsonError msg_log_failed 500 ''log_read'') w)
              | Inr lines \<Rightarrow> Done (on_rw (jsonResponse (log_json lines (LogType cfg)) 200) w))))"

end
