(* ===== verification/LogsProps.thy ===== *)
theory LogsProps
  imports Logs OutboundsProps
begin

text \<open>
  What the log reader guarantees: the byte limit, the search string, the ring buffer against its
  specification (the last matching lines), and the journal loop.
\<close>

section \<open>The byte limit\<close>

abbreviation bytes :: "gostring list \<Rightarrow> int" where
  "bytes ls \<equiv> sum_list (map (\<lambda>l. int (length l)) ls)"

lemma fitting_le: "fitting m ls used \<le> length ls"
  by (induction ls arbitrary: used) (auto simp: Let_def)

lemma fitting_fits: "used \<le> m \<Longrightarrow> used + bytes (take (fitting m ls used) ls) \<le> m"
proof (induction ls arbitrary: used)
  case (Cons l ls)
  show ?case
  proof (cases "m < used + int (length l)")
    case False
    with Cons.IH [of "used + int (length l)"] show ?thesis by (simp add: add.assoc)
  qed (use Cons.prems in simp)
qed simp

lemma bytes_nonneg: "0 \<le> bytes ls"
  by (induction ls) auto

lemma fitting_maximal: "fitting m ls used < k \<Longrightarrow> k \<le> length ls \<Longrightarrow> m < used + bytes (take k ls)"
proof (induction ls arbitrary: used k)
  case (Cons l ls)
  then obtain j where k: "k = Suc j" by (cases k) auto
  show ?case
  proof (cases "m < used + int (length l)")
    case True
    with bytes_nonneg [of "take j ls"] show ?thesis by (simp add: k)
  next
    case False
    then have "fitting m ls (used + int (length l)) < j" "j \<le> length ls" using Cons.prems k by (simp_all add: Let_def)
    from Cons.IH [OF this] show ?thesis by (simp add: k)
  qed
qed simp

lemma trim_cases:
  assumes "0 < m" and k: "k = fitting m (rev lines) 0"
  shows "trimLinesToBytes lines m =
    (if 0 < k \<and> k < length lines then truncationMarker # drop (length lines - k) lines else lines)"
  using assms fitting_le [of m "rev lines" 0] by (auto simp: trimLinesToBytes_def Let_def)

lemma bytes_rev: "bytes (rev ls) = bytes ls"
  by (induction ls) auto

lemma newest: "k \<le> length lines \<Longrightarrow> bytes (take k (rev lines)) = bytes (drop (length lines - k) lines)"
  by (metis bytes_rev rev_rev_ident take_rev)

text \<open>
  The byte limit: when the newest line fits, the lines returned are the longest tail of the
  log within the limit, led by a marker if something older was dropped.
\<close>

theorem trim_longest_tail:
  assumes limit: "0 < m" and lines: "lines \<noteq> []" and fits: "int (length (last lines)) \<le> m"
  shows "\<exists>tail. suffix tail lines \<and> bytes tail \<le> m \<and> tail \<noteq> [] \<and>
    (\<forall>t. suffix t lines \<and> bytes t \<le> m \<longrightarrow> length t \<le> length tail) \<and>
    trimLinesToBytes lines m = (if tail = lines then lines else truncationMarker # tail)"
proof -
  let ?k = "fitting m (rev lines) 0"
  let ?tail = "drop (length lines - ?k) lines"
  have le: "?k \<le> length lines" using fitting_le [of m "rev lines" 0] by simp
  have pos: "0 < ?k"
  proof -
    from lines obtain xs x where "lines = xs @ [x]" by (cases lines rule: rev_cases) auto
    with fits show ?thesis by (simp add: Let_def)
  qed
  have "bytes ?tail \<le> m" using fitting_fits [of 0 m "rev lines"] limit newest [OF le] by simp
  moreover have "length t \<le> length ?tail" if t: "suffix t lines" "bytes t \<le> m" for t
  proof (rule ccontr)
    assume "\<not> length t \<le> length ?tail"
    then have long: "?k < length t" using le by simp
    have tl: "length t \<le> length lines" using t(1) by (rule suffix_length_le)
    have "t = drop (length lines - length t) lines"
      using t(1) by (auto simp: suffix_def)
    then have "bytes t = bytes (take (length t) (rev lines))" using newest [OF tl] by simp
    with fitting_maximal [of m "rev lines" 0 "length t"] long tl t(2) show False by simp
  qed
  moreover have "suffix ?tail lines" by (rule suffix_drop)
  moreover have "?tail \<noteq> []" using pos le by simp
  moreover have "trimLinesToBytes lines m = (if ?tail = lines then lines else truncationMarker # ?tail)"
    using trim_cases [OF limit refl, of lines] pos le by (cases "?k = length lines") (auto dest: arg_cong [of _ _ length])
  ultimately show ?thesis by blast
qed

theorem trim_longest_tail_witness:
  "let lines = [''old'', ''line 1'', ''line 2'']; m = 12 in
   trimLinesToBytes lines m = [truncationMarker, ''line 1'', ''line 2''] \<and>
   (\<exists>tail. suffix tail lines \<and> bytes tail \<le> m \<and> tail \<noteq> [] \<and>
    (\<forall>t. suffix t lines \<and> bytes t \<le> m \<longrightarrow> length t \<le> length tail) \<and>
    trimLinesToBytes lines m = (if tail = lines then lines else truncationMarker # tail))"
  unfolding Let_def
  by (rule conjI, simp add: trimLinesToBytes_def, rule trim_longest_tail) simp_all

text \<open>
  A newest line longer than the limit switches the limit off: the whole log comes back, all
  older lines included, however many bytes they have.
\<close>

theorem trim_oversized_newest_keeps_all:
  assumes "0 < m" "m < int (length newest)"
  shows "trimLinesToBytes (older @ [newest]) m = older @ [newest] \<and>
    m < bytes (trimLinesToBytes (older @ [newest]) m)"
  using assms bytes_nonneg [of older] by (simp add: trimLinesToBytes_def)

theorem trim_oversized_newest_keeps_all_witness:
  "trimLinesToBytes ([''a'', ''b''] @ [''a long line'']) 4 = [''a'', ''b''] @ [''a long line''] \<and>
    4 < bytes (trimLinesToBytes ([''a'', ''b''] @ [''a long line'']) 4)"
  by (rule trim_oversized_newest_keeps_all) simp_all

section \<open>The search string\<close>

lemma back_up_step:
  "back_up s =
     (if s = [] then []
      else if validString (take (length s - snd (decodeLastRune s)) s)
      then take (length s - snd (decodeLastRune s)) s
      else back_up (take (length s - snd (decodeLastRune s)) s))"
  by (simp add: back_up.simps [of s] Let_def)

lemma back_up_longest:
  "\<not> validString s \<Longrightarrow> prefix (back_up s) s \<and> validString (back_up s) \<and>
     (\<forall>p. prefix p s \<and> validString p \<longrightarrow> length p \<le> length (back_up s))"
proof (induction s rule: back_up.induct)
  case (1 s)
  let ?s1 = "take (length s - snd (decodeLastRune s)) s"
  have ne: "s \<noteq> []" using "1.prems" by auto
  have inside: "prefix p ?s1" if "prefix p s" "validString p" for p
  proof -
    have "p \<noteq> s" using that "1.prems" by auto
    from decodeLastRune_keeps_valid_prefix [OF that(1) this that(2)]
    have "length p \<le> length ?s1" by simp
    with that(1) show ?thesis by (meson prefix_length_prefix take_is_prefix)
  qed
  show ?case
  proof (cases "validString ?s1")
    case True
    then have "back_up s = ?s1" using ne by (simp add: back_up_step [of s])
    with True inside show ?thesis by (metis prefix_length_le take_is_prefix)
  next
    case False
    then have eq: "back_up s = back_up ?s1" using ne by (simp add: back_up_step [of s])
    have "prefix (back_up ?s1) ?s1 \<and> validString (back_up ?s1) \<and>
        (\<forall>p. prefix p ?s1 \<and> validString p \<longrightarrow> length p \<le> length (back_up ?s1))"
      using "1.IH" ne False by simp
    with inside show ?thesis unfolding eq by (meson prefix_order.trans take_is_prefix)
  qed
qed

text \<open>
  A search string over the limit is cut to the longest prefix within the limit that is valid
  UTF-8, whatever bytes it holds; a shorter one is left alone.
\<close>

theorem truncate_search_longest_valid:
  "if length s \<le> n then truncateSearch s n = s
   else prefix (truncateSearch s n) (take n s) \<and> validString (truncateSearch s n) \<and>
     (\<forall>p. prefix p (take n s) \<and> validString p \<longrightarrow> length p \<le> length (truncateSearch s n))"
proof (cases "length s \<le> n \<or> validString (take n s)")
  case True
  then show ?thesis by (auto simp: truncateSearch_def dest: prefix_length_le)
next
  case False
  then have "truncateSearch s n = back_up (take n s)" by (simp add: truncateSearch_def)
  with False back_up_longest [of "take n s"] show ?thesis by simp
qed

lemma truncate_search_length: "length (truncateSearch s n) \<le> n"
proof (cases "length s \<le> n \<or> validString (take n s)")
  case True
  then show ?thesis by (auto simp: truncateSearch_def)
next
  case False
  then have "truncateSearch s n = back_up (take n s)" by (simp add: truncateSearch_def)
  moreover have "prefix (back_up (take n s)) (take n s)" using False back_up_longest [of "take n s"] by blast
  ultimately show ?thesis by (auto dest: prefix_length_le)
qed

text \<open>Two letters and a three-byte rune, cut inside the rune.\<close>

definition cut_sample :: gostring where
  "cut_sample = [CHR ''a'', CHR ''b'', CHR 0xE6, CHR 0x97, CHR 0xA5]"

theorem truncate_search_longest_valid_witness:
  "if length cut_sample \<le> 4 then truncateSearch cut_sample 4 = cut_sample
   else prefix (truncateSearch cut_sample 4) (take 4 cut_sample) \<and> validString (truncateSearch cut_sample 4) \<and>
     (\<forall>p. prefix p (take 4 cut_sample) \<and> validString p \<longrightarrow> length p \<le> length (truncateSearch cut_sample 4))"
  by (rule truncate_search_longest_valid)

section \<open>The ring buffer\<close>

text \<open>After pushing \<open>xs\<close>: the last lines are in the ring, each at its number modulo the size.\<close>

definition ring_holds :: "nat \<Rightarrow> gostring list \<Rightarrow> ring_state \<Rightarrow> bool" where
  "ring_holds n xs s \<longleftrightarrow>
     length (rg_ring s) = n \<and> rg_count s = length xs \<and> rg_pos s = length xs mod n \<and>
     (\<forall>i<length xs. length xs \<le> i + n \<longrightarrow> rg_ring s ! (i mod n) = xs ! i)"

lemma ring_holds_start: "0 < n \<Longrightarrow> ring_holds n [] (ring_start n pool)"
  by (simp add: ring_holds_def ring_start_def)

lemma mod_distinct:
  assumes "i < (m::nat)" "m < i + n"
  shows "i mod n \<noteq> m mod n"
proof
  assume "i mod n = m mod n"
  then have "(m - i) mod n = 0" using assms(1) by (metis less_imp_le mod_eq_dvd_iff_nat mod_0_imp_dvd dvd_imp_mod_0)
  moreover have "0 < m - i" "m - i < n" using assms by auto
  ultimately show False by simp
qed

lemma ring_holds_push:
  assumes n: "0 < n" and holds: "ring_holds n xs s"
  shows "ring_holds n (xs @ [l]) (ring_push n l s)"
proof -
  have pos: "rg_pos s < length (rg_ring s)" using n holds by (simp add: ring_holds_def)
  have "(rg_ring s)[rg_pos s := l] ! (i mod n) = (xs @ [l]) ! i"
    if i: "i < length (xs @ [l])" "length (xs @ [l]) \<le> i + n" for i
  proof (cases "i = length xs")
    case True
    with holds pos show ?thesis by (simp add: ring_holds_def)
  next
    case False
    then have "i < length xs" "length xs < i + n" using i by auto
    then have "i mod n \<noteq> length xs mod n" by (rule mod_distinct)
    with False i holds show ?thesis by (simp add: ring_holds_def nth_append)
  qed
  with holds show ?thesis by (simp add: ring_holds_def ring_push_def mod_Suc_eq)
qed

lemma ring_result_last:
  assumes n: "0 < n" and holds: "ring_holds n xs s"
  shows "ring_result n s = drop (length xs - n) xs"
proof (cases "length xs < n")
  case True
  then show ?thesis
    using holds by (auto simp: ring_result_def ring_holds_def intro!: nth_equalityI)
next
  case False
  let ?p = "length xs mod n" and ?d = "length xs - n"
  have ring: "length (rg_ring s) = n" "rg_pos s = ?p" "rg_count s = length xs"
    using holds by (auto simp: ring_holds_def)
  have p: "?p < n" using n by simp
  have dmod: "?d mod n = ?p" using False by (simp add: le_mod_geq)
  have at: "rg_ring s ! ((?d + k) mod n) = xs ! (?d + k)" if "k < n" for k
    using holds that False by (simp add: ring_holds_def)
  have idx: "(?d + k) mod n = (if ?p + k < n then ?p + k else ?p + k - n)" if "k < n" for k
  proof -
    have "(?d + k) mod n = (?p + k) mod n" using dmod by (metis mod_add_left_eq)
    moreover have "(?p + k) mod n = (if ?p + k < n then ?p + k else ?p + k - n)"
    proof (cases "?p + k < n")
      case False
      then have "(?p + k) mod n = (?p + k - n) mod n" by (simp add: le_mod_geq)
      moreover have "?p + k - n < n" using that p by linarith
      ultimately show ?thesis using False by simp
    qed simp
    ultimately show ?thesis by simp
  qed
  have "drop ?p (rg_ring s) @ take ?p (rg_ring s) = drop ?d xs"
  proof (rule nth_equalityI)
    show "length (drop ?p (rg_ring s) @ take ?p (rg_ring s)) = length (drop ?d xs)"
      using ring p False by simp
  next
    fix k
    assume "k < length (drop ?p (rg_ring s) @ take ?p (rg_ring s))"
    then have k: "k < n" using ring p by simp
    have "(drop ?p (rg_ring s) @ take ?p (rg_ring s)) ! k = rg_ring s ! ((?d + k) mod n)"
      using k p unfolding idx [OF k] by (simp add: nth_append ring(1) add.commute less_diff_conv)
    then show "(drop ?p (rg_ring s) @ take ?p (rg_ring s)) ! k = drop ?d xs ! k"
      using at [OF k] False by simp
  qed
  with False ring show ?thesis by (simp add: ring_result_def)
qed

lemma ring_loop_holds:
  assumes n: "0 < n" and holds: "ring_holds n xs s"
    and run: "ring_loop uni_lower search n expired k ls s = Some s'"
  shows "ring_holds n (xs @ filter (matches uni_lower search) ls) s'"
  using holds run
proof (induction ls arbitrary: xs s k)
  case (Cons l ls)
  let ?s = "if matches uni_lower search l then ring_push n l s else s"
  have "ring_holds n (xs @ filter (matches uni_lower search) [l]) ?s"
    using Cons.prems(1) ring_holds_push [OF n] by simp
  from Cons.IH [OF this] Cons.prems(2) show ?case by (auto split: if_splits)
qed simp

text \<open>
  The ring buffer refines a list of the last lines: pushing a line onto the ring has the effect
  of appending it and keeping the newest, for every ring reached by pushing, full or not.
\<close>

theorem ring_push_refines:
  assumes n: "0 < n" and holds: "ring_holds n xs s"
  shows "ring_holds n (xs @ [l]) (ring_push n l s) \<and>
    ring_result n (ring_push n l s) = (let ys = ring_result n s @ [l] in drop (length ys - n) ys)"
proof -
  have next': "ring_holds n (xs @ [l]) (ring_push n l s)" by (rule ring_holds_push [OF n holds])
  have "ring_result n (ring_push n l s) = drop (length (xs @ [l]) - n) (xs @ [l])"
    by (rule ring_result_last [OF n next'])
  moreover have "ring_result n s = drop (length xs - n) xs" by (rule ring_result_last [OF n holds])
  ultimately show ?thesis using next' n by (simp add: Let_def drop_drop Suc_diff_le split: nat_diff_split)
qed

theorem ring_push_refines_witness:
  "ring_holds 2 ([] @ [''a'']) (ring_push 2 ''a'' (ring_start 2 [''x'', ''y''])) \<and>
   ring_result 2 (ring_push 2 ''a'' (ring_start 2 [''x'', ''y''])) =
     (let ys = ring_result 2 (ring_start 2 [''x'', ''y'']) @ [''a''] in drop (length ys - 2) ys)"
  by (rule ring_push_refines) (simp_all add: ring_holds_start)

lemma ring_loop_total: "(\<And>i. \<not> expired i) \<Longrightarrow> \<exists>s'. ring_loop uni_lower search n expired k ls s = Some s'"
  by (induction ls arbitrary: s k) auto

text \<open>
  C13. Reading a log file returns the last \<open>maxLines\<close> of the lines that contain the search string
  (regardless of case), in order, cut to the byte limit, and nothing of what earlier requests left
  in the pooled ring buffer; it fails exactly if the file cannot be read, is too large, has a line
  over 256 KiB, or the time is up.
\<close>

theorem read_log_file_last_matches:
  assumes n: "0 < n" and scan: "scan_lines (lf_data f) = (lines, ok)"
  shows "readLogFile uni_lower expired pool f n search m =
    (if \<not> lf_open f then Inl LogOpen
     else case lf_stat f of
       None \<Rightarrow> Inl LogStat
     | Some sz \<Rightarrow>
         if logMaxFileSize < sz then Inl (LogTooLarge sz)
         else if \<exists>k<length lines. expired k then Inl LogContext
         else if \<not> ok \<or> \<not> lf_read_ok f then Inl LogScan
         else (let found = filter (matches uni_lower search) lines; last_n = drop (length found - n) found in
               Inr (if 0 < m then trimLinesToBytes last_n m else last_n)))"
proof -
  have stop: "ring_loop uni_lower search n expired k ls s = None \<longleftrightarrow> (\<exists>i<length ls. expired (k + i))" for k ls s
  proof (induction ls arbitrary: k s)
    case (Cons l ls)
    have "(\<exists>i<length (l # ls). expired (k + i)) \<longleftrightarrow> expired k \<or> (\<exists>i<length ls. expired (Suc k + i))"
      by (auto simp: less_Suc_eq_0_disj)
    with Cons.IH show ?case by simp
  qed simp
  have "ring_result n s = drop (length (filter (matches uni_lower search) lines) - n) (filter (matches uni_lower search) lines)"
    if "ring_loop uni_lower search n expired 0 lines (ring_start n pool) = Some s" for s
    using ring_loop_holds [OF n ring_holds_start [OF n] that] ring_result_last [OF n] by simp
  then show ?thesis
    using stop [of 0 lines "ring_start n pool"]
    by (cases "ring_loop uni_lower search n expired 0 lines (ring_start n pool)")
      (simp_all add: readLogFile_def scan Let_def split: option.split, blast+)
qed


definition sample_file :: log_file where
  "sample_file = \<lparr>lf_open = True, lf_stat = Some 24, lf_data = ''a x'' @ [CHR 0x0A] @ ''b'' @ [CHR 0x0A] @ ''c X'' @ [CHR 0x0D, CHR 0x0A] @ ''d x'', lf_read_ok = True\<rparr>"

lemma sample_file_lines: "scan_lines (lf_data sample_file) = ([''a x'', ''b'', ''c X'', ''d x''], True)"
  by (simp add: sample_file_def scan_lines_def scanLimit_def dropCR_def)

lemma read_log_file_last_matches_witness:
  "readLogFile id (\<lambda>_. False) [] sample_file 2 ''x'' 0 =
    (if \<not> lf_open sample_file then Inl LogOpen
     else case lf_stat sample_file of
       None \<Rightarrow> Inl LogStat
     | Some sz \<Rightarrow>
         if logMaxFileSize < sz then Inl (LogTooLarge sz)
         else if \<exists>k<length [''a x'', ''b'', ''c X'', ''d x'']. (\<lambda>_. False) k then Inl LogContext
         else if \<not> True \<or> \<not> lf_read_ok sample_file then Inl LogScan
         else (let found = filter (matches id ''x'') [''a x'', ''b'', ''c X'', ''d x''];
                   last_n = drop (length found - 2) found in
               Inr (if 0 < (0::int) then trimLinesToBytes last_n 0 else last_n)))"
  by (rule read_log_file_last_matches) (simp_all add: sample_file_lines)

section \<open>The journal\<close>

text \<open>The lines of the matching entries, in the order given.\<close>

definition journal_found ::
  "(rune \<Rightarrow> rune) \<Rightarrow> (int \<Rightarrow> int \<Rightarrow> gostring) \<Rightarrow> gostring \<Rightarrow> journal_entry list \<Rightarrow> gostring list" where
  "journal_found uni_lower rfc3339 search es =
     concat (map (\<lambda>e. case je_message e of
         None \<Rightarrow> []
       | Some m \<Rightarrow> (let msg = trimPrefix m ''MESSAGE='' in
                    if matches uni_lower search msg then [journal_line rfc3339 msg (je_usec e)] else [])) es)"

lemma journal_loop_full: "n \<le> length lines \<Longrightarrow> journal_loop ul rf search n expired k es lines = Inr lines"
  by (simp add: journal_loop.simps)

lemma journal_loop_found:
  assumes "\<And>i. \<not> expired i" and "rest = [] \<or> n \<le> length lines + length (journal_found ul rf search es)"
    and "length lines \<le> n"
  shows "journal_loop ul rf search n expired k (map Some es @ rest) lines =
    Inr (take n (lines @ journal_found ul rf search es))"
  using assms(2,3)
proof (induction es arbitrary: k lines)
  case Nil
  then show ?case
    by (cases "n \<le> length lines") (auto simp: journal_found_def journal_loop.simps [of ul rf] assms(1))
next
  case (Cons e es)
  show ?case
  proof (cases "n \<le> length lines")
    case True
    with Cons.prems(2) show ?thesis by (simp add: journal_loop_full)
  next
    case room: False
    let ?hit = "journal_found ul rf search [e]"
    have hit: "?hit = [] \<or> (\<exists>l. ?hit = [l])"
      by (auto simp: journal_found_def Let_def split: option.split)
    have cons: "journal_found ul rf search (e # es) = ?hit @ journal_found ul rf search es"
      by (simp add: journal_found_def)
    have step: "journal_loop ul rf search n expired k (map Some (e # es) @ rest) lines =
        journal_loop ul rf search n expired (Suc k) (map Some es @ rest) (lines @ ?hit)"
      using room
      by (subst journal_loop.simps) (simp add: assms(1) journal_found_def Let_def split: option.split)
    have "journal_loop ul rf search n expired (Suc k) (map Some es @ rest) (lines @ ?hit) =
        Inr (take n ((lines @ ?hit) @ journal_found ul rf search es))"
      by (rule Cons.IH) (use Cons.prems room hit in \<open>auto simp: cons\<close>)
    with step show ?thesis by (simp add: cons)
  qed
qed

text \<open>
  Reading the journal of a unit returns the newest \<open>maxLines\<close> matching entries, oldest first and cut
  to the byte limit; entries whose message cannot be read are skipped, and an error further back
  than the entries needed is never met.
\<close>

theorem read_journal_newest_matches:
  assumes up: "jr_open j" "jr_match j" "jr_seek j" and time_left: "\<And>i. \<not> expired i"
    and entries: "jr_entries j (''_SYSTEMD_UNIT='' @ u @ ''.service'') = map Some es @ rest"
    and enough: "rest = [] \<or> n \<le> length (journal_found ul rf search es)"
  shows "readJournalLog ul rf expired j u n search m =
    (let newest = rev (take n (journal_found ul rf search es)) in
     Inr (if 0 < m then trimLinesToBytes newest m else newest))"
proof -
  have "journal_loop ul rf search n expired 0 (map Some es @ rest) [] = Inr (take n (journal_found ul rf search es))"
    using journal_loop_found [of expired rest n "[]" ul rf search es 0] time_left enough by simp
  then show ?thesis
    using up entries by (simp add: readJournalLog_def journal_match_def Let_def)
qed

definition sample_journal :: journal where
  "sample_journal = \<lparr>jr_open = True, jr_match = True, jr_seek = True,
     jr_entries = (\<lambda>m. map Some
       [\<lparr>je_message = Some ''MESSAGE=new'', je_usec = Some 2500000\<rparr>,
        \<lparr>je_message = None, je_usec = None\<rparr>,
        \<lparr>je_message = Some ''MESSAGE=old'', je_usec = None\<rparr>] @ [None])\<rparr>"

lemma read_journal_newest_matches_witness:
  "readJournalLog id (\<lambda>_ _. ''t'') (\<lambda>_. False) sample_journal ''xray'' 2 [] 0 =
    (let newest = rev (take 2 (journal_found id (\<lambda>_ _. ''t'') []
       [\<lparr>je_message = Some ''MESSAGE=new'', je_usec = Some 2500000\<rparr>,
        \<lparr>je_message = None, je_usec = None\<rparr>,
        \<lparr>je_message = Some ''MESSAGE=old'', je_usec = None\<rparr>])) in
     Inr (if 0 < (0::int) then trimLinesToBytes newest 0 else newest))"
  by (rule read_journal_newest_matches [where rest = "[None]"])
    (simp_all add: sample_journal_def journal_found_def matches_def)

section \<open>The handler\<close>

lemma trim_length: "length (trimLinesToBytes lines m) \<le> length lines"
  by (auto simp: trimLinesToBytes_def Let_def)

lemma ring_push_length [simp]: "length (rg_ring (ring_push n l s)) = length (rg_ring s)"
  by (simp add: ring_push_def)

lemma ring_loop_length:
  "ring_loop ul search n expired k ls s = Some s' \<Longrightarrow> length (rg_ring s') = length (rg_ring s)"
  by (induction ls arbitrary: s k) (auto split: if_splits)

lemma readLogFile_length:
  assumes "readLogFile ul expired pool f n search m = Inr lines" and "0 < n"
  shows "length lines \<le> n"
proof -
  obtain ls ok where scan: "scan_lines (lf_data f) = (ls, ok)" by fastforce
  from assms(1) obtain s where run: "ring_loop ul search n expired 0 ls (ring_start n pool) = Some s"
    and lines: "lines = (if 0 < m then trimLinesToBytes (ring_result n s) m else ring_result n s)"
    by (auto simp: readLogFile_def scan Let_def split: option.splits if_splits)
  have "ring_result n s = drop (length (filter (matches ul search) ls) - n) (filter (matches ul search) ls)"
    using ring_loop_holds [OF assms(2) ring_holds_start [OF assms(2)] run] ring_result_last [OF assms(2)] by simp
  then have "length (ring_result n s) \<le> n" by simp
  with trim_length [of "ring_result n s" m] lines show ?thesis by auto
qed

lemma journal_loop_length:
  "journal_loop ul rf search n expired k es lines = Inr ls \<Longrightarrow> length lines \<le> n \<Longrightarrow> length ls \<le> n"
proof (induction es arbitrary: k lines)
  case Nil
  then show ?case by (subst (asm) journal_loop.simps) (auto split: if_splits)
next
  case (Cons e es)
  show ?case
  proof (cases "n \<le> length lines")
    case True
    with Cons.prems show ?thesis by (simp add: journal_loop_full)
  next
    case room: False
    with Cons.prems(1) obtain lines' where
      "journal_loop ul rf search n expired (Suc k) es lines' = Inr ls" "length lines' \<le> Suc (length lines)"
      by (subst (asm) journal_loop.simps) (auto simp: Let_def split: if_splits option.splits)
    with Cons.IH room show ?thesis by simp
  qed
qed

lemma readJournalLog_length:
  assumes "readJournalLog ul rf expired j u n search m = Inr lines"
  shows "length lines \<le> n"
proof -
  from assms obtain ls where "journal_loop ul rf search n expired 0 (jr_entries j (journal_match u)) [] = Inr ls"
    and lines: "lines = (if 0 < m then trimLinesToBytes (rev ls) m else rev ls)"
    by (auto simp: readJournalLog_def Let_def split: if_splits sum.splits)
  then have "length ls \<le> n" using journal_loop_length by fastforce
  with trim_length [of "rev ls" m] lines show ?thesis by auto
qed

lemma requested_lines_range: "0 < requested_lines p \<and> requested_lines p \<le> logMaxLines"
  by (auto simp: requested_lines_def logDefaultLines_def logMaxLines_def Let_def split: option.split)

lemma read_log_length:
  "read_log env cfg n search = Inr lines \<Longrightarrow> 0 < n \<Longrightarrow> length lines \<le> n"
  by (auto simp: read_log_def readJournalLog_disabled_def readJournalLog_nonlinux_def split: if_splits journal_build.splits
      dest: readLogFile_length readJournalLog_length)


end
