(* ===== verification/Stats.thy ===== *)
theory Stats
  imports Health
begin

text \<open>
  server/handlerstats.go: the combined statistics, the bytes per second computed from two of them,
  the throttled warning, and the SSE stream that sends them. The three goroutines of
  \<open>getCombinedStats\<close> run in any order, an argument. A stream meets its events in the order its
  \<open>select\<close> picks them.
\<close>

section \<open>Throttled warnings\<close>

definition bpsWarnIntervalSec :: int where
  "bpsWarnIntervalSec = 300"

text \<open>
  The two atomic halves of \<open>warnBPSOnce\<close>: the decision on the value loaded, and the
  compare-and-swap, which logs if it succeeds.
\<close>

definition warn_due :: "int \<Rightarrow> int \<Rightarrow> bool" where
  "warn_due now prev = (bpsWarnIntervalSec \<le> wrap64 (now - prev))"

definition warn_swap :: "int \<Rightarrow> int \<Rightarrow> int \<Rightarrow> bool \<times> int" where
  "warn_swap now prev stored = (if stored = prev then (True, now) else (False, stored))"

definition warnBPSOnce :: "int \<Rightarrow> int \<Rightarrow> bool \<times> int" where
  "warnBPSOnce now stored =
     (let prev = stored in if warn_due now prev then warn_swap now prev stored else (False, stored))"

section \<open>Statistics\<close>

definition zero_stats :: stats_data where
  "zero_stats = \<lparr>sd_uplink = 0, sd_downlink = 0, sd_uplink_bps = 0, sd_downlink_bps = 0, sd_uptime = 0,
     sd_sys_mem = 0, sd_goroutines = 0, sd_outbounds = None, sd_degraded = False\<rparr>"

definition degradedStatsData :: stats_data where
  "degradedStatsData = zero_stats\<lparr>sd_degraded := True, sd_outbounds := Some []\<rparr>"

definition stats_json :: "stats_data \<Rightarrow> json" where
  "stats_json d =
     JObj ([(''uplink'', JInt (sd_uplink d)), (''downlink'', JInt (sd_downlink d)),
            (''uplink_bps'', JNum (sd_uplink_bps d)), (''downlink_bps'', JNum (sd_downlink_bps d)),
            (''uptime'', JInt (sd_uptime d)), (''sys_mem'', JInt (sd_sys_mem d)),
            (''goroutines'', JInt (sd_goroutines d)), (''outbounds'', slice_json out_status_json (sd_outbounds d))]
           @ (if sd_degraded d then [(''degraded'', JBool True)] else []))"

text \<open>\<open>json.Marshal\<close> fails on infinities and NaN only, which do not occur.\<close>

definition marshal_stats :: "stats_data \<Rightarrow> json option" where
  "marshal_stats d = Some (stats_json d)"

section \<open>Bytes per second\<close>

text \<open>\<open>Duration.Seconds\<close>: whole seconds and the rest are converted on their own.\<close>

definition dur_seconds :: "duration \<Rightarrow> float64" where
  "dur_seconds d =
     (let sec = dur_div d second; nsec = d - sec * second in
      fl64 (fl64 (of_int sec) + fl64 (fl64 (of_int nsec) / 1000000000)))"

definition bps :: "int \<Rightarrow> int \<Rightarrow> float64 \<Rightarrow> float64" where
  "bps cur prev elapsed = fl64 (fl64 (of_int (wrap64 (cur - prev))) / elapsed)"

definition warn_uplink :: "'a srv_world_scheme \<Rightarrow> 'a srv_world_scheme" where
  "warn_uplink w =
     (tick w)\<lparr>s_bpsUplinkWarnLast := snd (warnBPSOnce (unix_seconds (time_now w)) (s_bpsUplinkWarnLast w))\<rparr>"

definition warn_downlink :: "'a srv_world_scheme \<Rightarrow> 'a srv_world_scheme" where
  "warn_downlink w =
     (tick w)\<lparr>s_bpsDownlinkWarnLast := snd (warnBPSOnce (unix_seconds (time_now w)) (s_bpsDownlinkWarnLast w))\<rparr>"

definition computeBPS ::
  "stats_data \<Rightarrow> stats_data \<Rightarrow> time \<Rightarrow> time \<Rightarrow> 'a srv_world_scheme \<Rightarrow> stats_data \<times> 'a srv_world_scheme" where
  "computeBPS data prev tickAt prevAt w =
     (if is_zero_time prevAt then (data, w)
      else
       (let elapsed = dur_seconds (time_sub tickAt prevAt) in
        if elapsed \<le> 0 then (data, w)
        else
         (let d1 = data\<lparr>sd_uplink_bps := bps (sd_uplink data) (sd_uplink prev) elapsed\<rparr>;
              (d2, w1) = (if sd_uplink_bps d1 < 0 then (d1\<lparr>sd_uplink_bps := 0\<rparr>, warn_uplink w) else (d1, w));
              d3 = d2\<lparr>sd_downlink_bps := bps (sd_downlink d2) (sd_downlink prev) elapsed\<rparr> in
          if sd_downlink_bps d3 < 0 then (d3\<lparr>sd_downlink_bps := 0\<rparr>, warn_downlink w1) else (d3, w1))))"

text \<open>
  The callbacks \<open>NewServer\<close> gives the broadcaster. The payload \<open>computeBPS\<close> makes does not depend on
  the state \<open>w\<close> it warns in.
\<close>

definition server_fns :: "'a srv_world_scheme \<Rightarrow> (stats_data, json) bc_fns" where
  "server_fns w =
     \<lparr>marshal = marshal_stats,
      enrichFn = Some (\<lambda>data prev tickAt prevAt. Some (fst (computeBPS data prev tickAt prevAt w))),
      zero_payload = zero_stats\<rparr>"

section \<open>Combining the sources\<close>

datatype stats_source = QuerySource | SysSource | OutboundSource

record stats_fetch =
  sf_query :: "query_stats_response rpc_result"
  sf_sys :: "sys_stats_response rpc_result"
  sf_outbounds :: "out_status list option"

definition no_fetch :: stats_fetch where
  "no_fetch = \<lparr>sf_query = (None, None), sf_sys = (None, None), sf_outbounds = None\<rparr>"

definition inbound_query :: query_stats_request where
  "inbound_query = \<lparr>qs_Pattern = ''inbound'', qs_Reset = False\<rparr>"

text \<open>One of the three goroutines.\<close>

fun fetch_source ::
  "stats_source \<Rightarrow> stats_fetch \<times> 'a srv_world_scheme \<Rightarrow> stats_fetch \<times> 'a srv_world_scheme" where
  "fetch_source QuerySource (f, w) =
     (f\<lparr>sf_query := queryStats (s_conn w) (call_no w) inbound_query\<rparr>,
      called queryStats_name (MQueryStats inbound_query) w)"
| "fetch_source SysSource (f, w) =
     (f\<lparr>sf_sys := getSysStats (s_conn w) (call_no w)\<rparr>, called getSysStats_name MSysStats w)"
| "fetch_source OutboundSource (f, w) =
     (case getAllOutboundStatuses w of (os, w1) \<Rightarrow> (f\<lparr>sf_outbounds := os\<rparr>, w1))"

definition hasSuffix :: "gostring \<Rightarrow> gostring \<Rightarrow> bool" where
  "hasSuffix s t = (length t \<le> length s \<and> drop (length s - length t) s = t)"

fun add_traffic :: "stat list \<Rightarrow> stats_data \<Rightarrow> stats_data" where
  "add_traffic [] d = d"
| "add_traffic (st # sts) d =
     add_traffic sts
       (if hasSuffix (st_Name st) ''>>>traffic>>>uplink''
        then d\<lparr>sd_uplink := wrap64 (sd_uplink d + st_Value st)\<rparr>
        else if hasSuffix (st_Name st) ''>>>traffic>>>downlink''
        then d\<lparr>sd_downlink := wrap64 (sd_downlink d + st_Value st)\<rparr> else d)"

datatype stats_error = StatsCanceled | StatsFailed

text \<open>What each source contributes: \<^const>\<open>None\<close> if it was cancelled, else the number of failures.\<close>

definition use_query :: "query_stats_response rpc_result \<Rightarrow> stats_data \<Rightarrow> (stats_data \<times> nat) option" where
  "use_query res d =
     (case res of
        (_, Some RpcCanceled) \<Rightarrow> None
      | (_, Some RpcFailed) \<Rightarrow> Some (d\<lparr>sd_degraded := True\<rparr>, 1)
      | (None, None) \<Rightarrow> Some (d, 0)
      | (Some resp, None) \<Rightarrow> Some (add_traffic (qs_Stat resp) d, 0))"

definition use_sys :: "sys_stats_response rpc_result \<Rightarrow> stats_data \<Rightarrow> (stats_data \<times> nat) option" where
  "use_sys res d =
     (case res of
        (_, Some RpcCanceled) \<Rightarrow> None
      | (_, Some RpcFailed) \<Rightarrow> Some (d\<lparr>sd_degraded := True\<rparr>, 1)
      | (None, None) \<Rightarrow> Some (d, 0)
      | (Some resp, None) \<Rightarrow>
          Some (d\<lparr>sd_uptime := SysStatsResponse_GetUptime (Some resp), sd_sys_mem := SysStatsResponse_GetSys (Some resp),
                  sd_goroutines := SysStatsResponse_GetNumGoroutine (Some resp)\<rparr>, 0))"

definition combine_stats :: "stats_fetch \<Rightarrow> stats_error + stats_data" where
  "combine_stats f =
     (case use_query (sf_query f) zero_stats of
        None \<Rightarrow> Inl StatsCanceled
      | Some (d1, n1) \<Rightarrow>
          (case use_sys (sf_sys f) d1 of
             None \<Rightarrow> Inl StatsCanceled
           | Some (d2, n2) \<Rightarrow>
               let d3 = d2\<lparr>sd_outbounds := sf_outbounds f\<rparr> in
               if 2 \<le> n1 + n2 then Inl StatsFailed else Inr d3))"

definition getCombinedStats ::
  "stats_source list \<Rightarrow> 'a srv_world_scheme \<Rightarrow> (stats_error + stats_data) \<times> 'a srv_world_scheme" where
  "getCombinedStats sched w =
     (case fold fetch_source sched (no_fetch, w) of (f, w1) \<Rightarrow> (combine_stats f, w1))"

section \<open>The stream\<close>

definition sseEventPrefix :: gostring where
  "sseEventPrefix = ''event: update'' @ [CHR 0x0A] @ ''data: ''"

definition sseEventSuffix :: gostring where
  "sseEventSuffix = [CHR 0x0A, CHR 0x0A]"

definition heartbeatBytes :: gostring where
  "heartbeatBytes = '': heartbeat'' @ [CHR 0x0A, CHR 0x0A]"

definition msg_sse_unsupported :: gostring where
  "msg_sse_unsupported = utf8_lit
     [83, 83, 69, 32, 228, 184, 141, 229, 143, 151, 230, 148, 175, 230, 140, 129, 32, 40, 104,
      116, 116, 112, 46, 70, 108, 117, 115, 104, 101, 114, 32, 228, 184, 141, 229, 143, 175,
      231, 148, 168, 41]"

definition msg_shutting_down :: gostring where
  "msg_shutting_down = utf8_lit
     [230, 156, 141, 229, 138, 161, 229, 153, 168, 230, 173, 163, 229, 156, 168, 229, 133,
      179, 233, 151, 173]"

text \<open>What a \<open>select\<close> of the handler can pick.\<close>

datatype sse_event = ConnDone | LifetimeOver | HeartbeatTick | Payload stats_data | ChannelClosed

text \<open>
  The surroundings of one stream: whether the writer can flush, which of its writes succeed, the
  order of the goroutines if the statistics have to be fetched, what the other goroutines do to the
  broadcaster while \<open>Subscribe\<close> waits and while the stream is open, and the events met. An event list that runs out is
  ended by the lifetime timer.
\<close>

record sse_env =
  se_flusher :: bool
  se_write_ok :: "nat \<Rightarrow> bool"
  se_sched :: "stats_source list"
  se_waiting :: "(stats_data, json) bcast \<Rightarrow> (stats_data, json) bcast"
  se_meanwhile :: "(stats_data, json) bcast \<Rightarrow> (stats_data, json) bcast"
  se_events :: "sse_event list"

text \<open>A failed write still sends the status line.\<close>

type_synonym stream = "nat \<times> response"

definition stream_write :: "sse_env \<Rightarrow> chunk \<Rightarrow> stream \<Rightarrow> bool \<times> stream" where
  "stream_write env c st =
     (case st of (k, rw) \<Rightarrow>
        (se_write_ok env k, (Suc k, if se_write_ok env k then write_chunk c rw else send_status 200 rw)))"

definition sseWriteEvent :: "sse_env \<Rightarrow> json \<Rightarrow> stream \<Rightarrow> bool \<times> stream" where
  "sseWriteEvent env j st =
     (case stream_write env (RawChunk sseEventPrefix) st of
        (False, st1) \<Rightarrow> (False, st1)
      | (True, st1) \<Rightarrow>
          (case stream_write env (MarshalChunk j) st1 of
             (False, st2) \<Rightarrow> (False, st2)
           | (True, st2) \<Rightarrow> stream_write env (RawChunk sseEventSuffix) st2))"

fun sse_loop :: "sse_env \<Rightarrow> sse_event list \<Rightarrow> stream \<Rightarrow> stream" where
  "sse_loop env [] st = st"
| "sse_loop env (ConnDone # es) st = st"
| "sse_loop env (LifetimeOver # es) st = st"
| "sse_loop env (HeartbeatTick # es) st =
     (case stream_write env (RawChunk heartbeatBytes) st of
        (True, st1) \<Rightarrow> sse_loop env es st1
      | (False, st1) \<Rightarrow> st1)"
| "sse_loop env (Payload d # es) st =
     (case marshal_stats d of
        None \<Rightarrow> sse_loop env es st
      | Some j \<Rightarrow>
          (case sseWriteEvent env j st of
             (True, st1) \<Rightarrow> sse_loop env es st1
           | (False, st1) \<Rightarrow> st1))"
| "sse_loop env (ChannelClosed # es) st = st"

definition sse_headers :: "response \<Rightarrow> response" where
  "sse_headers rw =
     set_header ''X-Accel-Buffering'' ''no''
       (set_header ''Connection'' ''keep-alive''
         (set_header ''Cache-Control'' ''no-cache''
           (set_header ''Content-Type'' ''text/event-stream'' rw)))"

text \<open>The first frame: the last broadcast, or else statistics fetched now, or else zeros.\<close>

definition initial_json :: "sse_env \<Rightarrow> 'a srv_world_scheme \<Rightarrow> json option \<times> 'a srv_world_scheme" where
  "initial_json env w =
     (case (case LastBroadcast (s_broadcaster w) of None \<Rightarrow> None | Some d \<Rightarrow> marshal_stats d) of
        Some j \<Rightarrow> (Some j, w)
      | None \<Rightarrow>
          (case getCombinedStats (se_sched env) w of
             (Inr d, w1) \<Rightarrow> (marshal_stats d, w1)
           | (Inl _, w1) \<Rightarrow> (marshal_stats (zero_stats\<lparr>sd_outbounds := Some []\<rparr>), w1)))"

definition stream_run :: "sse_env \<Rightarrow> json option \<Rightarrow> stream \<Rightarrow> stream" where
  "stream_run env first st =
     (case first of
        None \<Rightarrow> sse_loop env (se_events env) st
      | Some j \<Rightarrow>
          (case sseWriteEvent env j st of
             (True, st1) \<Rightarrow> sse_loop env (se_events env) st1
           | (False, st1) \<Rightarrow> st1))"

definition subscribe_stats :: "'a srv_world_scheme \<Rightarrow> chan_id \<times> 'a srv_world_scheme" where
  "subscribe_stats w =
     (next_chan (s_broadcaster w), w\<lparr>s_broadcaster := subscribe (server_fns w) (s_broadcaster w)\<rparr>)"

text \<open>The deferred calls of an admitted stream, last registered first.\<close>

definition sse_release :: "conn \<Rightarrow> chan_id \<Rightarrow> 'a srv_world_scheme \<Rightarrow> 'a srv_world_scheme" where
  "sse_release c ch w =
     (let w1 = w\<lparr>s_broadcaster := unsubscribe ch (s_broadcaster w)\<rparr>;
          w2 = w1\<lparr>s_mgr := mgr_remove (Some c) (s_mgr w1)\<rparr> in
      w2\<lparr>s_mgr := conn_close c (s_mgr w2)\<rparr>)"

definition handleStatsSSE :: "sse_env \<Rightarrow> ('a srv_world_scheme) handler" where
  "handleStatsSSE env r w =
     (let w1 = on_rw sse_headers w in
      if \<not> se_flusher env then Done (on_rw (jsonError msg_sse_unsupported 500 ''server'') w1)
      else
       (case mgr_add (s_mgr w1) of
          (None, m) \<Rightarrow> Done (on_rw (jsonError msg_shutting_down 503 ''service_unavailable'') (w1\<lparr>s_mgr := m\<rparr>))
        | (Some c, m) \<Rightarrow>
            (let (ch, w2) = subscribe_stats (w1\<lparr>s_mgr := m\<rparr>);
                 w3 = w2\<lparr>s_broadcaster := se_waiting env (s_broadcaster w2)\<rparr>;
                 (first, w4) = initial_json env w3;
                 w5 = w4\<lparr>s_broadcaster := se_meanwhile env (s_broadcaster w4)\<rparr>;
                 w6 = on_rw (\<lambda>rw. snd (stream_run env first (0, rw))) w5 in
             Done (sse_release c ch w6))))"

end
