(* ===== verification/StatsProps.thy ===== *)
theory StatsProps
  imports Stats
begin

text \<open>
  What the statistics guarantee: the failure modes of the combined statistics, the traffic totals,
  the bytes per second, the throttled warnings under interleaving, and the SSE stream.
\<close>

section \<open>Throttled warnings\<close>

text \<open>
  Goroutines inside \<open>warnBPSOnce\<close> between the load and the swap, the stored time, and the times of
  the warnings logged so far, newest first.
\<close>

record warn_sys =
  ws_stored :: int
  ws_pending :: "(int \<times> int) list"
  ws_logged :: "int list"

inductive warn_step :: "warn_sys \<Rightarrow> warn_sys \<Rightarrow> bool" where
  load: "0 \<le> now \<Longrightarrow> now < 2 ^ 62 \<Longrightarrow> warn_due now (ws_stored s) \<Longrightarrow>
    warn_step s (s\<lparr>ws_pending := (now, ws_stored s) # ws_pending s\<rparr>)"
| win: "(now, prev) \<in> set (ws_pending s) \<Longrightarrow> warn_swap now prev (ws_stored s) = (True, v) \<Longrightarrow>
    warn_step s (s\<lparr>ws_stored := v, ws_pending := remove1 (now, prev) (ws_pending s), ws_logged := now # ws_logged s\<rparr>)"
| lose: "(now, prev) \<in> set (ws_pending s) \<Longrightarrow> warn_swap now prev (ws_stored s) = (False, v) \<Longrightarrow>
    warn_step s (s\<lparr>ws_stored := v, ws_pending := remove1 (now, prev) (ws_pending s)\<rparr>)"

definition warn_start :: warn_sys where
  "warn_start = \<lparr>ws_stored = 0, ws_pending = [], ws_logged = []\<rparr>"

inductive_cases warn_stepE: "warn_step s s'"

definition warn_inv :: "warn_sys \<Rightarrow> bool" where
  "warn_inv s =
     (0 \<le> ws_stored s \<and> ws_stored s < 2 ^ 62 \<and>
      (\<forall>(now, prev)\<in>set (ws_pending s). now < 2 ^ 62 \<and> 0 \<le> prev \<and> prev + bpsWarnIntervalSec \<le> now) \<and>
      (ws_logged s \<noteq> [] \<longrightarrow> ws_stored s = hd (ws_logged s)) \<and>
      sorted_wrt (\<lambda>a b. b + bpsWarnIntervalSec \<le> a) (ws_logged s))"

lemma warn_due_exact: "0 \<le> now \<Longrightarrow> now < 2 ^ 62 \<Longrightarrow> 0 \<le> prev \<Longrightarrow> prev < 2 ^ 62 \<Longrightarrow>
    warn_due now prev \<longleftrightarrow> prev + bpsWarnIntervalSec \<le> now"
proof -
  assume "0 \<le> now" "now < 2 ^ 62" "0 \<le> prev" "prev < 2 ^ 62"
  then have "int64_ok (now - prev)" by (simp add: int64_ok_def)
  then show ?thesis by (auto simp: warn_due_def)
qed

lemma warn_inv_step: "warn_step s s' \<Longrightarrow> warn_inv s \<Longrightarrow> warn_inv s'"
proof (induction rule: warn_step.induct)
  case (load now s)
  then show ?case by (auto simp: warn_inv_def warn_due_exact)
next
  case (win now prev s v)
  then have stored: "ws_stored s = prev" "v = now" by (auto simp: warn_swap_def split: if_splits)
  have pend: "now < 2 ^ 62" "0 \<le> prev" "prev + bpsWarnIntervalSec \<le> now"
    using win.hyps(1) win.prems by (auto simp: warn_inv_def)
  have "b + bpsWarnIntervalSec \<le> now" if "b \<in> set (ws_logged s)" for b
  proof (cases "ws_logged s")
    case (Cons x xs)
    have "x = prev" using win.prems stored Cons by (simp add: warn_inv_def)
    moreover have "b = x \<or> b + bpsWarnIntervalSec \<le> x"
      using that win.prems Cons by (auto simp: warn_inv_def)
    ultimately show ?thesis using pend by (auto simp: bpsWarnIntervalSec_def)
  qed (use that in simp)
  moreover have "set (remove1 (now, prev) (ws_pending s)) \<subseteq> set (ws_pending s)" by (rule set_remove1_subset)
  ultimately show ?case
    using win.prems pend stored unfolding warn_inv_def by (auto simp: bpsWarnIntervalSec_def)
next
  case (lose now prev s v)
  moreover have "set (remove1 (now, prev) (ws_pending s)) \<subseteq> set (ws_pending s)" by (rule set_remove1_subset)
  ultimately show ?case unfolding warn_inv_def by (auto simp: warn_swap_def split: if_splits)
qed

text \<open>
  However goroutines interleave inside \<open>warnBPSOnce\<close>, two warnings of one direction are at least
  five minutes apart.
\<close>

theorem bps_warnings_spaced:
  assumes "warn_step\<^sup>*\<^sup>* warn_start s"
  shows "sorted_wrt (\<lambda>newer older. older + 300 \<le> newer) (ws_logged s)"
proof -
  from assms have "warn_inv s"
  proof (induction rule: rtranclp_induct)
    case base
    then show ?case by (simp add: warn_inv_def warn_start_def)
  next
    case (step y z)
    with warn_inv_step show ?case by blast
  qed
  then show ?thesis by (simp add: warn_inv_def bpsWarnIntervalSec_def)
qed

definition two_warners :: warn_sys where
  "two_warners = \<lparr>ws_stored = 1000, ws_pending = [(1001, 0)], ws_logged = [1000]\<rparr>"

theorem bps_warnings_spaced_witness:
  "warn_step\<^sup>*\<^sup>* warn_start two_warners \<and>
   sorted_wrt (\<lambda>newer older. older + 300 \<le> (newer::int)) (ws_logged two_warners)"
proof -
  let ?a = "warn_start\<lparr>ws_pending := [(1000, 0)]\<rparr>"
  let ?b = "warn_start\<lparr>ws_pending := [(1001, 0), (1000, 0)]\<rparr>"
  have "warn_step warn_start ?a"
    using warn_step.load [of 1000 warn_start] by (simp add: warn_start_def warn_due_exact bpsWarnIntervalSec_def)
  moreover have "warn_step ?a ?b"
    using warn_step.load [of 1001 ?a] by (simp add: warn_start_def warn_due_exact bpsWarnIntervalSec_def)
  moreover have "warn_step ?b two_warners"
    using warn_step.win [of 1000 0 ?b 1000] by (simp add: warn_start_def warn_swap_def two_warners_def)
  ultimately have run: "warn_step\<^sup>*\<^sup>* warn_start two_warners" by (meson converse_rtranclp_into_rtranclp rtranclp.rtrancl_refl)
  with bps_warnings_spaced [OF run] show ?thesis by simp
qed

section \<open>Bytes per second\<close>

lemma fl_down_pos: "1 \<le> q * 2 ^ n \<Longrightarrow> 0 < fl_down n q"
proof (induction n arbitrary: q)
  case 0
  then have "1 \<le> round_even q" by (intro round_even_ge) simp
  then have "(1::rat) \<le> of_int (round_even q)" by simp
  with fl_up_ge [of q] show ?case by auto
next
  case (Suc n)
  show ?case
  proof (cases "2 ^ 52 \<le> q")
    case True
    then show ?thesis using fl_up_ge [of q] by simp
  next
    case False
    have "1 \<le> 2 * q * 2 ^ n" using Suc.prems by (simp add: ac_simps)
    from Suc.IH [OF this] False show ?thesis by simp
  qed
qed

lemma fl64_pos: "1 / 2 ^ 60 \<le> q \<Longrightarrow> 0 < fl64 q"
proof -
  assume q: "1 / 2 ^ 60 \<le> q"
  then have "0 < q" by (rule less_le_trans [rotated]) simp
  have "(2::rat) ^ 60 \<le> 2 ^ 1074" by (rule power_increasing) simp_all
  then have "q * 2 ^ 60 \<le> q * 2 ^ 1074" using \<open>0 < q\<close> by (simp only: mult_le_cancel_left_pos)
  moreover have "1 \<le> q * 2 ^ 60" using q by (simp add: field_simps)
  ultimately have "1 \<le> q * 2 ^ 1074" by linarith
  from fl_down_pos [OF this] \<open>0 < q\<close> show ?thesis by (simp add: fl64_nonneg_eq)
qed

lemma fl64_sign: "0 \<le> q \<Longrightarrow> 0 \<le> fl64 q" "q \<le> 0 \<Longrightarrow> fl64 q \<le> 0"
  using f64.rnd_nonneg [of q] f64.rnd_mono [of q 0] by simp_all

lemma dur_div_pos: "0 < d \<Longrightarrow> dur_div d second = d div second"
  by (simp add: dur_div_def second_def)

text \<open>A positive duration has a positive number of seconds.\<close>

lemma dur_seconds_pos:
  assumes "0 < d"
  shows "0 < dur_seconds d"
proof -
  let ?s = "d div second" and ?n = "d mod second"
  have sec: "0 \<le> ?s" "0 \<le> ?n" "?n < 2 ^ 53" using assms by (simp_all add: second_def)
  have rest: "d - ?s * second = ?n" by (simp add: minus_div_mult_eq_mod)
  have n: "fl64 (of_int ?n) = of_int ?n" using f64.rnd_int [of ?n] sec by simp
  let ?x = "fl64 (of_int ?s)" and ?y = "fl64 (of_int ?n / 1000000000)"
  have nonneg: "0 \<le> ?x" "0 \<le> ?y" using sec by (auto intro: fl64_sign)
  have "1 / 2 ^ 60 \<le> ?x + ?y"
  proof (cases "1 \<le> ?s")
    case True
    then have "fl64 1 \<le> ?x" by (intro fl64_mono) simp
    then have "1 \<le> ?x" by simp
    moreover have "(1::rat) / 2 ^ 60 \<le> 1" by simp
    ultimately show ?thesis using nonneg by linarith
  next
    case False
    then have s0: "?s = 0" using sec by linarith
    then have "?n = d" using rest unfolding s0 by linarith
    then have "1 \<le> ?n" using assms by linarith
    then have "(1::rat) \<le> of_int ?n" by simp
    then have "(1::rat) / 2 ^ 30 \<le> of_int ?n / 1000000000" by simp
    then have "fl64 (1 / 2 ^ 30) \<le> ?y" by (rule fl64_mono)
    moreover have "fl64 (1 / 2 ^ 30) = 1 / 2 ^ 30" by code_simp
    moreover have "(1::rat) / 2 ^ 60 \<le> 1 / 2 ^ 30" by simp
    ultimately show ?thesis using nonneg by linarith
  qed
  then have "0 < fl64 (?x + ?y)" by (rule fl64_pos)
  then show ?thesis
    unfolding dur_seconds_def Let_def dur_div_pos [OF assms] rest n .
qed


definition bps_of :: "int \<Rightarrow> int \<Rightarrow> float64 \<Rightarrow> float64" where
  "bps_of cur prev elapsed = (if bps cur prev elapsed < 0 then 0 else bps cur prev elapsed)"

lemma bps_reset: "int64_ok (cur - prev) \<Longrightarrow> cur \<le> prev \<Longrightarrow> 0 < el \<Longrightarrow> bps_of cur prev el = 0"
  using fl64_sign(2) [of "of_int (cur - prev)"] fl64_sign(2) [of "fl64 (of_int (cur - prev)) / el"]
  by (auto simp: bps_of_def bps_def divide_le_0_iff)

lemma bps_grow: "int64_ok (cur - prev) \<Longrightarrow> prev \<le> cur \<Longrightarrow> 0 < el \<Longrightarrow>
    bps_of cur prev el = fl64 (fl64 (of_int (cur - prev)) / el)"
  using fl64_sign(1) [of "of_int (cur - prev)"] fl64_sign(1) [of "fl64 (of_int (cur - prev)) / el"]
  by (auto simp: bps_of_def bps_def)

text \<open>The payload does not depend on the state the warnings are kept in.\<close>

lemma computeBPS_payload:
  "fst (computeBPS data prev tickAt prevAt w) =
     (let el = dur_seconds (time_sub tickAt prevAt) in
      if is_zero_time prevAt \<or> el \<le> 0 then data
      else data\<lparr>sd_uplink_bps := bps_of (sd_uplink data) (sd_uplink prev) el,
                sd_downlink_bps := bps_of (sd_downlink data) (sd_downlink prev) el\<rparr>)"
  by (simp add: computeBPS_def bps_of_def Let_def)

text \<open>
  C16. Bytes per second: between two snapshots taken at increasing times each direction gets the
  rounded quotient of the growth of its counter and the elapsed seconds, which are positive, and
  exactly 0 if the counter went back; nothing else of the payload changes.
\<close>

theorem bps_exact:
  assumes counters: "int64_ok (sd_uplink data - sd_uplink prev)" "int64_ok (sd_downlink data - sd_downlink prev)"
    and times: "prevAt \<noteq> 0" "prevAt < tickAt"
    and el: "el = dur_seconds (time_sub tickAt prevAt)"
  shows "0 < el \<and> fst (computeBPS data prev tickAt prevAt w) = data\<lparr>
      sd_uplink_bps := (if sd_uplink prev \<le> sd_uplink data
        then fl64 (fl64 (of_int (sd_uplink data - sd_uplink prev)) / el) else 0),
      sd_downlink_bps := (if sd_downlink prev \<le> sd_downlink data
        then fl64 (fl64 (of_int (sd_downlink data - sd_downlink prev)) / el) else 0)\<rparr>"
proof -
  have "0 < time_sub tickAt prevAt"
    using times by (simp add: time_sub_def min_duration_def max_duration_def)
  then have pos: "0 < el" unfolding el by (rule dur_seconds_pos)
  have "fst (computeBPS data prev tickAt prevAt w) =
      data\<lparr>sd_uplink_bps := bps_of (sd_uplink data) (sd_uplink prev) el,
           sd_downlink_bps := bps_of (sd_downlink data) (sd_downlink prev) el\<rparr>"
    using pos times by (simp add: computeBPS_payload is_zero_time_def flip: el)
  with pos counters show ?thesis by (auto simp: bps_reset bps_grow)
qed

text \<open>Four seconds, 1000 bytes up, and a downlink counter that was reset.\<close>

theorem bps_exact_witness:
  "let data = zero_stats\<lparr>sd_uplink := 3000, sd_downlink := 10\<rparr>; prev = zero_stats\<lparr>sd_uplink := 2000, sd_downlink := 500\<rparr>;
       el = dur_seconds (time_sub (8 * second) (4 * second)) in
   el = 4 \<and> 0 < el \<and> fst (computeBPS data prev (8 * second) (4 * second) sample_server) = data\<lparr>
      sd_uplink_bps := (if sd_uplink prev \<le> sd_uplink data
        then fl64 (fl64 (of_int (sd_uplink data - sd_uplink prev)) / el) else 0),
      sd_downlink_bps := (if sd_downlink prev \<le> sd_downlink data
        then fl64 (fl64 (of_int (sd_downlink data - sd_downlink prev)) / el) else 0)\<rparr>"
  unfolding Let_def
  by (rule conjI, code_simp, rule bps_exact) (simp_all add: zero_stats_def int64_ok_def second_def)


section \<open>The combined statistics\<close>

definition uplink_of :: "stat list \<Rightarrow> stat list" where
  "uplink_of sts = filter (\<lambda>st. hasSuffix (st_Name st) ''>>>traffic>>>uplink'') sts"

definition downlink_of :: "stat list \<Rightarrow> stat list" where
  "downlink_of sts = filter (\<lambda>st. hasSuffix (st_Name st) ''>>>traffic>>>downlink'') sts"

lemma not_both_suffixes: "hasSuffix s ''>>>traffic>>>downlink'' \<Longrightarrow> \<not> hasSuffix s ''>>>traffic>>>uplink''"
proof
  assume d: "hasSuffix s ''>>>traffic>>>downlink''" and u: "hasSuffix s ''>>>traffic>>>uplink''"
  from d obtain p where s: "s = p @ ''>>>traffic>>>downlink''"
    by (metis append_take_drop_id hasSuffix_def)
  from u show False by (simp add: s hasSuffix_def)
qed

lemma wrap64_add: "wrap64 (wrap64 a + b) = wrap64 (a + b)"
proof -
  have "(a + 2 ^ 63) mod 2 ^ 64 - 2 ^ 63 + b + 2 ^ 63 = (a + 2 ^ 63) mod 2 ^ 64 + b" by simp
  moreover have "a + b + 2 ^ 63 = a + 2 ^ 63 + b" by simp
  ultimately show ?thesis unfolding wrap64_def by (simp only: mod_add_left_eq)
qed

lemma add_traffic_sums:
  "sd_uplink (add_traffic sts d) = (if uplink_of sts = [] then sd_uplink d
     else wrap64 (sd_uplink d + sum_list (map st_Value (uplink_of sts))))"
  "sd_downlink (add_traffic sts d) = (if downlink_of sts = [] then sd_downlink d
     else wrap64 (sd_downlink d + sum_list (map st_Value (downlink_of sts))))"
  by (induction sts arbitrary: d)
    (auto simp: uplink_of_def downlink_of_def wrap64_add add.assoc dest: not_both_suffixes)

lemma add_traffic_rest:
  "sd_degraded (add_traffic sts d) = sd_degraded d" "sd_outbounds (add_traffic sts d) = sd_outbounds d"
  "sd_uplink_bps (add_traffic sts d) = sd_uplink_bps d" "sd_downlink_bps (add_traffic sts d) = sd_downlink_bps d"
  by (induction sts arbitrary: d) auto

text \<open>
  The traffic totals are the sums over the counters named for the direction, each counted
  once, in int64 arithmetic; counters of any other name count nowhere.
\<close>

theorem traffic_totals:
  "\<exists>d. use_query (Some resp, None) zero_stats = Some (d, 0) \<and>
     sd_uplink d = wrap64 (sum_list (map st_Value (uplink_of (qs_Stat resp)))) \<and>
     sd_downlink d = wrap64 (sum_list (map st_Value (downlink_of (qs_Stat resp)))) \<and>
     set (uplink_of (qs_Stat resp)) \<inter> set (downlink_of (qs_Stat resp)) = {} \<and> \<not> sd_degraded d"
proof -
  have "sd_uplink (add_traffic (qs_Stat resp) zero_stats) = wrap64 (sum_list (map st_Value (uplink_of (qs_Stat resp))))"
    "sd_downlink (add_traffic (qs_Stat resp) zero_stats) = wrap64 (sum_list (map st_Value (downlink_of (qs_Stat resp))))"
    by (simp_all add: add_traffic_sums zero_stats_def int64_ok_def)
  moreover have "set (uplink_of (qs_Stat resp)) \<inter> set (downlink_of (qs_Stat resp)) = {}"
    using not_both_suffixes by (auto simp: uplink_of_def downlink_of_def)
  ultimately show ?thesis by (simp add: use_query_def add_traffic_rest zero_stats_def)
qed

text \<open>The observatory's part of the state: no other operation of the fetch looks at it.\<close>

lemma getAll_frame:
  "s_conn (snd (getAllOutboundStatuses w)) = s_conn w"
  "\<exists>cs. s_calls (snd (getAllOutboundStatuses w)) = s_calls w @ cs"
  by (auto simp: getAllOutboundStatuses_def obsSnapshot_def refresh_observatory_def Let_def
      split: option.split prod.split)

text \<open>A source that has run was asked once more and its answer kept, whatever ran around it.\<close>

definition asked :: "grpc_conn \<Rightarrow> stats_source set \<Rightarrow> stats_fetch \<times> 'a srv_world_scheme \<Rightarrow> bool" where
  "asked cc D fw =
     (case fw of (f, w) \<Rightarrow> s_conn w = cc \<and>
        (QuerySource \<in> D \<longrightarrow> (\<exists>n<length (s_calls w). s_calls w ! n = (queryStats_name, MQueryStats inbound_query) \<and>
            sf_query f = queryStats cc n inbound_query)) \<and>
        (SysSource \<in> D \<longrightarrow> (\<exists>n<length (s_calls w). s_calls w ! n = (getSysStats_name, MSysStats) \<and>
            sf_sys f = getSysStats cc n)))"

lemma asked_step: "asked cc D fw \<Longrightarrow> asked cc (insert src D) (fetch_source src fw)"
proof -
  assume asked: "asked cc D fw"
  obtain f w where fw: "fw = (f, w)" by (cases fw)
  have keep: "\<exists>n<length (cs @ ds). (cs @ ds) ! n = x \<and> P n" if "\<exists>n<length cs. cs ! n = x \<and> P n"
    for cs ds :: "rpc_call list" and x P
    using that by (metis length_append nth_append trans_less_add1)
  show ?thesis
  proof (cases src)
    case QuerySource
    with asked keep [of "s_calls w" _ _ "[(queryStats_name, MQueryStats inbound_query)]"] show ?thesis
      by (auto simp: fw asked_def call_no_def intro!: exI [of _ "length (s_calls w)"])
  next
    case SysSource
    with asked keep [of "s_calls w" _ _ "[(getSysStats_name, MSysStats)]"] show ?thesis
      by (auto simp: fw asked_def call_no_def intro!: exI [of _ "length (s_calls w)"])
  next
    case OutboundSource
    obtain os w1 where get: "getAllOutboundStatuses w = (os, w1)" by fastforce
    with getAll_frame [of w] obtain ds where "s_conn w1 = s_conn w" "s_calls w1 = s_calls w @ ds" by auto
    with asked keep [of "s_calls w" _ _ ds] OutboundSource get show ?thesis by (auto simp: fw asked_def)
  qed
qed

lemma asked_fold: "asked cc D fw \<Longrightarrow> asked cc (D \<union> set sched) (fold fetch_source sched fw)"
proof (induction sched arbitrary: D fw)
  case (Cons src sched)
  from Cons.IH [OF asked_step [OF Cons.prems, of src]] show ?case by simp
qed simp

definition sys_fields :: "sys_stats_response \<Rightarrow> stats_data \<Rightarrow> stats_data" where
  "sys_fields resp d = d\<lparr>sd_uptime := ss_Uptime resp, sd_sys_mem := ss_Sys resp, sd_goroutines := ss_NumGoroutine resp\<rparr>"

lemma use_cases:
  "use_query (x, Some RpcCanceled) d = None" "use_query (x, Some RpcFailed) d = Some (d\<lparr>sd_degraded := True\<rparr>, 1)"
  "use_query (None, None) d = Some (d, 0)" "use_query (Some q, None) d = Some (add_traffic (qs_Stat q) d, 0)"
  "use_sys (y, Some RpcCanceled) d = None" "use_sys (y, Some RpcFailed) d = Some (d\<lparr>sd_degraded := True\<rparr>, 1)"
  "use_sys (None, None) d = Some (d, 0)" "use_sys (Some s, None) d = Some (sys_fields s d, 0)"
  by (auto simp: use_query_def use_sys_def sys_fields_def SysStatsResponse_GetUptime_def
      SysStatsResponse_GetSys_def SysStatsResponse_GetNumGoroutine_def nil_safe_def split: option.split)

lemma sys_fields_degraded [simp]: "sd_degraded (sys_fields resp d) = sd_degraded d"
  by (simp add: sys_fields_def)

lemma combine_modes:
  "(combine_stats f = Inl StatsCanceled \<longleftrightarrow> snd (sf_query f) = Some RpcCanceled \<or> snd (sf_sys f) = Some RpcCanceled) \<and>
   (combine_stats f = Inl StatsFailed \<longleftrightarrow> snd (sf_query f) = Some RpcFailed \<and> snd (sf_sys f) = Some RpcFailed) \<and>
   (\<forall>d. combine_stats f = Inr d \<longrightarrow>
      (sd_degraded d \<longleftrightarrow> snd (sf_query f) = Some RpcFailed \<or> snd (sf_sys f) = Some RpcFailed) \<and>
      sd_uplink_bps d = 0 \<and> sd_downlink_bps d = 0 \<and> sd_outbounds d = sf_outbounds f)"
proof -
  obtain q qe s se where qs: "sf_query f = (q, qe)" "sf_sys f = (s, se)" by fastforce
  have "qe = None \<or> qe = Some RpcCanceled \<or> qe = Some RpcFailed"
    "se = None \<or> se = Some RpcCanceled \<or> se = Some RpcFailed"
    by (metis option.exhaust rpc_error.exhaust)+
  then show ?thesis
    by (cases q; cases s; elim disjE)
      (simp_all add: combine_stats_def qs use_cases add_traffic_rest sys_fields_def zero_stats_def)
qed

text \<open>
  C14. The failure modes of the combined statistics, whatever order the three sources run in: both
  statistics services are asked; a cancelled answer of either cancels the result, two failures are
  an error, one failure marks the result as degraded, and no failure does not.
\<close>

theorem stats_failure_modes:
  assumes all: "set sched = {QuerySource, SysSource, OutboundSource}" and run: "getCombinedStats sched w = (res, w1)"
  shows "\<exists>nq<length (s_calls w1). \<exists>ns<length (s_calls w1). \<exists>q s.
    s_calls w1 ! nq = (queryStats_name, MQueryStats inbound_query) \<and> q = snd (queryStats (s_conn w) nq inbound_query) \<and>
    s_calls w1 ! ns = (getSysStats_name, MSysStats) \<and> s = snd (getSysStats (s_conn w) ns) \<and>
    (res = Inl StatsCanceled \<longleftrightarrow> q = Some RpcCanceled \<or> s = Some RpcCanceled) \<and>
    (res = Inl StatsFailed \<longleftrightarrow> q = Some RpcFailed \<and> s = Some RpcFailed) \<and>
    (\<forall>d. res = Inr d \<longrightarrow> (sd_degraded d \<longleftrightarrow> q = Some RpcFailed \<or> s = Some RpcFailed))"
proof -
  obtain f v where fold: "fold fetch_source sched (no_fetch, w) = (f, v)" by fastforce
  with run have res: "res = combine_stats f" "w1 = v" by (auto simp: getCombinedStats_def)
  have "asked (s_conn w) {} (no_fetch, w)" by (simp add: asked_def)
  from asked_fold [OF this, of sched] all fold have "asked (s_conn w) {QuerySource, SysSource, OutboundSource} (f, v)"
    by simp
  then obtain nq ns where "nq < length (s_calls w1)" "s_calls w1 ! nq = (queryStats_name, MQueryStats inbound_query)"
    "sf_query f = queryStats (s_conn w) nq inbound_query" "ns < length (s_calls w1)"
    "s_calls w1 ! ns = (getSysStats_name, MSysStats)" "sf_sys f = getSysStats (s_conn w) ns"
    by (auto simp: asked_def res)
  with combine_modes [of f] show ?thesis unfolding res(1) by metis
qed

definition fetch_order :: "stats_source list" where
  "fetch_order = [SysSource, OutboundSource, QuerySource]"

theorem stats_failure_modes_witness:
  "case getCombinedStats fetch_order sample_server of (res, w1) \<Rightarrow>
    \<exists>nq<length (s_calls w1). \<exists>ns<length (s_calls w1). \<exists>q s.
    s_calls w1 ! nq = (queryStats_name, MQueryStats inbound_query) \<and> q = snd (queryStats (s_conn sample_server) nq inbound_query) \<and>
    s_calls w1 ! ns = (getSysStats_name, MSysStats) \<and> s = snd (getSysStats (s_conn sample_server) ns) \<and>
    (res = Inl StatsCanceled \<longleftrightarrow> q = Some RpcCanceled \<or> s = Some RpcCanceled) \<and>
    (res = Inl StatsFailed \<longleftrightarrow> q = Some RpcFailed \<and> s = Some RpcFailed) \<and>
    (\<forall>d. res = Inr d \<longrightarrow> (sd_degraded d \<longleftrightarrow> q = Some RpcFailed \<or> s = Some RpcFailed))"
  by (cases "getCombinedStats fetch_order sample_server")
    (simp only: prod.case, rule stats_failure_modes [of fetch_order], auto simp: fetch_order_def)


section \<open>The stream\<close>

lemma getAll_keeps:
  "s_mgr (snd (getAllOutboundStatuses w)) = s_mgr w" "w_rw (snd (getAllOutboundStatuses w)) = w_rw w"
  "s_broadcaster (snd (getAllOutboundStatuses w)) = s_broadcaster w"
  by (auto simp: getAllOutboundStatuses_def obsSnapshot_def refresh_observatory_def updateObsCache_def Let_def
      split: option.split prod.split)

lemma fetch_keeps:
  "s_mgr (snd (fetch_source src fw)) = s_mgr (snd fw) \<and> w_rw (snd (fetch_source src fw)) = w_rw (snd fw) \<and>
   s_broadcaster (snd (fetch_source src fw)) = s_broadcaster (snd fw)"
  using getAll_keeps [of "snd fw"] by (cases fw; cases src) (auto split: prod.split)

lemma fetch_all_keeps:
  "s_mgr (snd (fold fetch_source sched fw)) = s_mgr (snd fw) \<and> w_rw (snd (fold fetch_source sched fw)) = w_rw (snd fw) \<and>
   s_broadcaster (snd (fold fetch_source sched fw)) = s_broadcaster (snd fw)"
  by (induction sched arbitrary: fw) (simp_all add: fetch_keeps)

lemma combined_keeps:
  "s_mgr (snd (getCombinedStats sched w)) = s_mgr w" "w_rw (snd (getCombinedStats sched w)) = w_rw w"
  "s_broadcaster (snd (getCombinedStats sched w)) = s_broadcaster w"
  using fetch_all_keeps [of sched "(no_fetch, w)"] by (auto simp: getCombinedStats_def split: prod.split)

text \<open>The data of the first frame.\<close>

definition first_stats :: "sse_env \<Rightarrow> 'a srv_world_scheme \<Rightarrow> stats_data" where
  "first_stats env w =
     (case lastBroadcast (s_broadcaster w) of
        Some d \<Rightarrow> d
      | None \<Rightarrow> (case fst (getCombinedStats (se_sched env) w) of
                  Inr d \<Rightarrow> d | Inl _ \<Rightarrow> zero_stats\<lparr>sd_outbounds := Some []\<rparr>))"

lemma initial_json_first:
  "\<exists>w1. initial_json env w = (Some (stats_json (first_stats env w)), w1) \<and>
    s_mgr w1 = s_mgr w \<and> w_rw w1 = w_rw w \<and> s_broadcaster w1 = s_broadcaster w"
  using combined_keeps [of "se_sched env" w]
  by (cases "getCombinedStats (se_sched env) w")
    (auto simp: initial_json_def first_stats_def marshal_stats_def split: option.split sum.split)

definition frame :: "json \<Rightarrow> chunk list" where
  "frame j = [RawChunk sseEventPrefix, MarshalChunk j, RawChunk sseEventSuffix]"

text \<open>What the events call for, up to the first that ends the stream.\<close>

fun event_chunks :: "sse_event list \<Rightarrow> chunk list" where
  "event_chunks [] = []"
| "event_chunks (HeartbeatTick # es) = RawChunk heartbeatBytes # event_chunks es"
| "event_chunks (Payload d # es) = frame (stats_json d) @ event_chunks es"
| "event_chunks (_ # es) = []"

text \<open>The stream has written a prefix of \<open>cs\<close>, all of it if no write failed.\<close>

definition wrote :: "sse_env \<Rightarrow> stream \<Rightarrow> stream \<Rightarrow> chunk list \<Rightarrow> bool" where
  "wrote env st st' cs =
     (\<exists>c. rw_body (snd st') = rw_body (snd st) @ c \<and> prefix c cs \<and> ((\<forall>i. se_write_ok env i) \<longrightarrow> c = cs))"

lemma wrote_none: "wrote env st st []"
  by (simp add: wrote_def)

lemma send_status_body [simp]: "rw_body (send_status code rw) = rw_body rw"
  by (simp add: send_status_def split: option.split)

lemma write_step:
  "stream_write env c st = (True, st1) \<Longrightarrow> rw_body (snd st1) = rw_body (snd st) @ [c]"
  "stream_write env c st = (False, st1) \<Longrightarrow> rw_body (snd st1) = rw_body (snd st) \<and> \<not> (\<forall>i. se_write_ok env i)"
  by (cases st; auto simp: stream_write_def)+

lemma wrote_more:
  assumes "rw_body (snd st1) = rw_body (snd st) @ c" and "wrote env st1 st2 cs"
  shows "wrote env st st2 (c @ cs)"
  using assms by (auto simp: wrote_def)

lemma wrote_stuck:
  assumes "rw_body (snd st1) = rw_body (snd st) @ c" and "\<not> (\<forall>i. se_write_ok env i)" and "prefix c cs"
  shows "wrote env st st1 cs"
  using assms by (auto simp: wrote_def)

lemma event_step:
  "sseWriteEvent env j st = (True, st1) \<Longrightarrow> rw_body (snd st1) = rw_body (snd st) @ frame j"
  "sseWriteEvent env j st = (False, st1) \<Longrightarrow> \<not> (\<forall>i. se_write_ok env i) \<and>
     (\<exists>c. rw_body (snd st1) = rw_body (snd st) @ c \<and> prefix c (frame j))"
  by (auto simp: sseWriteEvent_def frame_def dest!: write_step split: prod.splits bool.splits)

lemma wrote_event:
  assumes ev: "sseWriteEvent env j st = (ok, st1)" and rest: "ok \<Longrightarrow> wrote env st1 st2 cs"
  shows "wrote env st (if ok then st2 else st1) (frame j @ cs)"
proof (cases ok)
  case True
  with wrote_more [OF event_step(1) rest] ev show ?thesis by simp
next
  case False
  with event_step(2) [of env j st st1] ev obtain c where
    "rw_body (snd st1) = rw_body (snd st) @ c" "prefix c (frame j)" "\<not> (\<forall>i. se_write_ok env i)"
    by auto
  with False show ?thesis by (auto intro: wrote_stuck)
qed

lemma wrote_loop: "wrote env st (sse_loop env es st) (event_chunks es)"
proof (induction es arbitrary: st rule: event_chunks.induct)
  case (2 es)
  obtain ok st1 where st1: "stream_write env (RawChunk heartbeatBytes) st = (ok, st1)" by (rule prod.exhaust)
  show ?case
  proof (cases ok)
    case True
    with wrote_more [OF write_step(1) "2.IH"] st1 show ?thesis by fastforce
  next
    case False
    with st1 write_step(2) show ?thesis by (fastforce intro: wrote_stuck [of _ _ "[]"])
  qed
next
  case (3 d es)
  obtain ok st1 where st1: "sseWriteEvent env (stats_json d) st = (ok, st1)" by (rule prod.exhaust)
  from wrote_event [OF this "3.IH"] st1 show ?case by (cases ok) (simp_all add: marshal_stats_def)
qed (simp_all add: wrote_none)

lemma wrote_run: "wrote env st (stream_run env (Some j) st) (frame j @ event_chunks (se_events env))"
proof -
  obtain ok st1 where st1: "sseWriteEvent env j st = (ok, st1)" by (rule prod.exhaust)
  from wrote_event [OF this wrote_loop] st1 show ?thesis by (cases ok) (simp_all add: stream_run_def)
qed

lemma sse_headers_body [simp]: "rw_body (sse_headers rw) = rw_body rw"
  by (simp add: sse_headers_def)

lemma server_fns_same: "server_fns w = server_fns v"
  by (simp add: server_fns_def computeBPS_payload)

lemma conn_fresh: "mgr_inv m \<Longrightarrow> mgr_add m = (Some c, m') \<Longrightarrow> c \<notin> set (connections m) \<and> connections m' = connections m @ [c]"
  by (auto simp: mgr_inv_def mgr_add_def list_all_iff split: if_splits)

lemma sse_release_sel:
  "w_rw (sse_release c ch w) = w_rw w"
  "connections (s_mgr (sse_release c ch w)) = removeAll c (connections (s_mgr w))"
  "c \<in> set (cancelled (s_mgr (sse_release c ch w)))"
  "ch \<notin> set (subscribers (s_broadcaster (sse_release c ch w)))"
  by (simp_all add: sse_release_def Let_def mgr_remove_def unsubscribe_def)


definition sample_stream :: sse_env where
  "sample_stream = \<lparr>se_flusher = True, se_write_ok = (\<lambda>i. i < 5), se_sched = fetch_order, se_waiting = id, se_meanwhile = id,
     se_events = [HeartbeatTick, Payload degradedStatsData, ConnDone]\<rparr>"

lemma sample_add: "mgr_add newManager = (Some 0, newManager\<lparr>connections := [0], next_conn := 1\<rparr>)"
  by (simp add: mgr_add_def newManager_def defaultMaxConns_def)


text \<open>
  A client over the connection limit is told that the server is shutting down, while the
  manager is not shut down; nothing is registered for it.
\<close>

theorem sse_limit_says_shutting_down:
  assumes "se_flusher env" "\<not> mgr_shutdown (s_mgr w)" "maxConns (s_mgr w) \<le> mgr_count (s_mgr w)" "rw_status (w_rw w) = None"
  shows "\<exists>w'. handleStatsSSE env r w = Done w' \<and> rw_status (w_rw w') = Some 503 \<and>
    rw_body (w_rw w') = rw_body (w_rw w) @ [MarshalChunk (error_json msg_shutting_down ''service_unavailable'')] \<and>
    s_mgr w' = s_mgr w \<and> s_broadcaster w' = s_broadcaster w"
proof -
  have "mgr_add (s_mgr w) = (None, s_mgr w)" using assms by (simp add: mgr_add_def mgr_count_def)
  then have "handleStatsSSE env r w =
      Done (on_rw (jsonError msg_shutting_down 503 ''service_unavailable'') (on_rw sse_headers w\<lparr>s_mgr := s_mgr w\<rparr>))"
    using assms(1) by (simp add: handleStatsSSE_def Let_def)
  with assms(4) show ?thesis by (simp add: jsonError_def sse_headers_def)
qed

definition full_server :: srv_world where
  "full_server = sample_server\<lparr>s_mgr := newManager\<lparr>maxConns := 0\<rparr>\<rparr>"

theorem sse_limit_says_shutting_down_witness:
  "\<exists>w'. handleStatsSSE sample_stream switch_request full_server = Done w' \<and> rw_status (w_rw w') = Some 503 \<and>
    rw_body (w_rw w') = rw_body (w_rw full_server) @ [MarshalChunk (error_json msg_shutting_down ''service_unavailable'')] \<and>
    s_mgr w' = s_mgr full_server \<and> s_broadcaster w' = s_broadcaster full_server"
  by (rule sse_limit_says_shutting_down)
    (simp_all add: sample_stream_def full_server_def newManager_def mgr_count_def)

text \<open>
  A stream that opens while both statistics services fail, with nothing broadcast yet, starts
  with a frame of zeros that is not marked as degraded, unlike the frame the broadcaster sends
  for the same failure.
\<close>

theorem sse_first_frame_hides_failure:
  assumes "lastBroadcast (s_broadcaster w) = None" and "fst (getCombinedStats (se_sched env) w) = Inl StatsFailed"
  shows "fst (initial_json env w) = Some (stats_json (zero_stats\<lparr>sd_outbounds := Some []\<rparr>)) \<and>
    stats_json (zero_stats\<lparr>sd_outbounds := Some []\<rparr>) \<noteq> stats_json degradedStatsData \<and>
    (\<exists>kvs. stats_json (zero_stats\<lparr>sd_outbounds := Some []\<rparr>) = JObj kvs \<and> map_of kvs ''degraded'' = None)"
proof -
  from assms(2) obtain w1 where "getCombinedStats (se_sched env) w = (Inl StatsFailed, w1)"
    by (metis prod.collapse)
  with assms(1) show ?thesis
    by (simp add: initial_json_def marshal_stats_def stats_json_def zero_stats_def degradedStatsData_def)
qed

definition down_server :: srv_world where
  "down_server = sample_server\<lparr>s_conn := (\<lambda>_ _. Inl RpcFailed)\<rparr>"

lemma down_combined: "fst (getCombinedStats fetch_order down_server) = Inl StatsFailed"
proof -
  let ?cc = "\<lambda>_ _. Inl RpcFailed"
  have fails: "getSysStats ?cc n = (None, Some RpcFailed)" "queryStats ?cc n q = (None, Some RpcFailed)" for n q
    by (simp_all add: getSysStats_def queryStats_def)
  obtain f v where fold: "fold fetch_source fetch_order (no_fetch, down_server) = (f, v)" by fastforce
  have "asked ?cc {} (no_fetch, down_server)" by (simp add: asked_def down_server_def)
  from asked_fold [OF this, of fetch_order] fold have "snd (sf_query f) = Some RpcFailed \<and> snd (sf_sys f) = Some RpcFailed"
    by (auto simp: asked_def fetch_order_def fails)
  with fold combine_modes [of f] show ?thesis by (simp add: getCombinedStats_def)
qed

theorem sse_first_frame_hides_failure_witness:
  "fst (initial_json sample_stream down_server) = Some (stats_json (zero_stats\<lparr>sd_outbounds := Some []\<rparr>)) \<and>
    stats_json (zero_stats\<lparr>sd_outbounds := Some []\<rparr>) \<noteq> stats_json degradedStatsData \<and>
    (\<exists>kvs. stats_json (zero_stats\<lparr>sd_outbounds := Some []\<rparr>) = JObj kvs \<and> map_of kvs ''degraded'' = None)"
  by (rule sse_first_frame_hides_failure)
    (simp_all add: sample_stream_def down_combined, simp add: down_server_def newBroadcaster_def)

section \<open>The loop with the server's callbacks\<close>

lemma combined_bps: "fst (getCombinedStats sched w) = Inr d \<Longrightarrow> sd_uplink_bps d = 0 \<and> sd_downlink_bps d = 0"
  using combine_modes by (fastforce simp: getCombinedStats_def split: prod.splits)


lemma server_tick_nonneg:
  assumes ok: "\<And>d. res = Fetched d \<Longrightarrow> sd_uplink_bps d = 0 \<and> sd_downlink_bps d = 0"
    and tick: "loop_tick (server_fns w) tm res deg v = (v', EmitBroadcast p)"
  shows "0 \<le> sd_uplink_bps p \<and> 0 \<le> sd_downlink_bps p"
  using tick ok
  by (auto simp: computeBPS_payload bps_of_def loop_tick_def enrich_and_send_def server_fns_def marshal_stats_def Let_def
      split: fetch.splits option.splits if_splits)

text \<open>
  The polling loop run with the server's callbacks on what \<open>getCombinedStats\<close> returns never
  broadcasts a negative rate, through counter resets, clock steps and failures alike.
\<close>

theorem broadcast_rates_nonneg:
  assumes fetches: "\<forall>(tm, res, deg)\<in>set ts. \<forall>d. res = Fetched d \<longrightarrow> (\<exists>sched v. fst (getCombinedStats sched (v :: srv_world)) = Inr d)"
    and sent: "EmitBroadcast p \<in> set (run_ticks (server_fns w) ts vars)"
  shows "0 \<le> sd_uplink_bps p \<and> 0 \<le> sd_downlink_bps p"
  using assms
proof (induction ts arbitrary: vars)
  case (Cons t ts)
  obtain tm res deg where t: "t = (tm, res, deg)" by (cases t) auto
  obtain v e where tick: "loop_tick (server_fns w) tm res deg vars = (v, e)" by fastforce
  have zero: "sd_uplink_bps d = 0 \<and> sd_downlink_bps d = 0" if "res = Fetched d" for d
    using Cons.prems(1) that t combined_bps by fastforce
  show ?case
  proof (cases "e = EmitBroadcast p")
    case True
    from zero tick [unfolded True] show ?thesis by (rule server_tick_nonneg)
  next
    case False
    then have "EmitBroadcast p \<in> set (run_ticks (server_fns w) ts v)"
      using Cons.prems(2) tick by (cases e) (auto simp: t)
    with Cons.IH Cons.prems(1) show ?thesis by simp
  qed
qed simp


definition sample_stats :: stats_data where
  "sample_stats = zero_stats\<lparr>sd_uplink := 7, sd_outbounds := Some []\<rparr>"

definition up_conn :: grpc_conn where
  "up_conn n call = (case snd call of
     MQueryStats _ \<Rightarrow> Inr (RQueryStats \<lparr>qs_Stat = [\<lparr>st_Name = ''inbound>>>a>>>traffic>>>uplink'', st_Value = 7\<rparr>]\<rparr>)
   | MSysStats \<Rightarrow> Inr (RSysStats \<lparr>ss_NumGoroutine = 0, ss_NumGC = 0, ss_Alloc = 0, ss_TotalAlloc = 0, ss_Sys = 0,
        ss_Mallocs = 0, ss_Frees = 0, ss_LiveObjects = 0, ss_PauseTotalNs = 0, ss_Uptime = 0\<rparr>)
   | _ \<Rightarrow> Inl RpcFailed)"

definition up_server :: srv_world where
  "up_server = sample_server\<lparr>s_conn := up_conn, s_observatoryClient := False\<rparr>"

lemma up_combined: "fst (getCombinedStats fetch_order up_server) = Inr sample_stats"
  by (simp add: getCombinedStats_def fetch_order_def up_server_def getAllOutboundStatuses_def combine_stats_def
      getSysStats_def queryStats_def up_conn_def use_cases hasSuffix_def sys_fields_def sample_stats_def zero_stats_def
      int64_ok_def)

theorem broadcast_rates_nonneg_witness:
  "EmitBroadcast sample_stats \<in> set (run_ticks (server_fns sample_server) [(5, Fetched sample_stats, None)] (init_vars (server_fns sample_server))) \<and>
   0 \<le> sd_uplink_bps sample_stats \<and> 0 \<le> sd_downlink_bps sample_stats"
proof -
  have sent: "EmitBroadcast sample_stats \<in>
      set (run_ticks (server_fns sample_server) [(5, Fetched sample_stats, None)] (init_vars (server_fns sample_server)))"
    by (simp add: loop_tick_def init_vars_def enrich_and_send_def server_fns_def marshal_stats_def computeBPS_payload
        is_zero_time_def)
  have "0 \<le> sd_uplink_bps sample_stats \<and> 0 \<le> sd_downlink_bps sample_stats"
    by (rule broadcast_rates_nonneg [OF _ sent]) (use up_combined in auto)
  with sent show ?thesis by simp
qed

end
