(* ===== verification/BroadcasterDelivery.thy ===== *)
theory BroadcasterDelivery
  imports BroadcasterProps
begin

text \<open>
  What a subscriber receives, over every interleaving of the broadcaster: the payloads the loops
  emit, in order and at most once, and all of them while it stays subscribed and its buffer has
  room. Also, that \<open>Stop\<close> can always finish.
\<close>

section \<open>Observations\<close>

text \<open>The payload a tick emits, and the payload a client takes from its channel.\<close>

fun emitted :: "('a, 'j) bc_fns \<Rightarrow> 'a bc_event \<Rightarrow> ('a, 'j) bcast \<Rightarrow> 'a list" where
  "emitted fns (ETick i (at, r, d)) b =
     (case map_of (loops b) i of
        None \<Rightarrow> []
      | Some l \<Rightarrow>
          (case snd (loop_tick fns at r d (lp_vars l)) of
             EmitDegraded p \<Rightarrow> [p]
           | EmitBroadcast p \<Rightarrow> [p]
           | _ \<Rightarrow> []))"
| "emitted fns _ b = []"

fun received :: "chan_id \<Rightarrow> 'a bc_event \<Rightarrow> ('a, 'j) bcast \<Rightarrow> 'a list" where
  "received c (EReceive c') b = (if c' = c then take 1 (buffers b c) else [])"
| "received c _ b = []"

text \<open>A payload offered to a channel, and whether its buffer had room.\<close>

fun offered :: "chan_id \<Rightarrow> 'a bc_event \<Rightarrow> ('a, 'j) bcast \<Rightarrow> ('a \<times> bool) list" where
  "offered c (ESend i) b =
     (case map_of (loops b) i of
        None \<Rightarrow> []
      | Some l \<Rightarrow>
          (case lp_phase l of
             Sending k p (c' # cs) \<Rightarrow> if c' = c then [(p, length (buffers b c) < 5)] else []
           | _ \<Rightarrow> []))"
| "offered c _ b = []"

abbreviation emits :: "('a, 'j) bc_fns \<Rightarrow> 'a bc_event list \<Rightarrow> ('a, 'j) bcast \<Rightarrow> 'a list" where
  "emits fns \<equiv> observe (emitted fns) (bc_step fns)"

abbreviation receives :: "('a, 'j) bc_fns \<Rightarrow> chan_id \<Rightarrow> 'a bc_event list \<Rightarrow> ('a, 'j) bcast \<Rightarrow> 'a list" where
  "receives fns c \<equiv> observe (received c) (bc_step fns)"

abbreviation offers :: "('a, 'j) bc_fns \<Rightarrow> chan_id \<Rightarrow> 'a bc_event list \<Rightarrow> ('a, 'j) bcast \<Rightarrow> ('a \<times> bool) list" where
  "offers fns c \<equiv> observe (offered c) (bc_step fns)"

text \<open>The payload the loop still has in hand for a channel.\<close>

fun in_hand :: "chan_id \<Rightarrow> 'a loop_phase \<Rightarrow> 'a list" where
  "in_hand c AtSelect = []"
| "in_hand c (BeforeSnapshot k p) = [p]"
| "in_hand c (Sending k p cs) = (if c \<in> set cs then [p] else [])"

definition pending :: "chan_id \<Rightarrow> ('a, 'j) bcast \<Rightarrow> 'a list" where
  "pending c b = concat (map (\<lambda>il. in_hand c (lp_phase (snd il))) (loops b))"

section \<open>One loop\<close>

lemma loops_single:
  assumes "bc_inv b" and "map_of (loops b) i = Some l"
  shows "loops b = [(i, l)]"
proof -
  have "set (gm_keys (loops b)) = {i}"
    using live_single [OF assms(1) live_elem [OF assms(2)]] by (simp add: live_def)
  moreover have "distinct (gm_keys (loops b))"
    using assms(1) by (simp add: bc_inv_def inv_loops_def gm_wf_def gm_keys_def)
  ultimately have "length (gm_keys (loops b)) = 1"
    using distinct_card [of "gm_keys (loops b)"] by simp
  with assms(2) show ?thesis by (cases "loops b") (auto simp: gm_keys_def split: if_splits)
qed

lemma loops_none: "live b = {} \<Longrightarrow> loops b = []"
  by (cases "loops b") (auto simp: live_def gm_keys_def)

lemma loops_put: "loops b = [(i, l)] \<Longrightarrow> loops (put_loop i l' b) = [(i, l')]"
  by (simp add: put_loop_def)

lemma loops_end: "loops b = [(i, l)] \<Longrightarrow> loops (loop_end i b) = []"
  by (simp add: loop_end_def)

lemma loops_start:
  "loops b = [] \<Longrightarrow> loops (start_loop fns b) = [(next_loop b, \<lparr>lp_vars = init_vars fns, lp_phase = AtSelect\<rparr>)]"
  by (simp add: start_loop_def)

text \<open>A loop that is new, or that has ended, has nothing in hand.\<close>

definition same_hand :: "('a, 'j) bcast \<Rightarrow> ('a, 'j) bcast \<Rightarrow> bool" where
  "same_hand b b' = (buffers b' = buffers b \<and>
     (loops b' = loops b \<or> loops b = [] \<and> (\<exists>i v. loops b' = [(i, \<lparr>lp_vars = v, lp_phase = AtSelect\<rparr>)]) \<or>
      loops b' = [] \<and> (\<exists>i l. loops b = [(i, l)] \<and> lp_phase l = AtSelect)))"

lemma same_handI: "buffers b' = buffers b \<Longrightarrow> loops b' = loops b \<Longrightarrow> same_hand b b'"
  by (simp add: same_hand_def)

lemma start_hand: "loops b = [] \<Longrightarrow> same_hand b (start_loop fns b)"
  by (simp add: same_hand_def loops_start start_loop_def)

lemma subscribe_hand:
  assumes inv: "bc_inv b"
  shows "same_hand b (subscribe fns b)"
proof (cases "\<not> stopped b \<and> subscribers b = [] \<and> stop_ch b = None \<and> loop_done b = None")
  case True
  then have "live b = {}" using inv by (auto simp: bc_inv_def inv_loops_def)
  then have none: "loops b = []" by (rule loops_none)
  let ?b = "(cancel_idle (b\<lparr>next_chan := Suc (next_chan b)\<rparr>))\<lparr>subscribers := [next_chan b]\<rparr>"
  have b': "subscribe fns b = start_loop fns ?b" using True by (simp add: subscribe_def Let_def)
  have "same_hand ?b (start_loop fns ?b)" using none by (intro start_hand) simp
  then show ?thesis unfolding b' by (simp add: same_hand_def none)
next
  case False
  then show ?thesis by (intro same_handI) (auto simp: subscribe_def Let_def split: option.split)
qed

lemma resume_hand:
  assumes inv: "bc_inv b" and res: "resume_subscribe fns w b = Some b'"
  shows "same_hand b b'"
proof -
  obtain ch gen d where w: "w = (ch, gen, d)" by (cases w)
  let ?b = "b\<lparr>waiters := remove1 w (waiters b)\<rparr>"
  have mem: "(ch, gen, d) \<in> set (waiters b)" "d \<in> set (finished b)"
    using res by (auto simp: resume_subscribe_def w split: if_splits)
  then have none: "loops b = []" using waiter_dead(1) [OF inv] by (blast intro: loops_none)
  have "same_hand ?b (start_loop fns ?b)" using none by (intro start_hand) simp
  moreover have "b' = start_loop fns ?b \<or> loops b' = loops b \<and> buffers b' = buffers b"
    using res by (auto simp: resume_subscribe_def w Let_def split: if_splits)
  ultimately show ?thesis by (auto simp: same_hand_def none)
qed

lemma idle_hand: "same_hand b (idle_callback b)"
  by (intro same_handI) (simp_all add: idle_callback_def)

lemma stop_hand: "same_hand b (stop_begin b)" "same_hand b (stop_finish b)"
  by (intro same_handI; simp add: stop_begin_def stop_finish_def Let_def)+

lemma unsubscribe_hand: "same_hand b (unsubscribe c b)"
  by (intro same_handI) (simp_all add: unsubscribe_def Let_def)

lemma exit_hand:
  assumes "bc_inv b" "map_of (loops b) i = Some l" "lp_phase l = AtSelect"
  shows "same_hand b (loop_end i b)"
  using assms loops_single [OF assms(1,2)] by (simp add: same_hand_def loops_end)

section \<open>What a step does to a channel\<close>

definition quiet :: "('a, 'j) bc_fns \<Rightarrow> 'a bc_event \<Rightarrow> ('a, 'j) bcast \<Rightarrow> bool" where
  "quiet fns e b = (emitted fns e b = [] \<and> (\<forall>c. received c e b = [] \<and> offered c e b = []))"

datatype 'a step_kind = Unseen | Ticks "'a list" | Snaps "chan_id list" | Sends 'a chan_id | Sent | Takes 'a chan_id

fun step_is :: "'a step_kind \<Rightarrow> ('a, 'j) bc_fns \<Rightarrow> 'a bc_event \<Rightarrow> ('a, 'j) bcast \<Rightarrow> ('a, 'j) bcast \<Rightarrow> bool" where
  "step_is Unseen fns e b b' \<longleftrightarrow> quiet fns e b \<and> same_hand b b'"
| "step_is (Ticks ps) fns e b b' \<longleftrightarrow> (\<exists>i l l'. loops b = [(i, l)] \<and> lp_phase l = AtSelect \<and> loops b' = [(i, l')] \<and>
     send_list l' = [] \<and> (\<forall>c. in_hand c (lp_phase l') = ps) \<and> buffers b' = buffers b \<and> emitted fns e b = ps \<and>
     (\<forall>c. received c e b = [] \<and> offered c e b = []))"
| "step_is (Snaps cs) fns e b b' \<longleftrightarrow> (\<exists>i l k p. loops b = [(i, l)] \<and> lp_phase l = BeforeSnapshot k p \<and>
     loops b' = [(i, l\<lparr>lp_phase := Sending k p cs\<rparr>)] \<and> distinct cs \<and> set cs = set (subscribers b) \<and>
     buffers b' = buffers b \<and> quiet fns e b)"
| "step_is (Sends p c) fns e b b' \<longleftrightarrow> (\<exists>i l k cs. loops b = [(i, l)] \<and> lp_phase l = Sending k p (c # cs) \<and>
     loops b' = [(i, l\<lparr>lp_phase := Sending k p cs\<rparr>)] \<and>
     buffers b' = (if length (buffers b c) < 5 then (buffers b)(c := buffers b c @ [p]) else buffers b) \<and>
     emitted fns e b = [] \<and>
     (\<forall>d. received d e b = [] \<and> offered d e b = (if d = c then [(p, length (buffers b c) < 5)] else [])))"
| "step_is Sent fns e b b' \<longleftrightarrow> (\<exists>i l k p. loops b = [(i, l)] \<and> lp_phase l = Sending k p [] \<and>
     loops b' = [(i, l\<lparr>lp_phase := AtSelect\<rparr>)] \<and> buffers b' = buffers b \<and> quiet fns e b)"
| "step_is (Takes p c) fns e b b' \<longleftrightarrow> (\<exists>ps. buffers b c = p # ps \<and> loops b' = loops b \<and>
     buffers b' = (buffers b)(c := ps) \<and> emitted fns e b = [] \<and>
     (\<forall>d. offered d e b = [] \<and> received d e b = (if d = c then [p] else [])))"

lemma tick_is:
  assumes inv: "bc_inv b" and step: "bc_step fns (ETick i t) b = Some b'"
  shows "\<exists>k. step_is k fns (ETick i t) b b'"
proof -
  obtain a r d where t: "t = (a, r, d)" by (cases t)
  obtain l where l: "map_of (loops b) i = Some l" and ph: "lp_phase l = AtSelect" and b': "b' = tick_step fns i t l b"
    using step by (auto split: option.splits if_splits)
  have one: "loops b = [(i, l)]" using inv l by (rule loops_single)
  obtain v e where tick: "loop_tick fns a r d (lp_vars l) = (v, e)" by fastforce
  let ?ps = "emitted fns (ETick i t) b"
  show ?thesis
  proof (cases e)
    case Quiet
    then have "step_is (Ticks ?ps) fns (ETick i t) b b'"
      by (simp add: b' t tick tick_step_def one ph loops_put send_list_def)
    then show ?thesis ..
  next
    case (EmitDegraded p)
    then have "step_is (Ticks ?ps) fns (ETick i t) b b'"
      by (simp add: b' t tick tick_step_def one ph loops_put send_list_def)
    then show ?thesis ..
  next
    case (EmitBroadcast p)
    then have "step_is (Ticks ?ps) fns (ETick i t) b b'"
      by (simp add: b' t tick tick_step_def one ph put_loop_def send_list_def)
    then show ?thesis ..
  next
    case LoopPanic
    then have "step_is Unseen fns (ETick i t) b b'"
      using exit_hand [OF inv l ph] by (simp add: b' t tick tick_step_def one quiet_def)
    then show ?thesis ..
  qed
qed

lemma snapshot_is:
  assumes inv: "bc_inv b" and step: "bc_step fns (ESnapshot i cs) b = Some b'"
  shows "step_is (Snaps cs) fns (ESnapshot i cs) b b'"
proof -
  obtain l k p where l: "map_of (loops b) i = Some l" and ph: "lp_phase l = BeforeSnapshot k p"
    and b': "b' = put_loop i (l\<lparr>lp_phase := Sending k p cs\<rparr>) b" "distinct cs" "set cs = set (subscribers b)"
    using step by (auto split: option.splits if_splits loop_phase.splits)
  have "loops b = [(i, l)]" using inv l by (rule loops_single)
  then show ?thesis using ph b' by (simp add: loops_put quiet_def)
qed

lemma send_is:
  assumes inv: "bc_inv b" and step: "bc_step fns (ESend i) b = Some b'"
  shows "\<exists>k. step_is k fns (ESend i) b b'"
proof -
  obtain l k p cs where l: "map_of (loops b) i = Some l" and ph: "lp_phase l = Sending k p cs"
    using step by (auto split: option.splits loop_phase.splits list.splits)
  have one: "loops b = [(i, l)]" using inv l by (rule loops_single)
  show ?thesis
  proof (cases cs)
    case Nil
    then have "step_is Sent fns (ESend i) b b'"
      using step by (auto simp: one ph send_done_def put_loop_def quiet_def)
    then show ?thesis ..
  next
    case (Cons c cs')
    have "c \<in> sending b" using sending_elem [OF l] ph Cons by (auto simp: send_list_def)
    then have "c \<notin> set (chan_closed b)" using inv by (auto simp: bc_inv_def inv_chan_def)
    then have "step_is (Sends p c) fns (ESend i) b b'"
      using step Cons by (auto simp: one ph send_step_def put_loop_def Let_def)
    then show ?thesis ..
  qed
qed

lemma receive_is:
  assumes "bc_step fns (EReceive c) b = Some b'"
  shows "\<exists>p. step_is (Takes p c) fns (EReceive c) b b'"
  using assms by (auto split: list.splits)

lemma step_kinds:
  assumes inv: "bc_inv b" and step: "bc_step fns e b = Some b'"
  shows "\<exists>k. step_is k fns e b b'"
proof (cases "\<exists>i t cs c. e = ETick i t \<or> e = ESnapshot i cs \<or> e = ESend i \<or> e = EReceive c")
  case True
  with tick_is [OF inv] snapshot_is [OF inv] send_is [OF inv] receive_is step show ?thesis by blast
next
  case False
  then have "quiet fns e b" by (cases e) (auto simp: quiet_def)
  moreover have "same_hand b b'"
    using False step subscribe_hand [OF inv] resume_hand [OF inv] unsubscribe_hand stop_hand exit_hand [OF inv]
      idle_hand
    by (cases e)
      (auto simp: same_handI idle_callback_def split: if_splits option.splits stop_phase.splits)
  ultimately have "step_is Unseen fns e b b'" by simp
  then show ?thesis ..
qed

text \<open>A fan-out meets every channel once.\<close>

definition tidy :: "('a, 'j) bcast \<Rightarrow> bool" where
  "tidy b = (\<forall>(i, l)\<in>set (loops b). distinct (send_list l))"

lemma tidy_step:
  assumes "bc_inv b" and "bc_step fns e b = Some b'" and "tidy b"
  shows "tidy b'"
proof -
  obtain k where "step_is k fns e b b'" using step_kinds [OF assms(1,2)] by blast
  with assms(3) show ?thesis by (cases k) (auto simp: tidy_def same_hand_def send_list_def)
qed

definition tidy_inv :: "('a, 'j) bcast \<Rightarrow> bool" where
  "tidy_inv b = (bc_inv b \<and> tidy b)"

interpretation deliv: interleaving "bc_step fns" newBroadcaster tidy_inv for fns :: "('a, 'j) bc_fns"
  by unfold_locales
    (auto simp: tidy_inv_def bc_inv_start intro: bc_inv_step tidy_step, simp add: tidy_def newBroadcaster_def)

lemmas hand_simps = pending_def same_hand_def send_list_def tidy_def

text \<open>What a client takes and what its buffer holds is what was offered and found room.\<close>

definition kept :: "('a \<times> bool) list \<Rightarrow> 'a list" where
  "kept os = map fst (filter snd os)"

lemma kept_sel [simp]:
  "kept [] = []" "kept (x # xs) = (if snd x then fst x # kept xs else kept xs)" "kept (xs @ ys) = kept xs @ kept ys"
  by (simp_all add: kept_def)

lemma kept_step:
  assumes "bc_inv b" and "bc_step fns e b = Some b'" and "rs @ buffers b c = base @ kept os"
  shows "(rs @ received c e b) @ buffers b' c = base @ kept (os @ offered c e b)"
proof -
  obtain k where "step_is k fns e b b'" using step_kinds [OF assms(1,2)] by blast
  with assms(3) show ?thesis by (cases k) (auto simp: quiet_def same_hand_def)
qed

text \<open>Offers follow the emissions; the payload still in hand comes last.\<close>

definition in_order :: "chan_id \<Rightarrow> ('a \<times> bool) list \<Rightarrow> 'a list \<Rightarrow> ('a, 'j) bcast \<Rightarrow> bool" where
  "in_order c os ps b = (\<exists>qs. ps = qs @ pending c b \<and> subseq (map fst os) qs)"

lemma in_order_step:
  assumes inv: "bc_inv b" and step: "bc_step fns e b = Some b'" and tidy: "tidy b" and ord: "in_order c os ps b"
  shows "in_order c (os @ offered c e b) (ps @ emitted fns e b) b'"
proof -
  obtain k where k: "step_is k fns e b b'" using step_kinds [OF inv step] by blast
  obtain qs where qs: "ps = qs @ pending c b" "subseq (map fst os) qs" using ord by (auto simp: in_order_def)
  have later: "subseq (map fst os) (qs @ p)" for p using qs(2) by (rule list_emb_prefix)
  show ?thesis
    unfolding in_order_def
    using k qs tidy later by (cases k) (auto simp: hand_simps quiet_def)
qed

text \<open>While a channel stays subscribed nothing emitted passes it by.\<close>

lemma subs_tick [simp]: "subscribers (tick_step fns i t l b) = subscribers b" "stopped (tick_step fns i t l b) = stopped b"
  by (auto simp: tick_step_def split: prod.split emit.split)

lemma subs_send [simp]:
  "subscribers (send_step i k p c cs l b) = subscribers b" "stopped (send_step i k p c cs l b) = stopped b"
  "subscribers (send_done i k l b) = subscribers b" "stopped (send_done i k l b) = stopped b"
  by (auto simp: send_step_def send_done_def Let_def)

lemma subs_subscribe:
  "stopped (subscribe fns b) = stopped b" "set (subscribers b) \<subseteq> set (subscribers (subscribe fns b))"
  by (auto simp: subscribe_def Let_def split: option.split)

lemma subs_resume:
  assumes "resume_subscribe fns w b = Some b'"
  shows "stopped b' = stopped b \<and> (stopped b \<or> subscribers b' = subscribers b)"
proof -
  obtain ch gen d where "w = (ch, gen, d)" by (cases w)
  with assms show ?thesis by (auto simp: resume_subscribe_def Let_def split: if_splits)
qed

lemma stays_stopped:
  assumes "bc_step fns e b = Some b'" and "stopped b"
  shows "stopped b'"
  using assms subs_resume [of fns _ b b']
  by (cases e)
    (auto simp: subs_subscribe(1) unsubscribe_def idle_callback_def stop_begin_def stop_finish_def Let_def
      split: if_splits option.splits stop_phase.splits loop_phase.splits list.splits)

lemma stays_subscribed:
  assumes inv: "bc_inv b" and step: "bc_step fns e b = Some b'" and run: "\<not> stopped b'"
    and c: "c \<in> set (subscribers b)" and un: "e \<noteq> EUnsubscribe c"
  shows "c \<in> set (subscribers b')"
proof (cases e)
  case (EResume w)
  with step run c subs_resume [of fns w b b'] show ?thesis by auto
next
  case EStopFinish
  with step run inv show ?thesis
    by (auto simp: bc_inv_def inv_stop_def stop_finish_def split: stop_phase.splits option.splits if_splits)
next
  case (EUnsubscribe d)
  have "subscribers (unsubscribe d b) = removeAll d (subscribers b)" by (simp add: unsubscribe_def Let_def)
  with EUnsubscribe step c un show ?thesis by (auto split: if_splits)
qed (use assms subs_subscribe(2) [of b fns] in
  \<open>auto simp: idle_callback_def stop_begin_def Let_def
    split: if_splits option.splits loop_phase.splits list.splits\<close>)

definition all_offered :: "chan_id \<Rightarrow> 'a list \<Rightarrow> ('a \<times> bool) list \<Rightarrow> 'a list \<Rightarrow> ('a, 'j) bcast \<Rightarrow> bool" where
  "all_offered c hand os ps b =
     (stopped b \<or> c \<in> set (subscribers b) \<and> map fst os @ pending c b = hand @ ps)"

lemma all_offered_step:
  assumes inv: "bc_inv b" and step: "bc_step fns e b = Some b'" and tidy: "tidy b" and un: "e \<noteq> EUnsubscribe c"
    and all: "all_offered c hand os ps b"
  shows "all_offered c hand (os @ offered c e b) (ps @ emitted fns e b) b'"
proof (cases "stopped b'")
  case False
  then have was: "\<not> stopped b" using stays_stopped [OF step] by blast
  with all have c: "c \<in> set (subscribers b)" and eq: "map fst os @ pending c b = hand @ ps"
    by (simp_all add: all_offered_def)
  have "c \<in> set (subscribers b')" using inv step False c un by (rule stays_subscribed)
  obtain k where k: "step_is k fns e b b'" using step_kinds [OF inv step] by blast
  have "map fst (os @ offered c e b) @ pending c b' = hand @ ps @ emitted fns e b"
    using k eq c tidy by (cases k) (auto simp: hand_simps quiet_def)
  with \<open>c \<in> set (subscribers b')\<close> show ?thesis by (simp add: all_offered_def)
qed (simp add: all_offered_def)

section \<open>Delivery\<close>

lemma delivery_kept:
  assumes "tidy_inv b1" and "bc_run fns es b1 = Some b2"
  shows "receives fns c es b1 @ buffers b2 c = buffers b1 c @ kept (offers fns c es b1)"
proof -
  let ?P = "\<lambda>rs os b. rs @ buffers b c = buffers b1 c @ kept os"
  have "?P ([] @ receives fns c es b1) ([] @ offers fns c es b1) b2"
    by (rule deliv.observed [where P = ?P, OF assms(1) _ _ assms(2)]) (use kept_step in \<open>auto simp: tidy_inv_def\<close>)
  then show ?thesis by simp
qed

lemma delivery_order:
  assumes "tidy_inv b1" and "bc_run fns es b1 = Some b2"
  shows "in_order c (offers fns c es b1) (pending c b1 @ emits fns es b1) b2"
proof -
  have "in_order c ([] @ offers fns c es b1) (pending c b1 @ emits fns es b1) b2"
  proof (rule deliv.observed [where P = "in_order c", OF assms(1) _ _ assms(2)])
    show "in_order c [] (pending c b1) b1" by (simp add: in_order_def)
  qed (auto simp: tidy_inv_def intro: in_order_step)
  then show ?thesis by simp
qed

lemma delivery_all:
  assumes "tidy_inv b1" and "bc_run fns es b1 = Some b2" and "c \<in> set (subscribers b1)"
    and "EUnsubscribe c \<notin> set es"
  shows "all_offered c (pending c b1) (offers fns c es b1) (emits fns es b1) b2"
proof -
  have "all_offered c (pending c b1) ([] @ offers fns c es b1) ([] @ emits fns es b1) b2"
  proof (rule deliv.observed [where P = "all_offered c (pending c b1)", OF assms(1) _ _ assms(2)])
    show "all_offered c (pending c b1) [] [] b1" using assms(3) by (simp add: all_offered_def)
  next
    fix xs ys s e s'
    assume "tidy_inv s" "all_offered c (pending c b1) xs ys s" "e \<in> set es" "bc_step fns e s = Some s'"
    with assms(4) show "all_offered c (pending c b1) (xs @ offered c e s) (ys @ emitted fns e s) s'"
      by (auto simp: tidy_inv_def intro!: all_offered_step)
  qed
  then show ?thesis by simp
qed

lemma kept_subseq: "subseq (kept os) (map fst os)"
  by (induction os) auto

lemma kept_all: "\<forall>(p, room)\<in>set os. room \<Longrightarrow> kept os = map fst os"
  by (induction os) auto

lemma delivered_subseq:
  assumes inv: "tidy_inv b1" and run: "bc_run fns es b1 = Some b2"
  shows "subseq (receives fns c es b1 @ buffers b2 c) (buffers b1 c @ pending c b1 @ emits fns es b1)"
proof -
  note got = delivery_kept [OF assms, of c]
  obtain qs where qs: "pending c b1 @ emits fns es b1 = qs @ pending c b2" "subseq (map fst (offers fns c es b1)) qs"
    using delivery_order [OF inv run, of c] by (auto simp: in_order_def)
  have "subseq (kept (offers fns c es b1)) (qs @ pending c b2)"
    using subseq_order.trans [OF kept_subseq qs(2)] by (rule list_emb_prefix)
  then show ?thesis unfolding got qs(1) by (simp only: subseq_append')
qed

lemma delivered_all:
  assumes inv: "tidy_inv b1" and run: "bc_run fns es b1 = Some b2"
    and sub: "c \<in> set (subscribers b1)" "\<not> stopped b2" "EUnsubscribe c \<notin> set es"
    and room: "\<forall>(p, room)\<in>set (offers fns c es b1). room"
  shows "receives fns c es b1 @ buffers b2 c @ pending c b2 = buffers b1 c @ pending c b1 @ emits fns es b1"
proof -
  have all: "kept (offers fns c es b1) @ pending c b2 = pending c b1 @ emits fns es b1"
    using delivery_all [OF inv run sub(1,3)] sub(2) kept_all [OF room] by (simp add: all_offered_def)
  have "(receives fns c es b1 @ buffers b2 c) @ pending c b2 = buffers b1 c @ kept (offers fns c es b1) @ pending c b2"
    unfolding delivery_kept [OF inv run, of c] by simp
  then show ?thesis unfolding all by simp
qed

text \<open>
  C11. Delivery: from any reachable state on, what a client takes from its channel and finds in its
  buffer are payloads the loops emitted (or had in hand for it), in that order and none twice. If it
  stays subscribed, the broadcaster is not stopped and its buffer always has room, it gets all of
  them, up to the one still in hand.
\<close>

theorem bcast_delivery:
  assumes before: "bc_run fns es1 newBroadcaster = Some b1" and run: "bc_run fns es b1 = Some b2"
  shows "subseq (receives fns c es b1 @ buffers b2 c) (buffers b1 c @ pending c b1 @ emits fns es b1) \<and>
    (c \<in> set (subscribers b1) \<and> \<not> stopped b2 \<and> EUnsubscribe c \<notin> set es \<and>
     (\<forall>(p, room)\<in>set (offers fns c es b1). room) \<longrightarrow>
       receives fns c es b1 @ buffers b2 c @ pending c b2 = buffers b1 c @ pending c b1 @ emits fns es b1)"
proof -
  have "tidy_inv b1" using before by (rule deliv.inv_reached)
  from delivered_subseq [OF this run] delivered_all [OF this run] show ?thesis by blast
qed

text \<open>Two subscribers; the second takes its payload while the loop is still sending the next.\<close>

definition two_payloads :: "nat bc_event list" where
  "two_payloads = [ETick 0 (1, Fetched 7, None), ESnapshot 0 [0, 1], ESend 0, ESend 0, ESend 0, EReceive 1,
     ETick 0 (2, Fetched 9, None), ESnapshot 0 [1, 0], ESend 0]"

theorem bcast_delivery_witness:
  "\<exists>b1 b2. bc_run nat_fns [ESubscribe, ESubscribe] newBroadcaster = Some b1 \<and>
     bc_run nat_fns two_payloads b1 = Some b2 \<and>
     receives nat_fns 1 two_payloads b1 @ buffers b2 1 @ pending 1 b2 = [7, 9] \<and>
     subseq (receives nat_fns 1 two_payloads b1 @ buffers b2 1) (buffers b1 1 @ pending 1 b1 @ emits nat_fns two_payloads b1)"
proof -
  let ?b1 = "the (bc_run nat_fns [ESubscribe, ESubscribe] newBroadcaster)"
  let ?b2 = "the (bc_run nat_fns two_payloads ?b1)"
  note run_simps = bc_run_simps two_payloads_def tick_step_def loop_tick_def enrich_and_send_def put_loop_def
    send_step_def send_done_def pending_def
  have run: "bc_run nat_fns [ESubscribe, ESubscribe] newBroadcaster = Some ?b1" "bc_run nat_fns two_payloads ?b1 = Some ?b2"
    by (simp_all add: run_simps insert_commute)
  have facts: "1 \<in> set (subscribers ?b1)" "\<not> stopped ?b2" "EUnsubscribe 1 \<notin> set two_payloads"
    "\<forall>(p, room)\<in>set (offers nat_fns 1 two_payloads ?b1). room"
    "buffers ?b1 1 @ pending 1 ?b1 @ emits nat_fns two_payloads ?b1 = [7, 9]"
    by (simp_all add: run_simps insert_commute)
  from bcast_delivery [OF run, of 1] facts run show ?thesis by (intro exI [of _ ?b1] exI [of _ ?b2]) simp
qed

section \<open>Stopping never hangs\<close>

text \<open>The steps a loop that was told to stop can take on its own, without a tick.\<close>

fun own_step :: "loop_id \<Rightarrow> 'a bc_event \<Rightarrow> bool" where
  "own_step d (ELoopExit i) = (i = d)"
| "own_step d (ESnapshot i cs) = (i = d)"
| "own_step d (ESend i) = (i = d)"
| "own_step d _ = False"

lemma frame_send [simp]:
  "stopPhase (send_step i k p c cs l b) = stopPhase b" "stop_closed (send_step i k p c cs l b) = stop_closed b"
  "stopPhase (send_done i k l b) = stopPhase b" "stop_closed (send_done i k l b) = stop_closed b"
  by (auto simp: send_step_def send_done_def Let_def)

definition can_exit :: "('a, 'j) bc_fns \<Rightarrow> loop_id \<Rightarrow> nat \<Rightarrow> ('a, 'j) bcast \<Rightarrow> bool" where
  "can_exit fns d n b =
     (\<exists>es b'. length es \<le> n \<and> list_all (own_step d) es \<and> bc_run fns es b = Some b' \<and>
        d \<in> set (finished b') \<and> stopPhase b' = stopPhase b)"

lemma can_exitI:
  assumes "bc_step fns e b = Some b1" and "own_step d e" and "stopPhase b1 = stopPhase b" and "can_exit fns d n b1"
  shows "can_exit fns d (Suc n) b"
proof -
  obtain es b' where "length es \<le> n" "list_all (own_step d) es" "bc_run fns es b1 = Some b'"
      "d \<in> set (finished b')" "stopPhase b' = stopPhase b1"
    using assms(4) unfolding can_exit_def by blast
  with assms(1-3) show ?thesis
    unfolding can_exit_def by (intro exI [of _ "e # es"] exI [of _ b']) simp
qed

lemma can_exit_select:
  assumes "loops b = [(d, l)]" and "lp_phase l = AtSelect" and "d \<in> set (stop_closed b)"
  shows "can_exit fns d 1 b"
  unfolding can_exit_def using assms by (intro exI [of _ "[ELoopExit d]"] exI [of _ "loop_end d b"]) simp

lemma can_exit_sending:
  assumes "tidy_inv b" and "loops b = [(d, l)]" and "lp_phase l = Sending k p cs" and "d \<in> set (stop_closed b)"
  shows "can_exit fns d (length cs + 2) b"
  using assms
proof (induction cs arbitrary: b l)
  case Nil
  let ?b = "send_done d k l b"
  have "can_exit fns d 1 ?b"
    using Nil by (intro can_exit_select [where l = "l\<lparr>lp_phase := AtSelect\<rparr>"]) (simp_all add: send_done_def loops_put)
  then have "can_exit fns d (Suc 1) b" using Nil by (intro can_exitI [of fns "ESend d"]) simp_all
  then show ?case by simp
next
  case (Cons c cs)
  let ?b = "send_step d k p c cs l b"
  have step: "bc_step fns (ESend d) b = Some ?b" using Cons.prems by simp
  have l: "map_of (loops b) d = Some l" using Cons.prems by simp
  have inv: "bc_inv b" using Cons.prems(1) by (simp add: tidy_inv_def)
  have "c \<in> sending b" using sending_elem [OF l] Cons.prems(3) by (auto simp: send_list_def)
  then have "c \<notin> set (chan_closed b)" using inv by (auto simp: bc_inv_def inv_chan_def)
  then have "loops ?b = [(d, l\<lparr>lp_phase := Sending k p cs\<rparr>)]"
    using Cons.prems(2) by (simp add: send_step_def put_loop_def Let_def)
  then have "can_exit fns d (length cs + 2) ?b"
    using Cons.IH [of ?b "l\<lparr>lp_phase := Sending k p cs\<rparr>"] deliv.inv_next [OF Cons.prems(1) step] Cons.prems(4) by simp
  then have "can_exit fns d (Suc (length cs + 2)) b" by (intro can_exitI [OF step]) simp_all
  then show ?case by simp
qed

lemma can_exit_mono: "can_exit fns d n b \<Longrightarrow> n \<le> m \<Longrightarrow> can_exit fns d m b"
  unfolding can_exit_def using le_trans by blast

lemma open_bound:
  assumes "bc_inv b" and "distinct cs" and "set cs \<subseteq> set (subscribers b) \<union> sending b"
  shows "length cs \<le> next_chan b"
proof -
  have "set cs \<subseteq> {..<next_chan b}" using assms(1,3) by (auto simp: bc_inv_def inv_chan_def)
  then have "card (set cs) \<le> next_chan b" by (metis card_lessThan card_mono finite_lessThan)
  with distinct_card [OF assms(2)] show ?thesis by simp
qed

lemma can_exit_told:
  assumes tidy: "tidy_inv b" and one: "loops b = [(d, l)]" and told: "d \<in> set (stop_closed b)"
  shows "can_exit fns d (next_chan b + 3) b"
proof -
  have inv: "bc_inv b" using tidy by (simp add: tidy_inv_def)
  have elem: "map_of (loops b) d = Some l" using one by simp
  show ?thesis
  proof (cases "lp_phase l")
    case AtSelect
    from can_exit_select [OF one this told] show ?thesis by (rule can_exit_mono) simp
  next
    case (Sending k p cs)
    have "distinct cs" using tidy one Sending by (simp add: tidy_inv_def tidy_def send_list_def)
    moreover have "set cs \<subseteq> sending b" using sending_elem [OF elem] Sending by (simp add: send_list_def)
    ultimately have "length cs \<le> next_chan b" using inv by (intro open_bound) auto
    then have "length cs + 2 \<le> next_chan b + 3" by simp
    with can_exit_sending [OF tidy one Sending told] show ?thesis by (rule can_exit_mono)
  next
    case (BeforeSnapshot k p)
    let ?cs = "subscribers b"
    let ?b = "put_loop d (l\<lparr>lp_phase := Sending k p ?cs\<rparr>) b"
    have dist: "distinct ?cs" using inv by (simp add: bc_inv_def inv_chan_def)
    have step: "bc_step fns (ESnapshot d ?cs) b = Some ?b" using one BeforeSnapshot dist by simp
    have "can_exit fns d (length ?cs + 2) ?b"
      using deliv.inv_next [OF tidy step] told
      by (intro can_exit_sending [of _ _ "l\<lparr>lp_phase := Sending k p ?cs\<rparr>" k p]) (simp_all add: loops_put [OF one])
    then have "can_exit fns d (Suc (length ?cs + 2)) b" by (intro can_exitI [OF step]) simp_all
    moreover have "Suc (length ?cs + 2) \<le> next_chan b + 3" using open_bound [OF inv dist] by simp
    ultimately show ?thesis by (rule can_exit_mono)
  qed
qed

text \<open>
  Stopping never hangs: from every reachable state, once \<open>Stop\<close> has been called, the loop can end by
  its own steps alone, at most three more than there are channels, and then \<open>Stop\<close> returns.
\<close>

lemma stop_returns:
  assumes total: "enrich_total fns" and before: "bc_run fns es newBroadcaster = Some b" and fresh: "stopPhase b = NotStopped"
  shows "\<exists>d drain b'. length drain \<le> next_chan b + 3 \<and> list_all (own_step d) drain \<and>
    bc_run fns (EStop # drain @ [EStopFinish]) b = Some b'"
proof -
  let ?b = "stop_begin b"
  have step: "bc_step fns EStop b = Some ?b" using fresh by simp
  have run: "bc_run fns (es @ [EStop]) newBroadcaster = Some ?b"
    by (simp only: run_events_append before option.case) (simp add: fresh)
  have tidy: "tidy_inv ?b" using run by (rule deliv.inv_reached)
  have poll: "poll_inv ?b" using poll_reached [OF total run] by simp
  have stop: "stop_ch ?b = None" "stopPhase ?b = Draining (loop_done ?b)" "next_chan ?b = next_chan b"
    by (simp_all add: stop_begin_def Let_def)
  show ?thesis
  proof (cases "loops ?b")
    case Nil
    then have "bc_run fns [EStopFinish] ?b = Some (stop_finish ?b)"
      using tidy stop(2) by (auto simp: tidy_inv_def bc_inv_def inv_loops_def live_def gm_keys_def split: option.split)
    then show ?thesis using step by (intro exI [of _ 0] exI [of _ "[]"] exI [of _ "stop_finish ?b"]) simp
  next
    case (Cons il rest)
    obtain d l where il: "il = (d, l)" by (cases il)
    then have d: "map_of (loops ?b) d = Some l" using Cons by simp
    have inv: "bc_inv ?b" using tidy by (simp add: tidy_inv_def)
    have live: "d \<in> live ?b" using d by (rule live_elem)
    have told: "d \<in> set (stop_closed ?b)" using poll live stop(1) by (auto simp: poll_inv_def)
    have own: "loop_done ?b = Some d" using inv live by (auto simp: bc_inv_def inv_loops_def)
    obtain drain b' where drain: "length drain \<le> next_chan b + 3" "list_all (own_step d) drain"
        "bc_run fns drain ?b = Some b'" "d \<in> set (finished b')" "stopPhase b' = stopPhase ?b"
      using can_exit_told [OF tidy loops_single [OF inv d] told] unfolding can_exit_def stop(3) by blast
    have "bc_run fns (drain @ [EStopFinish]) ?b = Some (stop_finish b')"
      unfolding run_events_append using drain stop(2) own by simp
    then show ?thesis using drain(1,2) step by (intro exI [of _ d] exI [of _ drain] exI [of _ "stop_finish b'"]) simp
  qed
qed

end
