(* ===== verification/Server.thy ===== *)
theory Server
  imports LogsProps StatsProps GoPath
begin

text \<open>
  server/server.go, server/handlers.go, server/frontend.go: the routes, the frontend handler, the
  shutdown and the reconnect monitor; and the routing and order of handlers of main.go. Routes are
  data (\<open>apiPatterns\<close>), looked up as \<open>http.ServeMux\<close> does, and dispatched to the handlers of the
  other theories.
\<close>

section \<open>Routing\<close>

datatype endpoint =
    EpHealth | EpConfig | EpOutbounds | EpOutboundsStatus | EpCurrentOutbound | EpStatsSSE | EpSwitchOutbound | EpLogs

type_synonym 'h pattern = "gostring option \<times> gostring \<times> 'h"

text \<open>A pattern that ends in a slash matches the whole subtree; GET matches HEAD as well.\<close>

definition path_matches :: "gostring \<Rightarrow> gostring \<Rightarrow> bool" where
  "path_matches pat path = (if last pat = CHR ''/'' then take (length pat) path = pat else pat = path)"

definition method_rank :: "gostring option \<Rightarrow> gostring \<Rightarrow> nat option" where
  "method_rank pm m =
     (case pm of
        None \<Rightarrow> Some 0
      | Some x \<Rightarrow> if x = m then Some 2 else if x = ''GET'' \<and> m = ''HEAD'' then Some 1 else None)"

text \<open>The most specific match: the longest path, then the closest method.\<close>

fun best_match ::
  "gostring \<Rightarrow> gostring \<Rightarrow> 'h pattern list \<Rightarrow> (nat \<times> nat \<times> 'h pattern) option" where
  "best_match m path [] = None"
| "best_match m path ((pm, pat, h) # ps) =
     (let rest = best_match m path ps in
      case (if path_matches pat path then method_rank pm m else None) of
        None \<Rightarrow> rest
      | Some k \<Rightarrow>
          (case rest of
             None \<Rightarrow> Some (length pat, k, pm, pat, h)
           | Some (l, k', p) \<Rightarrow>
               if l < length pat \<or> l = length pat \<and> k' < k then Some (length pat, k, pm, pat, h) else rest))"

definition clean_url :: "gostring \<Rightarrow> gostring" where
  "clean_url p =
     (if p = [] then ''/''
      else (let q = (if hd p = CHR ''/'' then p else CHR ''/'' # p); np = clean q in
            if last q = CHR ''/'' \<and> np \<noteq> ''/'' then np @ ''/'' else np))"

datatype 'h mux_answer = MuxServe 'h | MuxRedirect gostring | MuxNotAllowed "gostring list" | MuxNotFound

text \<open>The methods of the patterns a path would match, as the Allow header lists them.\<close>

definition allowed_methods :: "gostring \<Rightarrow> 'h pattern list \<Rightarrow> gostring list" where
  "allowed_methods path ps =
     (let ms = concat (map (\<lambda>(pm, pat, h). case pm of
                  Some m \<Rightarrow> if path_matches pat path \<or> path_matches pat (path @ ''/'') then [m] else []
                | None \<Rightarrow> []) ps) in
      filter (\<lambda>m. m \<in> set ms \<or> m = ''HEAD'' \<and> ''GET'' \<in> set ms) [''GET'', ''HEAD'', ''POST''])"

definition exact_match :: "(nat \<times> nat \<times> 'h pattern) option \<Rightarrow> gostring \<Rightarrow> bool" where
  "exact_match res path = (case res of Some (_, _, _, pat, _) \<Rightarrow> pat = path | None \<Rightarrow> False)"

definition mux_find :: "'h pattern list \<Rightarrow> gostring \<Rightarrow> gostring \<Rightarrow> 'h mux_answer" where
  "mux_find ps m p =
     (let path = (if m = ''CONNECT'' then p else clean_url p);
          res = best_match m path ps in
      if \<not> exact_match res path \<and> (path = [] \<or> last path \<noteq> CHR ''/'') \<and>
         exact_match (best_match m (path @ ''/'') ps) (path @ ''/'')
      then MuxRedirect (path @ ''/'')
      else if path \<noteq> p then MuxRedirect path
      else (case res of
              Some (_, _, _, _, h) \<Rightarrow> MuxServe h
            | None \<Rightarrow> if allowed_methods path ps \<noteq> [] then MuxNotAllowed (allowed_methods path ps) else MuxNotFound))"

text \<open>\<open>http.Error\<close> and the redirect handler; the body of a redirect is not modelled.\<close>

definition http_error :: "gostring \<Rightarrow> nat \<Rightarrow> response \<Rightarrow> response" where
  "http_error msg code rw =
     write_chunk (RawChunk (msg @ [CHR 0x0A]))
       (writeHeader code
         (set_header ''X-Content-Type-Options'' ''nosniff''
           (set_header ''Content-Type'' ''text/plain; charset=utf-8'' rw)))"

fun comma_sep :: "gostring list \<Rightarrow> gostring" where
  "comma_sep [] = []"
| "comma_sep [x] = x"
| "comma_sep (x # xs) = x @ '', '' @ comma_sep xs"

definition serve_mux :: "'h pattern list \<Rightarrow> ('h \<Rightarrow> ('a world_scheme) handler) \<Rightarrow> ('a world_scheme) handler" where
  "serve_mux ps run r w =
     (case mux_find ps (req_method r) (req_path r) of
        MuxServe h \<Rightarrow> run h r w
      | MuxRedirect p \<Rightarrow> Done (on_rw (\<lambda>rw. writeHeader 301 (set_header ''Location'' p rw)) w)
      | MuxNotAllowed ms \<Rightarrow>
          Done (on_rw (\<lambda>rw. http_error ''Method Not Allowed'' 405 (set_header ''Allow'' (comma_sep ms) rw)) w)
      | MuxNotFound \<Rightarrow> Done (on_rw (http_error ''404 page not found'' 404) w))"

section \<open>The API\<close>

definition apiPatterns :: "endpoint pattern list" where
  "apiPatterns =
     [(Some ''GET'', ''/api/health'', EpHealth),
      (Some ''HEAD'', ''/api/health'', EpHealth),
      (Some ''GET'', ''/api/config'', EpConfig),
      (Some ''GET'', ''/api/outbounds'', EpOutbounds),
      (Some ''GET'', ''/api/outbounds-status'', EpOutboundsStatus),
      (Some ''GET'', ''/api/current-outbound'', EpCurrentOutbound),
      (Some ''GET'', ''/api/stats-sse'', EpStatsSSE),
      (Some ''POST'', ''/api/switch-outbound'', EpSwitchOutbound),
      (Some ''GET'', ''/api/logs'', EpLogs)]"

definition config_json :: "gostring \<Rightarrow> gostring \<Rightarrow> json" where
  "config_json balancerTag logType =
     JObj [(''balancer_tag'', JStr balancerTag), (''log_type'', JStr logType)]"

definition handleGetConfig :: "('a srv_world_scheme) handler" where
  "handleGetConfig r w =
     (let logType = LogType (cfg_log (s_config w));
          logType1 = (if logType = [] then ''none'' else logType) in
      Done (on_rw (jsonResponse (config_json (BalancerTag (cfg_xray (s_config w))) logType1) 200) w))"

text \<open>
  The surroundings of the server: \<open>url.Parse\<close>, \<open>unicode.ToLower\<close> beyond ASCII, where logs are read, how
  streams run, and \<open>http.FileServer\<close> on the frontend's files.
\<close>

record 'w server_env =
  sv_url_parse :: "gostring \<Rightarrow> (gostring \<times> gostring) option"
  sv_uni_lower :: "rune \<Rightarrow> rune"
  sv_logs :: log_env
  sv_sse :: sse_env
  sv_files :: "'w handler"

fun run_endpoint :: "('a srv_world_scheme) server_env \<Rightarrow> endpoint \<Rightarrow> ('a srv_world_scheme) handler" where
  "run_endpoint env EpHealth r w = handleHealthCheck r w"
| "run_endpoint env EpConfig r w = handleGetConfig r w"
| "run_endpoint env EpOutbounds r w = handleGetOutbounds (sv_uni_lower env) r w"
| "run_endpoint env EpOutboundsStatus r w = handleGetOutboundsStatus r w"
| "run_endpoint env EpCurrentOutbound r w = handleGetCurrentOutbound (sv_uni_lower env) r w"
| "run_endpoint env EpStatsSSE r w = handleStatsSSE (sv_sse env) r w"
| "run_endpoint env EpSwitchOutbound r w = handleSwitchOutbound r w"
| "run_endpoint env EpLogs r w = handleGetLogs (sv_logs env) r w"

definition registerHandlers :: "('a srv_world_scheme) server_env \<Rightarrow> ('a srv_world_scheme) handler" where
  "registerHandlers env = serve_mux apiPatterns (run_endpoint env)"

section \<open>The frontend\<close>

definition registerFrontend :: "bool \<Rightarrow> ('a world_scheme) handler \<Rightarrow> ('a world_scheme) handler" where
  "registerFrontend devMode files r w =
     files r
       (if \<not> devMode \<and> req_path r \<noteq> ''/'' \<and> req_path r \<noteq> ''/index.html''
        then on_rw (set_header ''Cache-Control'' ''public, max-age=3600'') w else w)"

section \<open>The handler of the program\<close>

datatype main_route = ApiSubtree | FrontendRoot

definition mainPatterns :: "main_route pattern list" where
  "mainPatterns = [(None, ''/api/'', ApiSubtree), (None, ''/'', FrontendRoot)]"

fun run_main_route ::
  "bool \<Rightarrow> config \<Rightarrow> ('a srv_world_scheme) server_env \<Rightarrow> main_route \<Rightarrow> ('a srv_world_scheme) handler" where
  "run_main_route devMode cfg env ApiSubtree r w =
     checkOrigin (sv_url_parse env) (AllowedOrigins (cfg_server cfg)) (registerHandlers env) r w"
| "run_main_route devMode cfg env FrontendRoot r w = registerFrontend devMode (sv_files env) r w"

definition mainMux ::
  "bool \<Rightarrow> config \<Rightarrow> ('a srv_world_scheme) server_env \<Rightarrow> ('a srv_world_scheme) handler" where
  "mainMux devMode cfg env = serve_mux mainPatterns (run_main_route devMode cfg env)"

definition finalHandler ::
  "bool \<Rightarrow> config \<Rightarrow> ('a srv_world_scheme) server_env \<Rightarrow> ('a srv_world_scheme) handler" where
  "finalHandler devMode cfg env =
     middleware_chain (TrustProxyHeaders (cfg_server cfg)) (Username (cfg_auth cfg)) (Password (cfg_auth cfg))
       (mainMux devMode cfg env)"

section \<open>Shutdown\<close>

text \<open>
  \<open>Shutdown\<close>: the server's context is cancelled, the broadcaster is stopped, which waits for the
  loop to end (\<open>drain\<close> are the steps of the other goroutines meanwhile), the connections are
  closed, and the monitor goroutine is waited for. \<^const>\<open>None\<close> where a wait does not end.
\<close>

definition server_shutdown ::
  "stats_data bc_event list \<Rightarrow> bool \<Rightarrow> 'a srv_world_scheme \<Rightarrow> 'a srv_world_scheme option" where
  "server_shutdown drain monitorEnds w =
     (let w1 = w\<lparr>s_ctxDone := True\<rparr> in
      case bc_run (server_fns w1) (EStop # drain @ [EStopFinish]) (s_broadcaster w1) of
        None \<Rightarrow> None
      | Some b \<Rightarrow>
          (let w2 = w1\<lparr>s_broadcaster := b\<rparr>; w3 = w2\<lparr>s_mgr := mgr_closeAll (s_mgr w2)\<rparr> in
           if monitorEnds then Some w3 else None))"

end
