(* ===== verification/ServerProps.thy ===== *)
theory ServerProps
  imports Server MiddlewareProps BroadcasterDelivery
begin

text \<open>
  Properties of the whole request path: the routing table, who can reach the one operation that
  changes Xray, and the state after the shutdown.
\<close>

section \<open>Handlers that only read\<close>

fun is_override :: "rpc_call \<Rightarrow> bool" where
  "is_override (_, MOverrideBalancerTarget _) = True"
| "is_override _ = False"

definition only_reads :: "'a srv_world_scheme \<Rightarrow> 'a srv_world_scheme \<Rightarrow> bool" where
  "only_reads w w' = (\<exists>cs. s_calls w' = s_calls w @ cs \<and> (\<forall>c\<in>set cs. \<not> is_override c))"

named_theorems reads

lemma only_reads_refl [reads]: "s_calls w' = s_calls w \<Longrightarrow> only_reads w w'"
  by (simp add: only_reads_def)

lemma only_reads_trans: "only_reads w v \<Longrightarrow> only_reads v w' \<Longrightarrow> only_reads w w'"
  unfolding only_reads_def by (metis UnE append.assoc set_append)

lemma only_reads_call: "\<not> is_override (n, m) \<Longrightarrow> s_calls w' = s_calls w @ [(n, m)] \<Longrightarrow> only_reads w w'"
  by (auto simp: only_reads_def)

lemma only_reads_cong: "s_calls w = s_calls v \<Longrightarrow> s_calls w' = s_calls v' \<Longrightarrow> only_reads v v' \<Longrightarrow> only_reads w w'"
  by (simp add: only_reads_def)

lemma reads_config: "only_reads w (outcome_world (handleGetConfig r w))"
  by (simp add: handleGetConfig_def Let_def only_reads_refl)

lemma reads_logs: "only_reads w (outcome_world (handleGetLogs env r w))"
  by (auto simp: handleGetLogs_def Let_def intro!: only_reads_refl split: sum.split)

lemma reads_outbounds: "only_reads w (outcome_world (handleGetOutbounds ul r w))"
  by (auto simp: handleGetOutbounds_def Let_def intro!: only_reads_call [of listOutbounds_name MListOutbounds]
      split: prod.split option.split)

lemma reads_statuses: "only_reads w (snd (getAllOutboundStatuses w))"
  by (auto simp: only_reads_def getAllOutboundStatuses_def obsSnapshot_def refresh_observatory_def Let_def
      split: option.split prod.split)

lemma reads_outbounds_status: "only_reads w (outcome_world (handleGetOutboundsStatus r w))"
  using reads_statuses [of w]
  by (auto simp: handleGetOutboundsStatus_def only_reads_def split: prod.split)

lemma reads_excluded: "only_reads w (snd (buildExcludedTags ul w))"
  by (auto simp: only_reads_def buildExcludedTags_def excludedTagsSnapshot_def refresh_excluded_def
      updateExcludedTagsCache_def Let_def split: option.split prod.split)

lemma reads_best: "only_reads w (snd (findBestAvailableNode ul w))"
proof -
  obtain ss w1 where w1: "getAllOutboundStatuses w = (ss, w1)" by fastforce
  with reads_statuses [of w] have "only_reads w w1" by simp
  with only_reads_trans [OF this reads_excluded [of w1 ul]] w1 show ?thesis
    by (auto simp: findBestAvailableNode_def only_reads_refl split: option.split prod.split)
qed

lemma reads_current: "only_reads w (outcome_world (handleGetCurrentOutbound ul r w))"
proof -
  let ?m = "\<lparr>bi_Tag = BalancerTag (cfg_xray (s_config w))\<rparr>"
  let ?w1 = "called getBalancerInfo_name (MGetBalancerInfo ?m) w"
  have w1: "only_reads w ?w1" by (rule only_reads_call [of getBalancerInfo_name "MGetBalancerInfo ?m"]) simp_all
  from only_reads_trans [OF w1 reads_best [of ?w1 ul]] w1 show ?thesis
    by (auto simp: handleGetCurrentOutbound_def Let_def only_reads_def split: option.split prod.split)
qed

lemma reads_health: "only_reads w (outcome_world (handleHealthCheck r w))"
proof -
  have probe: "only_reads v (snd (health_probe v))" for v :: "'a srv_world_scheme"
    by (auto simp: only_reads_def health_probe_def Let_def split: prod.split option.split)
  obtain c fresh w1 where w1: "health_read w = ((c, fresh), w1)" by (metis prod.exhaust)
  then have "s_calls w1 = s_calls w" by (auto simp: health_read_def Let_def split: if_splits)
  with w1 probe [of w1] show ?thesis
    by (auto simp: handleHealthCheck_def only_reads_def split: prod.split)
qed

lemma reads_fetch: "only_reads (snd fw) (snd (fetch_source src fw))"
proof (cases fw)
  case (Pair f w)
  with reads_statuses [of w] show ?thesis by (cases src) (auto simp: only_reads_def split: prod.split)
qed

lemma reads_combined: "only_reads w (snd (getCombinedStats sched w))"
proof -
  have "only_reads (snd fw) (snd (fold fetch_source sched fw))" for fw :: "stats_fetch \<times> 'a srv_world_scheme"
  proof (induction sched arbitrary: fw)
    case (Cons src sched)
    from only_reads_trans [OF reads_fetch Cons.IH] show ?case by simp
  qed (simp add: only_reads_refl)
  from this [of "(no_fetch, w)"] show ?thesis by (auto simp: getCombinedStats_def split: prod.split)
qed

lemma reads_initial: "only_reads w (snd (initial_json env w))"
  using reads_combined [of w "se_sched env"]
  by (auto simp: initial_json_def intro: only_reads_refl split: option.split prod.split sum.split)

lemma reads_sse: "only_reads w (outcome_world (handleStatsSSE env r w))"
proof (cases "se_flusher env \<and> (\<exists>c m. mgr_add (s_mgr w) = (Some c, m))")
  case False
  then show ?thesis
    by (auto simp: handleStatsSSE_def Let_def intro!: only_reads_refl split: option.split prod.split)
next
  case True
  then obtain c m where add: "mgr_add (s_mgr w) = (Some c, m)" by blast
  obtain ch w2 where w2: "subscribe_stats (on_rw sse_headers w\<lparr>s_mgr := m\<rparr>) = (ch, w2)" by fastforce
  then have calls: "s_calls w2 = s_calls w" by (auto simp: subscribe_stats_def)
  let ?w3 = "w2\<lparr>s_broadcaster := se_waiting env (s_broadcaster w2)\<rparr>"
  obtain j w4 where w4: "initial_json env ?w3 = (j, w4)" by fastforce
  have "only_reads w w4" using reads_initial [of ?w3 env] calls w4 by (simp add: only_reads_def)
  with True add w2 w4 show ?thesis
    by (auto simp: handleStatsSSE_def Let_def sse_release_def only_reads_def)
qed

lemma reads_endpoint: "ep \<noteq> EpSwitchOutbound \<Longrightarrow> only_reads w (outcome_world (run_endpoint env ep r w))"
  by (cases ep)
    (simp_all add: reads_health reads_config reads_outbounds reads_outbounds_status reads_current reads_sse reads_logs)

section \<open>Routing\<close>

lemma best_match_in:
  "best_match m path ps = Some (l, k, pm, pat, h) \<Longrightarrow>
     (pm, pat, h) \<in> set ps \<and> path_matches pat path \<and> method_rank pm m = Some k"
proof (induction m path ps arbitrary: l k pm pat h rule: best_match.induct)
  case (2 m path pm' pat' h' ps)
  show ?case
  proof (cases "best_match m path ps = Some (l, k, pm, pat, h)")
    case True
    with "2.IH" show ?thesis by auto
  next
    case False
    with "2.prems" show ?thesis
      by (auto simp: Let_def split: option.splits prod.splits if_splits)
  qed
qed simp

text \<open>A handler is served only at the path of a matching pattern, as the client wrote it.\<close>

lemma mux_serve_in:
  assumes "mux_find ps m p = MuxServe h"
  shows "\<exists>pm pat. (pm, pat, h) \<in> set ps \<and> path_matches pat p \<and> method_rank pm m \<noteq> None"
proof -
  let ?path = "if m = ''CONNECT'' then p else clean_url p"
  from assms obtain l k pm pat where "?path = p" "best_match m ?path ps = Some (l, k, pm, pat, h)"
    unfolding mux_find_def Let_def by (auto split: if_splits option.splits prod.splits)
  with best_match_in [of m p ps l k pm pat h] show ?thesis by auto
qed

lemma switch_route:
  "mux_find apiPatterns m p = MuxServe EpSwitchOutbound \<Longrightarrow> m = ''POST'' \<and> p = ''/api/switch-outbound''"
  by (drule mux_serve_in) (auto simp: apiPatterns_def path_matches_def method_rank_def split: if_splits)

text \<open>The endpoint of a path, and the methods it is served for.\<close>

definition api_endpoint :: "gostring \<Rightarrow> endpoint option" where
  "api_endpoint =
     map_of [(''/api/health'', EpHealth), (''/api/config'', EpConfig), (''/api/outbounds'', EpOutbounds),
       (''/api/outbounds-status'', EpOutboundsStatus), (''/api/current-outbound'', EpCurrentOutbound),
       (''/api/stats-sse'', EpStatsSSE), (''/api/switch-outbound'', EpSwitchOutbound), (''/api/logs'', EpLogs)]"

definition endpoint_methods :: "endpoint \<Rightarrow> gostring list" where
  "endpoint_methods ep = (if ep = EpSwitchOutbound then [''POST''] else [''GET'', ''HEAD''])"

lemma api_no_subtree: "(pm, pat, h) \<in> set apiPatterns \<Longrightarrow> path_matches pat path \<longleftrightarrow> path = pat"
  by (auto simp: apiPatterns_def path_matches_def)

lemma api_endpoint_slash [simp]: "api_endpoint (p @ ''/'') = None"
  by (auto simp: api_endpoint_def append_eq_Cons_conv)

lemma api_best:
  "best_match m p apiPatterns = (case api_endpoint p of None \<Rightarrow> None
     | Some ep \<Rightarrow> if ep = EpSwitchOutbound then (if m = ''POST'' then Some (length p, 2, Some ''POST'', p, ep) else None)
         else if m = ''GET'' then Some (length p, 2, Some ''GET'', p, ep)
         else if m = ''HEAD'' then Some (if ep = EpHealth then (length p, 2, Some ''HEAD'', p, ep) else (length p, 1, Some ''GET'', p, ep))
         else None)"
  by (simp add: apiPatterns_def api_endpoint_def path_matches_def method_rank_def)

lemma api_allowed:
  "allowed_methods p apiPatterns = (case api_endpoint p of None \<Rightarrow> [] | Some ep \<Rightarrow> endpoint_methods ep)"
  by (simp add: allowed_methods_def apiPatterns_def api_endpoint_def endpoint_methods_def path_matches_def append_eq_Cons_conv)

text \<open>
  C25. The routing table: at a canonical path each endpoint is served for its methods and only for
  them, HEAD wherever GET is; another method is answered with exactly the allowed ones, and any
  other path with 404.
\<close>

theorem api_routes_exact:
  assumes "clean_url p = p"
  shows "mux_find apiPatterns m p =
    (case api_endpoint p of
       None \<Rightarrow> MuxNotFound
     | Some ep \<Rightarrow> if m \<in> set (endpoint_methods ep) then MuxServe ep else MuxNotAllowed (endpoint_methods ep))"
  using assms
  by (simp add: mux_find_def Let_def exact_match_def api_best api_allowed endpoint_methods_def split: option.split)

lemma api_routes_exact_witness:
  "mux_find apiPatterns ''DELETE'' ''/api/switch-outbound'' =
    (case api_endpoint ''/api/switch-outbound'' of
       None \<Rightarrow> MuxNotFound
     | Some ep \<Rightarrow> if ''DELETE'' \<in> set (endpoint_methods ep) then MuxServe ep else MuxNotAllowed (endpoint_methods ep))"
  by (rule api_routes_exact) code_simp

section \<open>Who can change the balancer\<close>

lemma srv_mw_update [simp]:
  "s_calls (w\<lparr>g_authLimiter := a\<rparr>) = s_calls w" "s_calls (w\<lparr>g_noCredLimiter := n\<rparr>) = s_calls w"
  "s_calls (w\<lparr>g_limiter := l\<rparr>) = s_calls w" "s_calls (log_access ip r out w) = s_calls w"
  "s_calls (after_check ip w) = s_calls w" "s_calls (rate_recorded w ip) = s_calls w" "s_calls (chain_state w) = s_calls w"
  by (simp_all add: log_access_def after_check_def rate_recorded_def chain_state_def Let_def on_rw_def tick_def)

lemma basicAuth_calls:
  assumes "username \<noteq> []" "password \<noteq> []"
    and "s_calls (outcome_world (basicAuth username password h r w)) \<noteq> s_calls w"
  shows "basicAuth username password h r w = h r (after_check (clientIPFromContext r) w) \<and>
    \<not> fst (isAuthBlocked (time_now w) (clientIPFromContext r) (g_authLimiter w)) \<and>
    basicAuthCreds r = Some (username, password)"
proof (cases "\<not> fst (isAuthBlocked (time_now w) (clientIPFromContext r) (g_authLimiter w)) \<and>
    basicAuthCreds r = Some (username, password)")
  case True
  with basicAuth_pass [OF assms(1,2)] show ?thesis by blast
next
  case False
  then have "s_calls (outcome_world (basicAuth username password h r w)) = s_calls w"
    using assms(1,2)
    by (auto simp: basicAuth_def recordFailure_def Let_def split: prod.split option.split)
  with assms(3) show ?thesis by contradiction
qed

lemma checkOrigin_calls:
  assumes "s_calls (outcome_world (checkOrigin url_parse allowed h r w)) \<noteq> s_calls w"
  shows "\<exists>v. s_calls v = s_calls w \<and> checkOrigin url_parse allowed h r w = h r v \<and>
    (allowed = [] \<or> (let origin = request_origin url_parse r in
       if origin = [] then safe_method (req_method r) else trim_right_slash origin \<in> set allowed))"
proof -
  let ?o = "request_origin url_parse r"
  consider "allowed = []" | "allowed \<noteq> []" "?o = []" "safe_method (req_method r)"
    | "allowed \<noteq> []" "?o \<noteq> []" "trim_right_slash ?o \<in> set allowed" "req_method r \<noteq> ''OPTIONS''"
    using assms by (auto simp: checkOrigin_def Let_def split: if_splits)
  then show ?thesis
  proof cases
    case 1
    then show ?thesis by (intro exI [of _ w]) (simp add: checkOrigin_def)
  next
    case 2
    then show ?thesis by (intro exI [of _ "on_rw (add_header ''Vary'' ''Origin'') w"]) (simp add: checkOrigin_def)
  next
    case 3
    then show ?thesis by (intro exI [of _ "on_rw (cors_headers (trim_right_slash ?o)) w"]) (simp add: checkOrigin_def Let_def)
  qed
qed

lemma serve_mux_calls:
  assumes "s_calls (outcome_world (serve_mux ps run r w)) \<noteq> s_calls w"
  shows "\<exists>h. mux_find ps (req_method r) (req_path r) = MuxServe h \<and> serve_mux ps run r w = run h r w"
  using assms by (auto simp: serve_mux_def split: mux_answer.splits)

lemma request_origin_ctx [simp]: "request_origin up (r\<lparr>req_ctx_ip := c\<rparr>) = request_origin up r"
  by (simp add: request_origin_def)

text \<open>Behind the middlewares: only the switch endpoint can call the override.\<close>

lemma main_mux_calls:
  assumes files: "\<And>q v. s_calls (outcome_world (sv_files env q v)) = s_calls v"
    and changed: "\<not> only_reads w (outcome_world (mainMux devMode cfg env r w))"
  shows "req_method r = ''POST'' \<and> req_path r = ''/api/switch-outbound'' \<and>
    (AllowedOrigins (cfg_server cfg) = [] \<or>
     request_origin (sv_url_parse env) r \<noteq> [] \<and>
     trim_right_slash (request_origin (sv_url_parse env) r) \<in> set (AllowedOrigins (cfg_server cfg)))"
proof -
  have differ: "s_calls v' \<noteq> s_calls v" if "\<not> only_reads v v'" for v v' :: "'a srv_world_scheme"
    using that only_reads_refl by blast
  from serve_mux_calls [OF differ [OF changed, unfolded mainMux_def]] obtain h where
    h: "mainMux devMode cfg env r w = run_main_route devMode cfg env h r w" by (auto simp: mainMux_def)
  have "h = ApiSubtree"
  proof (rule ccontr)
    assume "h \<noteq> ApiSubtree"
    then have "s_calls (outcome_world (mainMux devMode cfg env r w)) = s_calls w"
      using h by (cases h) (simp_all add: registerFrontend_def files)
    with differ [OF changed] show False by contradiction
  qed
  with h have api: "mainMux devMode cfg env r w =
      checkOrigin (sv_url_parse env) (AllowedOrigins (cfg_server cfg)) (registerHandlers env) r w" by simp
  from checkOrigin_calls [OF differ [OF changed [unfolded api]]] obtain v where
    v: "s_calls v = s_calls w" "mainMux devMode cfg env r w = registerHandlers env r v"
    and origin: "AllowedOrigins (cfg_server cfg) = [] \<or> (let origin = request_origin (sv_url_parse env) r in
       if origin = [] then safe_method (req_method r) else trim_right_slash origin \<in> set (AllowedOrigins (cfg_server cfg)))"
    using api by auto
  have changed': "\<not> only_reads v (outcome_world (serve_mux apiPatterns (run_endpoint env) r v))"
    using changed v by (auto simp: registerHandlers_def only_reads_def)
  from serve_mux_calls [OF differ [OF this]] obtain ep where
    ep: "mux_find apiPatterns (req_method r) (req_path r) = MuxServe ep"
      "serve_mux apiPatterns (run_endpoint env) r v = run_endpoint env ep r v" by blast
  with changed' reads_endpoint have "ep = EpSwitchOutbound" by metis
  with switch_route ep(1) have "req_method r = ''POST'' \<and> req_path r = ''/api/switch-outbound''" by blast
  with origin show ?thesis by (auto simp: Let_def safe_method_def split: if_splits)
qed

text \<open>
  C1. Only an authorised request changes the balancer: with credentials configured, if serving a
  request sends Xray anything but reading calls, then it is a POST to the switch endpoint whose
  client is not locked out, sent exactly the configured credentials, is within the request limit
  and, with allowed origins configured, comes from one of them.
\<close>

theorem switch_only_authorised:
  fixes w :: "'a srv_world_scheme"
  assumes conf: "Username (cfg_auth cfg) \<noteq> []" "Password (cfg_auth cfg) \<noteq> []"
    and fresh: "w_rw w = empty_response"
    and files: "\<And>q v. s_calls (outcome_world (sv_files env q v)) = s_calls v"
    and ip: "ip = clientIP r (TrustProxyHeaders (cfg_server cfg))"
    and changed: "\<not> only_reads w (outcome_world (finalHandler devMode cfg env r w))"
  shows "req_method r = ''POST'' \<and> req_path r = ''/api/switch-outbound'' \<and>
    \<not> fst (isAuthBlocked (time_now w) ip (g_authLimiter w)) \<and>
    basicAuthCreds r = Some (Username (cfg_auth cfg), Password (cfg_auth cfg)) \<and>
    rate_admits (after_check ip w) ip \<and>
    (AllowedOrigins (cfg_server cfg) = [] \<or>
     request_origin (sv_url_parse env) r \<noteq> [] \<and>
     trim_right_slash (request_origin (sv_url_parse env) r) \<in> set (AllowedOrigins (cfg_server cfg)))"
proof -
  let ?tp = "TrustProxyHeaders (cfg_server cfg)"
  let ?r = "r\<lparr>req_ctx_ip := Some ip\<rparr>"
  let ?auth = "basicAuth (Username (cfg_auth cfg)) (Password (cfg_auth cfg)) (rateLimit ?tp (mainMux devMode cfg env)) ?r (chain_state w)"
  have "rw_lrw (w_rw w) = None" using fresh by (simp add: empty_response_def)
  from changed have auth: "\<not> only_reads w (outcome_world ?auth)"
    unfolding finalHandler_def chain_cases [OF \<open>rw_lrw (w_rw w) = None\<close>]
    by (cases ?auth) (auto simp: only_reads_def ip)
  then have "s_calls (outcome_world ?auth) \<noteq> s_calls (chain_state w)" using only_reads_refl by fastforce
  from basicAuth_calls [OF conf this] have pass:
    "?auth = rateLimit ?tp (mainMux devMode cfg env) ?r (after_check ip (chain_state w))"
    "\<not> fst (isAuthBlocked (time_now w) ip (g_authLimiter w))"
    "basicAuthCreds r = Some (Username (cfg_auth cfg), Password (cfg_auth cfg))" by simp_all
  let ?v = "after_check ip (chain_state w)"
  have rate: "rate_admits ?v ip"
    using auth pass(1) by (auto simp: rateLimit_cases only_reads_def ip split: if_splits)
  then have "outcome_world ?auth = outcome_world (mainMux devMode cfg env ?r (rate_recorded ?v ip))"
    unfolding pass(1) by (simp add: rateLimit_cases ip)
  with auth have "\<not> only_reads (rate_recorded ?v ip) (outcome_world (mainMux devMode cfg env ?r (rate_recorded ?v ip)))"
    by (auto simp: only_reads_def)
  from main_mux_calls [OF files this] have req: "req_method r = ''POST'' \<and> req_path r = ''/api/switch-outbound'' \<and>
      (AllowedOrigins (cfg_server cfg) = [] \<or> request_origin (sv_url_parse env) r \<noteq> [] \<and>
       trim_right_slash (request_origin (sv_url_parse env) r) \<in> set (AllowedOrigins (cfg_server cfg)))"
    by simp
  have "rate_admits (after_check ip w) ip = rate_admits ?v ip"
    by (simp add: rate_admits_def time_now_def iter_now_def)
  with rate pass(2,3) req show ?thesis by blast
qed

lemma switch_calls:
  assumes "decode_switch (req_body r) = Some tag" and "validateOutboundTag tag = None"
  shows "s_calls (outcome_world (handleSwitchOutbound r w)) =
    s_calls w @ [(overrideBalancerTarget_name, MOverrideBalancerTarget
      \<lparr>ot_BalancerTag = BalancerTag (cfg_xray (s_config w)), ot_Target = tag\<rparr>)]"
  using assms by (auto simp: handleSwitchOutbound_def Let_def invalidate_caches_def split: prod.split option.split)

definition login_config :: config where
  "login_config = newDefaultConfig\<lparr>cfg_auth := \<lparr>Username = ''admin'', Password = ''x''\<rparr>\<rparr>"

definition login_switch :: request where
  "login_switch = switch_request\<lparr>req_headers := req_headers guess_request\<rparr>"

definition plain_env :: "srv_world server_env" where
  "plain_env = \<lparr>sv_url_parse = (\<lambda>_. None), sv_uni_lower = id,
     sv_logs = \<lparr>le_uni_lower = id, le_rfc3339 = (\<lambda>_ _. []), le_expired = (\<lambda>_. False), le_pool = [],
       le_file = (\<lambda>_. sample_file), le_journal = NoJournal\<rparr>,
     sv_sse = sample_stream, sv_files = (\<lambda>r w. Done w)\<rparr>"

lemma login_creds: "basicAuthCreds login_switch = Some (''admin'', ''x'')"
  using guess_creds by (simp add: login_switch_def basicAuthCreds_def)

lemma login_sel [simp]:
  "Username (cfg_auth login_config) = ''admin''" "Password (cfg_auth login_config) = ''x''"
  "AllowedOrigins (cfg_server login_config) = []" "TrustProxyHeaders (cfg_server login_config) = False"
  "req_method login_switch = ''POST''" "req_path login_switch = ''/api/switch-outbound''"
  by (simp_all add: login_config_def newDefaultConfig_def login_switch_def switch_request_def)

lemma sample_limiters [simp]:
  "g_limiter sample_server = limiter" "g_authLimiter sample_server = authLimiter"
  by (simp_all add: sample_server_def newServer_def mw_world.defs srv_world.defs)

lemma mux_login: "mux_find mainPatterns ''POST'' ''/api/switch-outbound'' = MuxServe ApiSubtree"
  "mux_find apiPatterns ''POST'' ''/api/switch-outbound'' = MuxServe EpSwitchOutbound"
  by code_simp+

lemma login_open: "\<not> fst (isAuthBlocked t ip authLimiter)"
  by (simp add: authLimiter_def isAuthBlocked_def)

lemma login_rate: "rate_admits (after_check ip sample_server) ip"
  "rate_admits (after_check ip (chain_state sample_server)) ip"
  by (simp_all add: rate_admits_def limiter_def checkAndRecord_def Let_def)

lemma login_changes: "\<not> only_reads sample_server (outcome_world (finalHandler False login_config plain_env login_switch sample_server))"
proof -
  let ?ip = "clientIP login_switch False"
  let ?r = "login_switch\<lparr>req_ctx_ip := Some ?ip\<rparr>"
  let ?v = "rate_recorded (after_check ?ip (chain_state sample_server)) ?ip"
  have "decode_switch (req_body ?r) = Some ''node-1''" by (simp add: login_switch_def switch_request_def, code_simp)
  moreover have "validateOutboundTag ''node-1'' = None" by code_simp
  ultimately have calls: "s_calls (outcome_world (handleSwitchOutbound ?r ?v)) =
      s_calls ?v @ [(overrideBalancerTarget_name, MOverrideBalancerTarget
        \<lparr>ot_BalancerTag = BalancerTag (cfg_xray (s_config ?v)), ot_Target = ''node-1''\<rparr>)]"
    by (rule switch_calls)
  have "basicAuth ''admin'' ''x'' (rateLimit False (mainMux False login_config plain_env)) ?r (chain_state sample_server) =
      handleSwitchOutbound ?r ?v"
    by (subst basicAuth_pass)
      (simp_all add: login_open login_creds rateLimit_cases login_rate mainMux_def serve_mux_def mux_login checkOrigin_def
        registerHandlers_def)
  then have "s_calls (outcome_world (finalHandler False login_config plain_env login_switch sample_server)) =
      s_calls (outcome_world (handleSwitchOutbound ?r ?v))"
    by (cases "handleSwitchOutbound ?r ?v") (simp_all add: finalHandler_def chain_cases empty_response_def)
  with calls show ?thesis by (simp add: only_reads_def)
qed

theorem switch_only_authorised_witness:
  "let r = login_switch; w = sample_server; cfg = login_config; env = plain_env; ip = clientIP r False in
   req_method r = ''POST'' \<and> req_path r = ''/api/switch-outbound'' \<and>
    \<not> fst (isAuthBlocked (time_now w) ip (g_authLimiter w)) \<and>
    basicAuthCreds r = Some (Username (cfg_auth cfg), Password (cfg_auth cfg)) \<and>
    rate_admits (after_check ip w) ip \<and>
    (AllowedOrigins (cfg_server cfg) = [] \<or>
     request_origin (sv_url_parse env) r \<noteq> [] \<and>
     trim_right_slash (request_origin (sv_url_parse env) r) \<in> set (AllowedOrigins (cfg_server cfg)))"
  unfolding Let_def
  by (rule switch_only_authorised [OF _ _ _ _ _ login_changes]) (simp_all add: plain_env_def)

section \<open>Shutdown\<close>

lemma bc_run_last:
  "run_events step (es @ [e]) b = Some b' \<Longrightarrow> \<exists>b1. step e b1 = Some b'"
  by (induction es arbitrary: b) (auto split: option.splits)

text \<open>
  C19. After the shutdown of the server every connection that was open is cancelled, no stream is
  registered or subscribed, and a client that still asks for a stream gets 503 and is not
  registered either.
\<close>

theorem shutdown_refuses_streams:
  assumes down: "server_shutdown drain ends w = Some w'" and later: "s_mgr v = s_mgr w'"
    and client: "se_flusher env" "rw_status (w_rw v) = None"
  shows "set (connections (s_mgr w)) \<subseteq> set (cancelled (s_mgr w')) \<and> connections (s_mgr w') = [] \<and>
    subscribers (s_broadcaster w') = [] \<and>
    (\<exists>v'. handleStatsSSE env r v = Done v' \<and> rw_status (w_rw v') = Some 503 \<and>
       s_mgr v' = s_mgr v \<and> s_broadcaster v' = s_broadcaster v)"
proof -
  from down obtain b where b: "bc_run (server_fns w) ((EStop # drain) @ [EStopFinish]) (s_broadcaster w) = Some b"
    and w': "w' = w\<lparr>s_ctxDone := True, s_broadcaster := b, s_mgr := mgr_closeAll (s_mgr w)\<rparr>"
    by (auto simp: server_shutdown_def Let_def server_fns_same [of "w\<lparr>s_ctxDone := True\<rparr>" w]
        split: option.splits if_splits)
  from bc_run_last [OF b] obtain b1 where "bc_step (server_fns w) EStopFinish b1 = Some b" by blast
  then have "subscribers b = []"
    by (auto simp: stop_finish_def split: stop_phase.splits option.splits if_splits)
  moreover have "mgr_shutdown (s_mgr w')" "connections (s_mgr w') = []"
    "set (connections (s_mgr w)) \<subseteq> set (cancelled (s_mgr w'))"
    by (simp_all add: w' mgr_closeAll_def)
  moreover have "mgr_add (s_mgr v) = (None, s_mgr v)" using calculation(2) later by (simp add: mgr_add_def)
  then have "handleStatsSSE env r v =
      Done (on_rw (jsonError msg_shutting_down 503 ''service_unavailable'') (on_rw sse_headers v\<lparr>s_mgr := s_mgr v\<rparr>))"
    using client(1) by (simp add: handleStatsSSE_def Let_def)
  ultimately show ?thesis using client(2) by (simp add: w' jsonError_def sse_headers_def)
qed

theorem shutdown_refuses_streams_witness:
  "\<exists>w'. server_shutdown [] True sample_server = Some w' \<and>
    (set (connections (s_mgr sample_server)) \<subseteq> set (cancelled (s_mgr w')) \<and> connections (s_mgr w') = [] \<and>
    subscribers (s_broadcaster w') = [] \<and>
    (\<exists>v'. handleStatsSSE sample_stream switch_request w' = Done v' \<and> rw_status (w_rw v') = Some 503 \<and>
       s_mgr v' = s_mgr w' \<and> s_broadcaster v' = s_broadcaster w'))"
proof -
  obtain b where b: "bc_run (server_fns sample_server) (EStop # [] @ [EStopFinish]) newBroadcaster = Some b"
    by (simp add: stop_begin_def cancel_idle_def close_stop_ch_def newBroadcaster_def Let_def)
  let ?w' = "sample_server\<lparr>s_ctxDone := True, s_broadcaster := b, s_mgr := mgr_closeAll newManager\<rparr>"
  have down: "server_shutdown [] True sample_server = Some ?w'"
    unfolding server_shutdown_def Let_def server_fns_same [of "sample_server\<lparr>s_ctxDone := True\<rparr>" sample_server]
    using b by (simp del: run_events.simps bc_step.simps)
  show ?thesis
    by (rule exI [of _ ?w'], rule conjI [OF down], rule shutdown_refuses_streams [OF down refl])
      (simp_all add: sample_stream_def)
qed

lemma server_fns_total: "enrich_total (server_fns w)"
  by (simp add: enrich_total_def server_fns_def)



end
