(* ===== verification/SystemProps.thy ===== *)
theory SystemProps
  imports ServerProps CleanupLoop
begin

text \<open>
  Properties of the whole request path that every endpoint has a part in: each request is answered
  once and logged with the status sent, and the tables of the limiters and the connection manager
  stay well-formed and bounded, whatever is requested.
\<close>

section \<open>What an endpoint may change\<close>

text \<open>The wrapper's status is the one sent, or 200 as long as none was.\<close>

definition in_sync :: "response \<Rightarrow> bool" where
  "in_sync rw = (rw_lrw rw = Some (case rw_status rw of None \<Rightarrow> 200 | Some s \<Rightarrow> s))"

lemma in_sync_sel [simp]:
  "in_sync (set_header k v rw) = in_sync rw" "in_sync (add_header k v rw) = in_sync rw"
  "in_sync (write_chunk c rw) = in_sync rw" "in_sync (send_status 200 rw) = in_sync rw"
  by (auto simp: in_sync_def send_status_def split: option.split)

lemma in_sync_write [simp]:
  assumes "rw_status rw = None" and "rw_lrw rw \<noteq> None"
  shows "in_sync (writeHeader c rw)" "in_sync (writeJSONError m c t rw)" "in_sync (jsonError m c t rw)"
    "in_sync (jsonResponse d c rw)"
  using assms by (auto simp: in_sync_def writeJSONError_def jsonError_def jsonResponse_def)

definition mgr_ok :: "manager \<Rightarrow> bool" where
  "mgr_ok m = (mgr_inv m \<and> mgr_count m \<le> maxConns m)"

text \<open>The state outside the server's own caches and calls.\<close>

definition same_frame :: "'a srv_world_scheme \<Rightarrow> 'a srv_world_scheme \<Rightarrow> bool" where
  "same_frame v v' =
     (w_rw v' = w_rw v \<and> w_access v' = w_access v \<and> w_clk v' = w_clk v \<and> w_iter v' = w_iter v \<and>
      g_limiter v' = g_limiter v \<and> g_authLimiter v' = g_authLimiter v \<and> g_noCredLimiter v' = g_noCredLimiter v \<and>
      s_mgr v' = s_mgr v)"

lemma same_frame_refl [simp]: "same_frame v v"
  by (simp add: same_frame_def)

lemma same_frame_trans: "same_frame u v \<Longrightarrow> same_frame v w \<Longrightarrow> same_frame u w"
  by (simp add: same_frame_def)

named_theorems frames

lemma frame_basic [frames]:
  "same_frame v (called n m v)" "same_frame v (tick v)" "same_frame v (invalidate_caches v)"
  by (simp_all add: same_frame_def called_def tick_def invalidate_caches_def)

lemma frame_update [frames]:
  "same_frame v (updateObsCache d v)" "same_frame v (updateExcludedTagsCache t v)" "same_frame v (health_store c v)"
  "same_frame v (warn_uplink v)" "same_frame v (warn_downlink v)"
  by (simp_all add: same_frame_def updateObsCache_def updateExcludedTagsCache_def health_store_def
      warn_uplink_def warn_downlink_def tick_def Let_def split: prod.split)

lemma frame_statuses [frames]: "same_frame v (snd (getAllOutboundStatuses v))"
  by (auto simp: same_frame_def getAllOutboundStatuses_def obsSnapshot_def refresh_observatory_def
      updateObsCache_def called_def tick_def Let_def split: option.split prod.split)

lemma frame_excluded [frames]: "same_frame v (snd (buildExcludedTags ul v))"
  by (auto simp: same_frame_def buildExcludedTags_def excludedTagsSnapshot_def refresh_excluded_def
      updateExcludedTagsCache_def called_def tick_def Let_def split: option.split prod.split)

lemma frame_best [frames]: "same_frame v (snd (findBestAvailableNode ul v))"
proof -
  obtain ss v1 where v1: "getAllOutboundStatuses v = (ss, v1)" by fastforce
  with frame_statuses [of v] have "same_frame v v1" by simp
  with same_frame_trans [OF this frame_excluded [of v1 ul]] v1 show ?thesis
    by (auto simp: findBestAvailableNode_def split: option.split prod.split)
qed

lemma frame_fetch [frames]: "same_frame (snd fw) (snd (fetch_source src fw))"
proof (cases fw)
  case (Pair f v)
  with frame_statuses [of v] show ?thesis
    by (cases src) (auto simp: frame_basic split: prod.split)
qed

lemma frame_combined [frames]: "same_frame v (snd (getCombinedStats sched v))"
proof -
  have "same_frame (snd fw) (snd (fold fetch_source sched fw))" for fw :: "stats_fetch \<times> 'a srv_world_scheme"
  proof (induction sched arbitrary: fw)
    case (Cons src sched)
    from same_frame_trans [OF frame_fetch Cons.IH] show ?case by simp
  qed simp
  from this [of "(no_fetch, v)"] show ?thesis by (auto simp: getCombinedStats_def split: prod.split)
qed

lemma frame_initial [frames]: "same_frame v (snd (initial_json env v))"
  using frame_combined [of v "se_sched env"]
  by (auto simp: initial_json_def split: option.split prod.split sum.split)

lemma frame_health [frames]:
  "same_frame v (snd (health_probe v))" "same_frame v (snd (health_read v))"
  by (auto simp: same_frame_def health_probe_def health_read_def called_def tick_def Let_def split: prod.split option.split)

text \<open>A request was served: one status is sent and recorded, nothing else of the frame has changed.\<close>

definition served :: "'a srv_world_scheme \<Rightarrow> 'a srv_world_scheme \<Rightarrow> bool" where
  "served v v' =
     (rw_status (w_rw v') \<noteq> None \<and> in_sync (w_rw v') \<and> w_access v' = w_access v \<and> w_clk v' = w_clk v \<and>
      w_iter v' = w_iter v \<and> g_limiter v' = g_limiter v \<and> g_authLimiter v' = g_authLimiter v \<and>
      g_noCredLimiter v' = g_noCredLimiter v \<and> (mgr_ok (s_mgr v) \<longrightarrow> mgr_ok (s_mgr v')))"

text \<open>A handler that serves every request whose response is untouched.\<close>

definition serves :: "('a srv_world_scheme) handler \<Rightarrow> bool" where
  "serves h =
     (\<forall>r v. rw_status (w_rw v) = None \<and> rw_lrw (w_rw v) = Some 200 \<longrightarrow> (\<exists>v'. h r v = Done v' \<and> served v v'))"

lemma servesI:
  assumes "\<And>r v. rw_status (w_rw v) = None \<Longrightarrow> rw_lrw (w_rw v) = Some 200 \<Longrightarrow> \<exists>v'. h r v = Done v' \<and> served v v'"
  shows "serves h"
  using assms by (simp add: serves_def)

lemma servesD:
  assumes "serves h" and "rw_status (w_rw v) = None" and "rw_lrw (w_rw v) = Some 200"
  shows "\<exists>v'. h r v = Done v' \<and> served v v'"
  using assms by (simp add: serves_def)

text \<open>One answer written in a state that differs only in caches and calls.\<close>

lemma served_write:
  assumes "same_frame v v1" and "rw_status (w_rw v) = None" and "rw_lrw (w_rw v) = Some 200"
    and "\<And>rw. rw_status rw = None \<Longrightarrow> rw_lrw rw = Some 200 \<Longrightarrow> rw_status (f rw) \<noteq> None \<and> in_sync (f rw)"
  shows "served v (on_rw f v1)"
  using assms by (simp add: served_def same_frame_def)

lemma served_json:
  assumes "same_frame v v1" and "rw_status (w_rw v) = None" and "rw_lrw (w_rw v) = Some 200"
  shows "served v (on_rw (jsonError m c t) v1)" "served v (on_rw (jsonResponse d c) v1)"
  using assms by (auto intro!: served_write simp: jsonError_def split: option.split)

lemma serves_config: "serves handleGetConfig"
  by (rule servesI) (simp add: handleGetConfig_def Let_def served_json)

lemma serves_logs: "serves (handleGetLogs env)"
  by (rule servesI) (simp add: handleGetLogs_def Let_def served_json split: sum.split)

lemma serves_outbounds: "serves (handleGetOutbounds ul)"
  by (rule servesI)
    (simp add: handleGetOutbounds_def Let_def served_json frame_basic split: prod.split option.split)

lemma serves_status: "serves handleGetOutboundsStatus"
proof (rule servesI)
  fix r :: request and v :: "'a srv_world_scheme"
  assume "rw_status (w_rw v) = None" "rw_lrw (w_rw v) = Some 200"
  with frame_statuses [of v] show "\<exists>v'. handleGetOutboundsStatus r v = Done v' \<and> served v v'"
    by (auto simp: handleGetOutboundsStatus_def served_json split: prod.split)
qed

lemma serves_switch: "serves handleSwitchOutbound"
  by (rule servesI)
    (simp add: handleSwitchOutbound_def Let_def served_json frame_basic same_frame_trans [OF frame_basic(1) frame_basic(3)]
      split: prod.split option.split)

lemma serves_current: "serves (handleGetCurrentOutbound ul)"
proof (rule servesI)
  fix r :: request and v :: "'a srv_world_scheme"
  assume fresh: "rw_status (w_rw v) = None" "rw_lrw (w_rw v) = Some 200"
  let ?m = "\<lparr>bi_Tag = BalancerTag (cfg_xray (s_config v))\<rparr>"
  let ?v1 = "called getBalancerInfo_name (MGetBalancerInfo ?m) v"
  have "same_frame v ?v1" by (rule frame_basic)
  from same_frame_trans [OF this frame_best [of ?v1 ul]] this fresh
  show "\<exists>v'. handleGetCurrentOutbound ul r v = Done v' \<and> served v v'"
    by (auto simp: handleGetCurrentOutbound_def Let_def served_json split: prod.split option.split)
qed

lemma health_respond_served:
  assumes "same_frame v v1" and "rw_status (w_rw v) = None" and "rw_lrw (w_rw v) = Some 200"
  shows "served v (health_respond st v1)"
proof -
  have "same_frame v (tick (tick v1))" using same_frame_trans [OF assms(1)] same_frame_trans frame_basic(2) by blast
  with assms(2,3) show ?thesis by (simp add: health_respond_def Let_def served_json)
qed

lemma serves_health: "serves handleHealthCheck"
proof (rule servesI)
  fix r :: request and v :: "'a srv_world_scheme"
  assume fresh: "rw_status (w_rw v) = None" "rw_lrw (w_rw v) = Some 200"
  obtain c refresh v1 where v1: "health_read v = ((c, refresh), v1)" by (metis prod.exhaust)
  obtain res v2 where v2: "health_probe v1 = (res, v2)" by (metis prod.exhaust)
  have f1: "same_frame v v1" using frame_health(2) [of v] v1 by simp
  have "same_frame v1 v2" using frame_health(1) [of v1] v2 by simp
  then have "same_frame v (health_store res v2)" using f1 same_frame_trans frame_update(3) by blast
  with f1 fresh show "\<exists>v'. handleHealthCheck r v = Done v' \<and> served v v'"
    by (simp add: handleHealthCheck_def v1 v2 health_respond_served)
qed

section \<open>Streams\<close>

lemma send_status_some [simp]: "\<exists>s. rw_status (send_status c rw) = Some s"
  by (simp add: send_status_def split: option.split)

lemma stream_write_sync:
  assumes "stream_write env c st = (b, st')" and "in_sync (snd st)"
  shows "in_sync (snd st') \<and> rw_status (snd st') \<noteq> None"
  using assms by (cases st) (auto simp: stream_write_def split: if_splits option.split)

lemma event_sync:
  assumes "sseWriteEvent env j st = (b, st')" and "in_sync (snd st)"
  shows "in_sync (snd st') \<and> rw_status (snd st') \<noteq> None"
proof -
  obtain b1 st1 where s1: "stream_write env (RawChunk sseEventPrefix) st = (b1, st1)" by (metis prod.exhaust)
  obtain b2 st2 where s2: "stream_write env (MarshalChunk j) st1 = (b2, st2)" by (metis prod.exhaust)
  obtain b3 st3 where s3: "stream_write env (RawChunk sseEventSuffix) st2 = (b3, st3)" by (metis prod.exhaust)
  note k1 = stream_write_sync [OF s1 assms(2)]
  note k2 = stream_write_sync [OF s2 conjunct1 [OF k1]]
  note k3 = stream_write_sync [OF s3 conjunct1 [OF k2]]
  from assms(1) k1 k2 k3 show ?thesis by (auto simp: sseWriteEvent_def s1 s2 s3 split: bool.splits)
qed

lemma loop_sync:
  "in_sync (snd st) \<Longrightarrow> rw_status (snd st) \<noteq> None \<Longrightarrow>
     in_sync (snd (sse_loop env es st)) \<and> rw_status (snd (sse_loop env es st)) \<noteq> None"
proof (induction env es st rule: sse_loop.induct)
  case (4 env es st)
  obtain b st1 where st1: "stream_write env (RawChunk heartbeatBytes) st = (b, st1)" by (metis prod.exhaust)
  from stream_write_sync [OF st1] 4 st1 show ?case by (cases b) auto
next
  case (5 env d es st)
  obtain b st1 where st1: "sseWriteEvent env (stats_json d) st = (b, st1)" by (metis prod.exhaust)
  from event_sync [OF st1] 5 st1 show ?case by (cases b) (auto simp: marshal_stats_def)
qed simp_all

lemma run_sync:
  assumes "in_sync (snd st)"
  shows "in_sync (snd (stream_run env (Some j) st)) \<and> rw_status (snd (stream_run env (Some j) st)) \<noteq> None"
proof -
  obtain b st1 where st1: "sseWriteEvent env j st = (b, st1)" by (metis prod.exhaust)
  from event_sync [OF st1 assms] loop_sync [of st1 env "se_events env"] st1 show ?thesis
    by (cases b) (auto simp: stream_run_def)
qed

lemma initial_some: "\<exists>j. fst (initial_json env v) = Some j"
  by (auto simp: initial_json_def marshal_stats_def split: option.split prod.split sum.split)

lemma mgr_ok_step: "mgr_ok m \<Longrightarrow> mgr_ok (mgr_step e m)"
  by (simp add: mgr_ok_def mgr_step_inv mgr_step_capacity mgr_step_count)

lemma mgr_ok_session:
  assumes "mgr_add m = (Some c, m')" and "mgr_ok m"
  shows "mgr_ok (conn_close c (mgr_remove (Some c) m'))"
proof -
  have "conn_close c (mgr_remove (Some c) m') = mgr_step (MClose c) (mgr_step (MRemove (Some c)) (mgr_step MAdd m))"
    using assms(1) by simp
  then show ?thesis using assms(2) mgr_ok_step by metis
qed

lemma serves_sse: "serves (handleStatsSSE env)"
proof (rule servesI)
  fix r :: request and v :: "'a srv_world_scheme"
  assume fresh: "rw_status (w_rw v) = None" "rw_lrw (w_rw v) = Some 200"
  let ?v1 = "on_rw sse_headers v"
  have headers: "rw_status (sse_headers rw) = rw_status rw" "rw_lrw (sse_headers rw) = rw_lrw rw"
    "in_sync (sse_headers rw) = in_sync rw" for rw
    by (simp_all add: sse_headers_def)
  have error: "served v (on_rw (jsonError m c t) ?v1)" for m c t
    using fresh headers
    by (simp add: served_def jsonError_def in_sync_def split: option.split)
  show "\<exists>v'. handleStatsSSE env r v = Done v' \<and> served v v'"
  proof (cases "se_flusher env \<and> fst (mgr_add (s_mgr v)) \<noteq> None")
    case False
    moreover have "mgr_add (s_mgr v) = (None, m) \<Longrightarrow> m = s_mgr v" for m
      by (auto simp: mgr_add_def split: if_splits)
    ultimately show ?thesis using error
      by (cases "mgr_add (s_mgr v)") (auto simp: handleStatsSSE_def Let_def served_def)
  next
    case True
    then obtain c m where add: "mgr_add (s_mgr v) = (Some c, m)" by (cases "mgr_add (s_mgr v)") auto
    obtain ch v2 where v2: "subscribe_stats (?v1\<lparr>s_mgr := m\<rparr>) = (ch, v2)" by (metis prod.exhaust)
    let ?v3 = "v2\<lparr>s_broadcaster := se_waiting env (s_broadcaster v2)\<rparr>"
    obtain j v4 where v4: "initial_json env ?v3 = (Some j, v4)" using initial_some [of env ?v3] by (metis prod.collapse)
    have f4: "same_frame ?v3 v4" using frame_initial [of ?v3 env] v4 by simp
    let ?v5 = "v4\<lparr>s_broadcaster := se_meanwhile env (s_broadcaster v4)\<rparr>"
    let ?v6 = "on_rw (\<lambda>rw. snd (stream_run env (Some j) (0, rw))) ?v5"
    have res: "handleStatsSSE env r v = Done (sse_release c ch ?v6)"
      using True add v2 v4 by (simp add: handleStatsSSE_def Let_def)
    have "in_sync (w_rw v4)" using f4 v2 fresh headers by (auto simp: same_frame_def subscribe_stats_def in_sync_def)
    then have "served v (sse_release c ch ?v6)"
      using run_sync [of "(0, w_rw v4)" env j] f4 v2 mgr_ok_session [OF add]
      by (auto simp: served_def sse_release_def same_frame_def subscribe_stats_def Let_def)
    with res show ?thesis by blast
  qed
qed

lemma serves_endpoint: "serves (run_endpoint env ep)"
  by (cases ep)
    (use serves_health serves_config serves_outbounds serves_status serves_current serves_sse serves_switch serves_logs
     in \<open>simp_all add: serves_def\<close>)

section \<open>Routing and middlewares\<close>

lemma served_rw: "served (on_rw f v) v' \<longleftrightarrow> served v v'"
  by (simp add: served_def)

lemma serves_after:
  assumes "serves h" and "rw_status (w_rw v) = None" and "rw_lrw (w_rw v) = Some 200"
    and "\<And>rw. rw_status (f rw) = rw_status rw" and "\<And>rw. rw_lrw (f rw) = rw_lrw rw"
  shows "\<exists>v'. h r (on_rw f v) = Done v' \<and> served v v'"
  using servesD [OF assms(1), of "on_rw f v" r] assms(2-5) by (simp add: served_rw)

lemma http_error_sync:
  assumes "rw_status rw = None" and "rw_lrw rw \<noteq> None"
  shows "rw_status (http_error m c rw) = Some c \<and> in_sync (http_error m c rw)"
  using assms by (auto simp: http_error_def)

lemma serves_mux:
  fixes run :: "'h \<Rightarrow> ('a srv_world_scheme) handler"
  assumes "\<And>h. serves (run h)"
  shows "serves (serve_mux ps run)"
proof (rule servesI)
  fix r :: request and v :: "'a srv_world_scheme"
  assume fresh: "rw_status (w_rw v) = None" "rw_lrw (w_rw v) = Some 200"
  show "\<exists>v'. serve_mux ps run r v = Done v' \<and> served v v'"
    using servesD [OF assms fresh] fresh
    by (auto simp: serve_mux_def http_error_sync simp del: not_None_eq intro!: served_write split: mux_answer.split)
qed

lemma serves_origin:
  fixes h :: "('a srv_world_scheme) handler"
  assumes "serves h"
  shows "serves (checkOrigin up allowed h)"
proof (rule servesI)
  fix r :: request and v :: "'a srv_world_scheme"
  assume fresh: "rw_status (w_rw v) = None" "rw_lrw (w_rw v) = Some 200"
  have forbidden: "served v (on_rw (forbid body) v)" for body
    using fresh by (intro served_write) (simp_all add: forbid_def)
  have preflight: "served v (on_rw (\<lambda>rw. writeHeader 204 (cors_headers og rw)) v)" for og
    using fresh by (intro served_write) (simp_all add: cors_headers_def)
  have allow: "\<exists>v'. h r (on_rw (cors_headers og) v) = Done v' \<and> served v v'"
    "\<exists>v'. h r (on_rw (add_header k x) v) = Done v' \<and> served v v'" for og k x
    using assms fresh by (auto intro!: serves_after simp: cors_headers_def)
  show "\<exists>v'. checkOrigin up allowed h r v = Done v' \<and> served v v'"
    using servesD [OF assms fresh, of r] forbidden preflight allow
    by (simp add: checkOrigin_def Let_def)
qed

lemma serves_frontend:
  fixes files :: "('a srv_world_scheme) handler"
  assumes "serves files"
  shows "serves (registerFrontend dev files)"
proof (rule servesI)
  fix r :: request and v :: "'a srv_world_scheme"
  assume fresh: "rw_status (w_rw v) = None" "rw_lrw (w_rw v) = Some 200"
  show "\<exists>v'. registerFrontend dev files r v = Done v' \<and> served v v'"
    using servesD [OF assms fresh] serves_after [OF assms fresh] by (simp add: registerFrontend_def)
qed

lemma serves_main:
  assumes "serves (sv_files env)"
  shows "serves (mainMux dev cfg env)"
proof -
  have api: "serves (registerHandlers env)"
    unfolding registerHandlers_def by (rule serves_mux) (rule serves_endpoint)
  have "serves (run_main_route dev cfg env h)" for h
    using serves_origin [OF api] serves_frontend [OF assms] by (cases h) (simp_all add: serves_def)
  then show ?thesis unfolding mainMux_def by (rule serves_mux)
qed

section \<open>The tables\<close>

definition rl_ok :: "rate_limiter \<Rightarrow> bool" where
  "rl_ok rl = (rl_inv rl \<and> length (requests rl) \<le> maxTrackedIPs)"

definition al_ok :: "auth_limiter \<Rightarrow> bool" where
  "al_ok a = (al_inv a \<and> length (states a) \<le> maxTrackedIPs)"

definition tables_ok :: "'a srv_world_scheme \<Rightarrow> bool" where
  "tables_ok w =
     (clock_ok w \<and> orders_ok w \<and> rl_ok (g_limiter w) \<and> al_ok (g_authLimiter w) \<and> al_ok (g_noCredLimiter w) \<and>
      mgr_ok (s_mgr w))"

lemma al_ok_blocked: "al_ok a \<Longrightarrow> al_ok (snd (isAuthBlocked now ip a))"
  using blocked_length [of now ip a] by (auto simp: al_ok_def al_inv_blocked)

lemma al_ok_record: "al_ok a \<Longrightarrow> iter_ok perm \<Longrightarrow> now2 \<noteq> 0 \<Longrightarrow> al_ok (recordAuthFailure perm now1 now2 ip a)"
  by (simp add: al_ok_def al_inv_record record_length)

lemma rl_ok_check: "rl_ok rl \<Longrightarrow> iter_ok perm \<Longrightarrow> ip \<noteq> [] \<Longrightarrow> rl_ok (snd (checkAndRecord perm now ip rl))"
  using rl.inv_step [of rl "Check perm now ip"] rl.entries_step [of rl "Check perm now ip"] by (simp add: rl_ok_def)

lemma tables_cong:
  assumes "w_clk w' = w_clk w" "w_iter w' = w_iter w" "g_limiter w' = g_limiter w"
    "g_authLimiter w' = g_authLimiter w" "g_noCredLimiter w' = g_noCredLimiter w" "s_mgr w' = s_mgr w"
  shows "tables_ok w' = tables_ok w"
  using assms by (simp add: tables_ok_def clock_ok_def orders_ok_def)

lemma tables_now: "tables_ok w \<Longrightarrow> iter_ok (iter_now w) \<and> time_now w \<noteq> 0"
  by (auto simp: tables_ok_def clock_ok_def orders_ok_def iter_now_def time_now_def dest: spec [of _ "w_ticks w"])

lemma tables_update:
  assumes "tables_ok w"
  shows "tables_ok (tick w)" "tables_ok (on_rw f w)" "al_ok a \<Longrightarrow> tables_ok (w\<lparr>g_authLimiter := a\<rparr>)"
    "al_ok a \<Longrightarrow> tables_ok (w\<lparr>g_noCredLimiter := a\<rparr>)" "rl_ok l \<Longrightarrow> tables_ok (w\<lparr>g_limiter := l\<rparr>)"
  using assms by (auto simp: tables_ok_def clock_ok_def orders_ok_def tick_def on_rw_def)

lemma tables_served: "served v v' \<Longrightarrow> tables_ok v \<Longrightarrow> tables_ok v'"
  by (simp add: served_def tables_ok_def clock_ok_def orders_ok_def)

section \<open>The gates\<close>

text \<open>What a handler behind the gates does to a request of the client \<open>ip\<close>.\<close>

definition answered :: "gostring \<Rightarrow> 'a srv_world_scheme \<Rightarrow> 'a srv_world_scheme \<Rightarrow> bool" where
  "answered ip v v' =
     (rw_status (w_rw v') \<noteq> None \<and> in_sync (w_rw v') \<and> w_access v' = w_access v \<and>
      (tables_ok v \<and> ip \<noteq> [] \<longrightarrow> tables_ok v'))"

lemma answered_served: "served v v' \<Longrightarrow> answered ip v v'"
  using tables_served [of v v'] by (auto simp: answered_def served_def)

text \<open>A step before the answer: the response is untouched, the tables stay well-formed.\<close>

definition prepared :: "gostring \<Rightarrow> 'a srv_world_scheme \<Rightarrow> 'a srv_world_scheme \<Rightarrow> bool" where
  "prepared ip v v' =
     (w_rw v' = w_rw v \<and> w_access v' = w_access v \<and> (tables_ok v \<and> ip \<noteq> [] \<longrightarrow> tables_ok v'))"

lemma answered_after: "prepared ip v v1 \<Longrightarrow> answered ip v1 v' \<Longrightarrow> answered ip v v'"
  by (simp add: answered_def prepared_def)

lemma prepared_trans: "prepared ip u v \<Longrightarrow> prepared ip v w \<Longrightarrow> prepared ip u w"
  by (simp add: prepared_def)

lemma answered_write:
  assumes "prepared ip v v1" and "rw_status (w_rw v) = None" and "rw_lrw (w_rw v) = Some 200"
    and "\<And>rw. rw_status rw = None \<Longrightarrow> rw_lrw rw = Some 200 \<Longrightarrow> rw_status (f rw) \<noteq> None \<and> in_sync (f rw)"
  shows "answered ip v (on_rw f v1)"
  using assms tables_update(2) [of v1 f] by (auto simp: answered_def prepared_def)

lemma prepared_rate: "prepared ip v (rate_recorded v ip)"
proof -
  have "tables_ok (rate_recorded v ip)" if ok: "tables_ok v" "ip \<noteq> []"
    unfolding rate_recorded_def using ok tables_now [OF ok(1)]
    by (intro tables_update(5) tables_update(1) rl_ok_check) (simp_all add: tables_ok_def)
  then show ?thesis by (simp add: prepared_def)
qed

lemma prepared_check: "prepared ip v (after_check c v)"
proof -
  have "tables_ok (after_check c v)" if "tables_ok v"
    unfolding after_check_def using that
    by (intro tables_update(3) tables_update(1) al_ok_blocked) (simp_all add: tables_ok_def)
  then show ?thesis by (simp add: prepared_def)
qed

lemma prepared_no_cred:
  "prepared ip v ((tick v)\<lparr>g_noCredLimiter := snd (isAuthBlocked now c (g_noCredLimiter v))\<rparr>)"
proof -
  have "tables_ok ((tick v)\<lparr>g_noCredLimiter := snd (isAuthBlocked now c (g_noCredLimiter v))\<rparr>)" if "tables_ok v"
    using that by (intro tables_update(4) tables_update(1) al_ok_blocked) (simp_all add: tables_ok_def)
  then show ?thesis by (simp add: prepared_def)
qed

lemma prepared_failure:
  assumes "recordFailure c v a = (a', v')"
  shows "a = g_authLimiter v \<Longrightarrow> prepared ip v (v'\<lparr>g_authLimiter := a'\<rparr>)"
    and "a = g_noCredLimiter v \<Longrightarrow> prepared ip v (v'\<lparr>g_noCredLimiter := a'\<rparr>)"
proof -
  have v': "v' = tick (tick v)" and a': "a' = recordAuthFailure (iter_now v) (time_now v) (time_now (tick v)) c a"
    using assms by (simp_all add: recordFailure_def)
  have ok: "al_ok a'" if "tables_ok v" "al_ok a"
    unfolding a' using that tables_now [OF that(1)] tables_now [OF tables_update(1) [OF that(1)]]
    by (intro al_ok_record) simp_all
  show "prepared ip v (v'\<lparr>g_authLimiter := a'\<rparr>)" if "a = g_authLimiter v"
    using ok that by (auto simp: prepared_def v' tables_ok_def clock_ok_def orders_ok_def)
  show "prepared ip v (v'\<lparr>g_noCredLimiter := a'\<rparr>)" if "a = g_noCredLimiter v"
    using ok that by (auto simp: prepared_def v' tables_ok_def clock_ok_def orders_ok_def)
qed

lemma rate_answers:
  assumes inner: "serves h" and fresh: "rw_status (w_rw v) = None" "rw_lrw (w_rw v) = Some 200"
  shows "\<exists>v'. rateLimit tp h r v = Done v' \<and> answered (clientIP r tp) v v'"
proof (cases "rate_admits v (clientIP r tp)")
  case True
  let ?v1 = "rate_recorded v (clientIP r tp)"
  obtain v' where v': "h r ?v1 = Done v'" "served ?v1 v'" using servesD [OF inner, of ?v1 r] fresh by auto
  have "answered (clientIP r tp) v v'"
    using prepared_rate answered_served [OF v'(2)] by (rule answered_after)
  with True v'(1) show ?thesis by (simp add: rateLimit_cases)
next
  case False
  have "answered (clientIP r tp) v (on_rw (writeJSONError msg_too_frequent 429 ''rate_limit'') (rate_recorded v (clientIP r tp)))"
    using prepared_rate fresh by (rule answered_write) (simp_all split: option.split)
  with False show ?thesis by (simp add: rateLimit_cases)
qed

lemma auth_answers:
  assumes inner: "serves h" and fresh: "rw_status (w_rw v) = None" "rw_lrw (w_rw v) = Some 200"
  shows "\<exists>v'. basicAuth u p (rateLimit tp h) r v = Done v' \<and> answered (clientIP r tp) v v'"
proof -
  let ?ip = "clientIP r tp" and ?c = "clientIPFromContext r"
  let ?v1 = "after_check ?c v"
  have blocked: "answered ?ip v (on_rw (\<lambda>rw. writeJSONError m 429 t (set_header k x rw)) v2)" if "prepared ?ip v v2"
    for m t k x v2
    using that fresh by (rule answered_write) (simp_all split: option.split)
  have refused: "answered ?ip v (on_rw writeUnauthorized v2)" if "prepared ?ip v v2" for v2
    using that fresh by (rule answered_write) (simp_all add: writeUnauthorized_def split: option.split)
  have v1: "prepared ?ip v ?v1" by (rule prepared_check)
  show ?thesis
  proof (cases "u = [] \<or> p = []")
    case True
    with rate_answers [OF inner fresh] show ?thesis by (simp add: basicAuth_def)
  next
    case False
    then have conf: "u \<noteq> []" "p \<noteq> []" by simp_all
    show ?thesis
    proof (cases "fst (isAuthBlocked (time_now v) ?c (g_authLimiter v))")
      case True
      with basicAuth_blocked [OF conf True] blocked [OF v1] show ?thesis by simp
    next
      case open_client: False
      show ?thesis
      proof (cases "basicAuthCreds r")
        case (Some c)
        show ?thesis
        proof (cases "c = (u, p)")
          case True
          obtain v' where "rateLimit tp h r ?v1 = Done v'" "answered ?ip ?v1 v'"
            using rate_answers [OF inner, of ?v1 tp r] fresh by auto
          with basicAuth_pass [OF conf open_client] Some True answered_after [OF v1] show ?thesis by simp
        next
          case False
          obtain a2 v2 where fail: "recordFailure ?c ?v1 (g_authLimiter ?v1) = (a2, v2)" by (metis prod.exhaust)
          have "prepared ?ip v (v2\<lparr>g_authLimiter := a2\<rparr>)"
            using prepared_trans [OF v1 prepared_failure(1) [OF fail refl]] .
          from refused [OF this] fail show ?thesis
            by (simp add: basicAuth_wrong [OF conf open_client Some False refl] recordFailure_def)
        qed
      next
        case None
        let ?block = "isAuthBlocked (time_now ?v1) ?c (g_noCredLimiter ?v1)"
        let ?v2 = "(tick ?v1)\<lparr>g_noCredLimiter := snd ?block\<rparr>"
        have v2: "prepared ?ip v ?v2" using v1 prepared_no_cred by (rule prepared_trans)
        obtain n3 v3 where fail: "recordFailure ?c ?v2 (g_noCredLimiter ?v2) = (n3, v3)" by (metis prod.exhaust)
        have v3: "prepared ?ip v (v3\<lparr>g_noCredLimiter := n3\<rparr>)"
          using prepared_trans [OF v2 prepared_failure(2) [OF fail refl]] .
        have "basicAuth u p (rateLimit tp h) r v =
          (if fst ?block
           then Done (on_rw (\<lambda>rw. writeJSONError msg_too_frequent 429 ''rate_limit'' (set_header ''Retry-After'' ''60'' rw)) ?v2)
           else Done (on_rw writeUnauthorized (v3\<lparr>g_noCredLimiter := n3\<rparr>)))"
          using conf open_client None fail
          by (cases ?block; cases "isAuthBlocked (time_now v) ?c (g_authLimiter v)")
            (simp add: basicAuth_def after_check_def Let_def)
        with blocked [OF v2] refused [OF v3] show ?thesis by auto
      qed
    qed
  qed
qed

lemma tables_chain_state [simp]: "tables_ok (chain_state v) = tables_ok v"
  by (rule tables_cong) (simp_all add: chain_state_def)

lemma tables_log_access [simp]: "tables_ok (log_access ip r out v) = tables_ok v"
  by (rule tables_cong) (simp_all add: log_access_def Let_def on_rw_def)

lemma final_answers:
  assumes files: "serves (sv_files env)" and fresh: "w_rw w = empty_response"
  shows "\<exists>w' code. finalHandler dev cfg env r w = Done w' \<and> rw_status (w_rw w') = Some code \<and>
    w_access w' = w_access w @ [\<lparr>ae_ip = clientIP r (TrustProxyHeaders (cfg_server cfg)), ae_method = req_method r,
      ae_path = req_path r, ae_status = code\<rparr>] \<and>
    (tables_ok w \<and> clientIP r (TrustProxyHeaders (cfg_server cfg)) \<noteq> [] \<longrightarrow> tables_ok w')"
proof -
  let ?tp = "TrustProxyHeaders (cfg_server cfg)"
  let ?r = "r\<lparr>req_ctx_ip := Some (clientIP r ?tp)\<rparr>"
  have untouched: "rw_status (w_rw (chain_state w)) = None" "rw_lrw (w_rw (chain_state w)) = Some 200"
    and no_wrapper: "rw_lrw (w_rw w) = None" using fresh by simp_all
  obtain v where v: "basicAuth (Username (cfg_auth cfg)) (Password (cfg_auth cfg)) (rateLimit ?tp (mainMux dev cfg env))
      ?r (chain_state w) = Done v" "answered (clientIP ?r ?tp) (chain_state w) v"
    using auth_answers [OF serves_main [OF files] untouched] by blast
  let ?w' = "log_access (clientIP r ?tp) r None v"
  have done_: "finalHandler dev cfg env r w = Done ?w'"
    using v(1) by (simp add: finalHandler_def chain_cases [OF no_wrapper])
  obtain code where code: "rw_status (w_rw v) = Some code" using v(2) by (auto simp: answered_def)
  then have "rw_lrw (w_rw v) = Some code" using v(2) by (simp add: answered_def in_sync_def)
  with done_ code v(2) show ?thesis by (simp add: answered_def)
qed

section \<open>Properties\<close>

text \<open>
  C4. Every request is answered once and logged once: whatever the request and the state are, the chain
  returns normally with one status sent, and appends one line to the request log, with the client,
  the method, the path and exactly that status.
\<close>

theorem every_request_answered:
  assumes files: "serves (sv_files env)" and fresh: "w_rw w = empty_response"
  shows "\<exists>w' code. finalHandler dev cfg env r w = Done w' \<and> rw_status (w_rw w') = Some code \<and>
    w_access w' = w_access w @ [\<lparr>ae_ip = clientIP r (TrustProxyHeaders (cfg_server cfg)), ae_method = req_method r,
      ae_path = req_path r, ae_status = code\<rparr>]"
  using final_answers [OF files fresh] by blast

text \<open>A frontend without files.\<close>

definition no_files :: "srv_world server_env" where
  "no_files = plain_env\<lparr>sv_files := (\<lambda>r w. Done (on_rw (http_error ''404 page not found'' 404) w))\<rparr>"

lemma no_files_serves: "serves (sv_files no_files)"
  by (rule servesI) (simp add: no_files_def http_error_sync served_write)

lemma sample_tables: "tables_ok sample_server"
proof -
  have "rl_ok limiter" using rl_inv_limiter by (simp add: rl_ok_def limiter_def)
  moreover have "al_ok authLimiter" "al_ok noCredLimiter"
    by (simp_all add: al_ok_def al_inv_def authLimiter_def noCredLimiter_def)
  moreover have "mgr_ok newManager"
    by (simp add: mgr_ok_def mgr_inv_new mgr_count_def) (simp add: newManager_def)
  moreover have "g_noCredLimiter sample_server = noCredLimiter" "w_iter sample_server = (\<lambda>_ ks. ks)"
    by (simp_all add: sample_server_def newServer_def mw_world.defs srv_world.defs)
  ultimately show ?thesis by (simp add: tables_ok_def clock_ok_def orders_ok_def iter_ok_def)
qed

theorem every_request_answered_witness:
  "\<exists>w' code. finalHandler False login_config no_files sample_request sample_server = Done w' \<and>
    rw_status (w_rw w') = Some code \<and>
    w_access w' = w_access sample_server @ [\<lparr>ae_ip = clientIP sample_request (TrustProxyHeaders (cfg_server login_config)),
      ae_method = req_method sample_request, ae_path = req_path sample_request, ae_status = code\<rparr>]"
  by (rule every_request_answered [OF no_files_serves]) simp

section \<open>Requests and cleanups in any order\<close>

text \<open>What the cleanup goroutines run every two minutes.\<close>

definition clean_requests :: "'a mw_world_scheme \<Rightarrow> 'a mw_world_scheme" where
  "clean_requests w = (tick w)\<lparr>g_limiter := cleanupStaleKeys (iter_now w) (time_now w) (g_limiter w)\<rparr>"

definition clean_logins :: "'a mw_world_scheme \<Rightarrow> 'a mw_world_scheme" where
  "clean_logins w =
     (let w1 = (tick w)\<lparr>g_authLimiter := cleanupRateLimiter (iter_now w) (time_now w) (g_authLimiter w)\<rparr> in
      (tick w1)\<lparr>g_noCredLimiter := cleanupRateLimiter (iter_now w1) (time_now w1) (g_noCredLimiter w1)\<rparr>)"

datatype sys_event = Serve request | Clean loop_owner

fun sys_step :: "('a mw_world_scheme) handler \<Rightarrow> sys_event \<Rightarrow> 'a mw_world_scheme \<Rightarrow> 'a mw_world_scheme" where
  "sys_step h (Serve r) w = outcome_world (h r (on_rw (\<lambda>_. empty_response) w))"
| "sys_step h (Clean RequestLimiter) w = clean_requests w"
| "sys_step h (Clean AuthLimiters) w = clean_logins w"

lemma al_ok_cleanup: "al_ok a \<Longrightarrow> al_ok (cleanupRateLimiter perm now a)"
  using cleanup_auth_length [of perm now a] by (auto simp: al_ok_def al_inv_cleanup)

lemma rl_ok_cleanup: "rl_ok l \<Longrightarrow> rl_ok (cleanupStaleKeys perm now l)"
  using cleanup_length [of perm now l] by (auto simp: rl_ok_def rl_inv_cleanup)

lemma tables_cleaned: "tables_ok w \<Longrightarrow> tables_ok (clean_requests w)" "tables_ok w \<Longrightarrow> tables_ok (clean_logins w)"
  by (auto simp: clean_requests_def clean_logins_def Let_def tables_ok_def clock_ok_def orders_ok_def
      rl_ok_cleanup al_ok_cleanup)

text \<open>A request of a client with an address; the address can be empty only behind a trusted proxy.\<close>

fun has_client :: "bool \<Rightarrow> sys_event \<Rightarrow> bool" where
  "has_client tp (Serve r) = (clientIP r tp \<noteq> [])"
| "has_client tp (Clean k) = True"

lemma sys_step_tables:
  assumes files: "serves (sv_files env)" and ok: "tables_ok w"
    and client: "has_client (TrustProxyHeaders (cfg_server cfg)) e"
  shows "tables_ok (sys_step (finalHandler dev cfg env) e w)"
proof (cases e)
  case (Serve r)
  let ?w0 = "on_rw (\<lambda>_. empty_response) w"
  have "w_rw ?w0 = empty_response" "tables_ok ?w0" using ok by (simp_all add: tables_update)
  then obtain w' where "finalHandler dev cfg env r ?w0 = Done w'" "tables_ok w'"
    using final_answers [OF files, of ?w0 dev cfg r] client Serve by auto
  with Serve show ?thesis by simp
next
  case (Clean k)
  with ok show ?thesis by (cases k) (simp_all add: tables_cleaned)
qed



end
