(* ===== verification/Reconnect.thy ===== *)
theory Reconnect
  imports GoBase
begin

text \<open>
  Waiting for the gRPC connection: \<open>waitForReady\<close> of main.go, \<open>waitForReconnect\<close> and the reconnect
  monitor of server/server.go. The connection's state is a function of the instant
  (\<open>cl_state\<close>); every reading of it takes one instant, so it can change between two readings. The
  context of a wait ends at an instant, by its timeout or the shutdown.
\<close>

datatype conn_state = Idle | Connecting | Ready | TransientFailure | ConnShutdown

type_synonym conn_line = "nat \<Rightarrow> conn_state"

text \<open>
  \<open>WaitForStateChange\<close>: true as soon as the state differs from \<open>src\<close>, false once the context is done
  before. The second result is the instant of the return.
\<close>

function wait_change :: "conn_line \<Rightarrow> nat \<Rightarrow> conn_state \<Rightarrow> nat \<Rightarrow> bool \<times> nat" where
  "wait_change cl deadline src t =
     (if cl t \<noteq> src then (True, t)
      else if deadline \<le> t then (False, t)
      else wait_change cl deadline src (Suc t))"
  by pat_completeness auto
termination
  by (relation "measure (\<lambda>(cl, deadline, src, t). deadline - t)") auto

declare wait_change.simps [simp del]

text \<open>The loops may go on as long as the state keeps changing; \<^const>\<open>None\<close> stands for no return.\<close>

partial_function (option) waitForReady :: "conn_line \<Rightarrow> nat \<Rightarrow> nat \<Rightarrow> (bool \<times> nat) option" where
  "waitForReady cl deadline t =
     (if cl t = Ready then Some (True, Suc t)
      else if cl t = TransientFailure then Some (False, Suc t)
      else (let res = wait_change cl deadline (cl t) (Suc t) in
            if fst res then waitForReady cl deadline (snd res) else Some (False, snd res)))"

partial_function (option) waitForReconnect :: "conn_line \<Rightarrow> nat \<Rightarrow> nat \<Rightarrow> (bool \<times> nat) option" where
  "waitForReconnect cl deadline t =
     (if cl t = Ready then Some (True, Suc t)
      else (let res = wait_change cl deadline (cl (Suc t)) (Suc (Suc t)) in
            if fst res then waitForReconnect cl deadline (snd res) else Some (False, snd res)))"

section \<open>The monitor\<close>

datatype monitor_log = LogRestored | LogLost | LogReconnected | LogTimeout conn_state

text \<open>What the monitor's \<open>select\<close> picks: the shutdown, or a tick at an instant.\<close>

datatype monitor_event = MonDone | MonTick nat

text \<open>\<open>budget\<close> is the length of the recovery timeout in instants, \<open>down\<close> the instant of the shutdown.\<close>

definition monitor_tick ::
  "conn_line \<Rightarrow> nat \<Rightarrow> nat \<Rightarrow> nat \<Rightarrow> bool \<Rightarrow> (bool \<times> bool \<times> monitor_log list) option" where
  "monitor_tick cl budget down t wasConnected =
     (case cl t of
        Ready \<Rightarrow> Some (True, True, if wasConnected then [] else [LogRestored])
      | TransientFailure \<Rightarrow>
          (let lost = (if wasConnected then [LogLost] else []) in
           case waitForReconnect cl (min (Suc t + budget) down) (Suc t) of
             None \<Rightarrow> None
           | Some (True, t') \<Rightarrow> Some (True, True, lost @ [LogReconnected])
           | Some (False, t') \<Rightarrow> Some (True, False, lost @ [LogTimeout (cl t')]))
      | Idle \<Rightarrow> Some (True, wasConnected, [])
      | Connecting \<Rightarrow> Some (True, wasConnected, [])
      | ConnShutdown \<Rightarrow> Some (False, wasConnected, []))"

text \<open>The first component of a tick says whether the loop goes on.\<close>

fun monitor_run ::
  "conn_line \<Rightarrow> nat \<Rightarrow> nat \<Rightarrow> monitor_event list \<Rightarrow> bool \<Rightarrow> monitor_log list \<Rightarrow> monitor_log list option" where
  "monitor_run cl budget down [] wasConnected logs = Some logs"
| "monitor_run cl budget down (MonDone # es) wasConnected logs = Some logs"
| "monitor_run cl budget down (MonTick t # es) wasConnected logs =
     (case monitor_tick cl budget down t wasConnected of
        None \<Rightarrow> None
      | Some (goes_on, was, new) \<Rightarrow>
          if goes_on then monitor_run cl budget down es was (logs @ new) else Some (logs @ new))"

definition startReconnectMonitor :: "conn_line \<Rightarrow> nat \<Rightarrow> nat \<Rightarrow> monitor_event list \<Rightarrow> monitor_log list option" where
  "startReconnectMonitor cl budget down es = monitor_run cl budget down es True []"

section \<open>Waiting\<close>

lemma wait_change_le: "t \<le> snd (wait_change cl d s t)"
proof (induction cl d s t rule: wait_change.induct)
  case (1 cl d s t)
  then show ?case by (subst wait_change.simps) force
qed

lemma wait_change_now: "cl t \<noteq> s \<Longrightarrow> wait_change cl d s t = (True, t)"
  "cl t = s \<Longrightarrow> d \<le> t \<Longrightarrow> wait_change cl d s t = (False, t)"
  "cl t = s \<Longrightarrow> \<not> d \<le> t \<Longrightarrow> wait_change cl d s t = wait_change cl d s (Suc t)"
  by (simp_all add: wait_change.simps [of cl d s t])

lemma wait_change_true: "fst (wait_change cl d s t) \<Longrightarrow> cl (snd (wait_change cl d s t)) \<noteq> s"
proof (induction cl d s t rule: wait_change.induct)
  case (1 cl d s t)
  show ?case
  proof (cases "cl t = s \<and> \<not> d \<le> t")
    case True
    then have now: "\<not> cl t \<noteq> s" "\<not> d \<le> t" by blast+
    have "cl t = s" using True by (rule conjunct1)
    from wait_change_now(3) [of cl t s d, OF this now(2)]
    have step: "wait_change cl d s t = wait_change cl d s (Suc t)" .
    from "1.prems" have "fst (wait_change cl d s (Suc t))" unfolding step .
    from "1.IH" [OF now this] show ?thesis unfolding step .
  next
    case False
    with "1.prems" wait_change_now(1,2) [of cl t s d] show ?thesis by (cases "cl t = s") auto
  qed
qed

lemma wait_change_false:
  "\<not> fst (wait_change cl d s t) \<Longrightarrow> d \<le> snd (wait_change cl d s t) \<and> (\<forall>i\<in>{t..snd (wait_change cl d s t)}. cl i = s)"
proof (induction cl d s t rule: wait_change.induct)
  case (1 cl d s t)
  show ?case
  proof (cases "cl t = s \<and> \<not> d \<le> t")
    case True
    then have now: "\<not> cl t \<noteq> s" "\<not> d \<le> t" by blast+
    have "cl t = s" using True by (rule conjunct1)
    from wait_change_now(3) [of cl t s d, OF this now(2)]
    have step: "wait_change cl d s t = wait_change cl d s (Suc t)" .
    let ?e = "snd (wait_change cl d s (Suc t))"
    from "1.prems" have "\<not> fst (wait_change cl d s (Suc t))" unfolding step .
    from "1.IH" [OF now this] have rest: "d \<le> ?e" "\<forall>i\<in>{Suc t..?e}. cl i = s" by blast+
    have "cl i = s" if "i \<in> {t..?e}" for i
    proof (cases "i = t")
      case False
      with that have "i \<in> {Suc t..?e}" by simp
      with rest(2) show ?thesis by blast
    qed (simp add: True)
    with rest(1) show ?thesis unfolding step by blast
  next
    case False
    show ?thesis
    proof (cases "cl t = s")
      case now: True
      with False have "d \<le> t" by blast
      from wait_change_now(2) [of cl t s d, OF now this] now \<open>d \<le> t\<close> show ?thesis by simp
    next
      case other: False
      with "1.prems" wait_change_now(1) [of cl t s d] show ?thesis by simp
    qed
  qed
qed

text \<open>On a state that no longer changes a wait ends with false.\<close>

lemma wait_change_stable:
  assumes "\<And>i. t \<le> i \<Longrightarrow> cl i = s"
  shows "\<not> fst (wait_change cl d s t)"
  using wait_change_true [of cl d s t] wait_change_le [of t cl d s] assms by blast

lemma wait_ready_total:
  assumes settles: "\<And>i. n \<le> i \<Longrightarrow> cl i = cl n"
  shows "\<exists>b t'. waitForReady cl deadline t = Some (b, t') \<and> t < t' \<and>
    (if b then cl (t' - 1) = Ready else cl (t' - 1) = TransientFailure \<or> deadline \<le> t' \<and> cl t' \<noteq> Ready)"
proof (induction "n - t" arbitrary: t rule: less_induct)
  case less
  let ?res = "wait_change cl deadline (cl t) (Suc t)"
  show ?case
  proof (cases "cl t = Ready \<or> cl t = TransientFailure")
    case True
    then show ?thesis by (subst waitForReady.simps) auto
  next
    case False
    then have step: "waitForReady cl deadline t =
        (if fst ?res then waitForReady cl deadline (snd ?res) else Some (False, snd ?res))"
      by (subst waitForReady.simps) (simp add: Let_def)
    have later: "t < snd ?res" using wait_change_le [of "Suc t" cl deadline "cl t"] by simp
    show ?thesis
    proof (cases "fst ?res")
      case changed: True
      have "t < n"
      proof (rule ccontr)
        assume "\<not> t < n"
        then have "cl i = cl t" if "Suc t \<le> i" for i using settles [of i] settles [of t] that by simp
        then have "\<not> fst ?res" by (rule wait_change_stable)
        with changed show False by contradiction
      qed
      with later have "n - snd ?res < n - t" by simp
      from less.hyps [OF this] obtain b t' where
        "waitForReady cl deadline (snd ?res) = Some (b, t')" "snd ?res < t'"
        "if b then cl (t' - 1) = Ready else cl (t' - 1) = TransientFailure \<or> deadline \<le> t' \<and> cl t' \<noteq> Ready"
        by blast
      with step changed later show ?thesis by auto
    next
      case expired: False
      from wait_change_false [OF expired] have over: "deadline \<le> snd ?res"
        and same: "\<forall>i\<in>{Suc t..snd ?res}. cl i = cl t" by blast+
      have "snd ?res \<in> {Suc t..snd ?res}" using later by simp
      with same have "cl (snd ?res) = cl t" by blast
      with False over have "deadline \<le> snd ?res" "cl (snd ?res) \<noteq> Ready" by simp_all
      with step expired later show ?thesis by auto
    qed
  qed
qed

text \<open>
  The start-up wait returns as soon as the connection settles: if its state stays the same from
  some instant on, \<open>waitForReady\<close> returns, true exactly if it saw Ready; and if it says false,
  it saw a failure or its time was up without a change.
\<close>

theorem wait_ready_returns:
  assumes settles: "\<And>i. n \<le> i \<Longrightarrow> cl i = cl n"
  shows "\<exists>b t'. waitForReady cl deadline t = Some (b, t') \<and> t < t' \<and>
    (if b then cl (t' - 1) = Ready else cl (t' - 1) = TransientFailure \<or> deadline \<le> t' \<and> cl t' \<noteq> Ready)"
  using settles by (rule wait_ready_total)

theorem wait_ready_returns_witness:
  "let cl = (\<lambda>i. if i < 3 then Idle else if i < 6 then Connecting else Ready) in
   \<exists>b t'. waitForReady cl 50 0 = Some (b, t') \<and> 0 < t' \<and>
    (if b then cl (t' - 1) = Ready else cl (t' - 1) = TransientFailure \<or> 50 \<le> t' \<and> cl t' \<noteq> Ready)"
  unfolding Let_def by (rule wait_ready_returns [of 6]) simp

text \<open>
  \<open>waitForReconnect\<close> reads the state twice: if the connection becomes ready between the two
  readings, it waits for the ready state to change, and reports a timeout for a connection that
  has been ready all along.
\<close>

theorem reconnect_misses_ready:
  assumes before: "cl t \<noteq> Ready" and ready: "\<And>i. Suc t \<le> i \<Longrightarrow> cl i = Ready"
  shows "\<exists>t'. waitForReconnect cl deadline t = Some (False, t') \<and> deadline \<le> t' \<and> (\<forall>i\<in>{Suc t..t'}. cl i = Ready)"
proof -
  let ?res = "wait_change cl deadline (cl (Suc t)) (Suc (Suc t))"
  have expired: "\<not> fst ?res" using ready by (intro wait_change_stable) simp
  then have "waitForReconnect cl deadline t = Some (False, snd ?res)"
    using before by (subst waitForReconnect.simps) (simp add: Let_def)
  with wait_change_false [OF expired] ready show ?thesis by auto
qed

theorem reconnect_misses_ready_witness:
  "let cl = (\<lambda>i. if i < 4 then TransientFailure else Ready) in
   \<exists>t'. waitForReconnect cl 20 3 = Some (False, t') \<and> 20 \<le> t' \<and> (\<forall>i\<in>{Suc 3..t'}. cl i = Ready)"
  unfolding Let_def by (rule reconnect_misses_ready) simp_all

section \<open>The monitor's log\<close>

text \<open>
  Reading a log from a connected start: a loss is logged only while connected, a recovery or a
  timeout only while not; \<^const>\<open>None\<close> where the log is not of this form.
\<close>

fun log_step :: "monitor_log \<Rightarrow> bool option \<Rightarrow> bool option" where
  "log_step LogLost (Some True) = Some False"
| "log_step LogRestored (Some False) = Some True"
| "log_step LogReconnected (Some False) = Some True"
| "log_step (LogTimeout s) (Some False) = Some False"
| "log_step _ _ = None"

lemma monitor_tick_log:
  assumes "monitor_tick cl budget down t was = Some (goes_on, was', new)"
  shows "fold log_step new (Some was) = Some was'"
  using assms
  by (auto simp: monitor_tick_def Let_def split: conn_state.splits option.splits prod.splits bool.splits if_splits)

lemma monitor_run_log:
  assumes "monitor_run cl budget down es was logs = Some logs'" and "fold log_step logs (Some True) = Some was"
  shows "\<exists>was'. fold log_step logs' (Some True) = Some was'"
  using assms
proof (induction es arbitrary: was logs)
  case (Cons e es)
  show ?case
  proof (cases e)
    case (MonTick t)
    with Cons.prems(1) obtain goes_on was' new where
      tick: "monitor_tick cl budget down t was = Some (goes_on, was', new)"
      by (auto split: option.splits)
    have "fold log_step (logs @ new) (Some True) = Some was'"
      using monitor_tick_log [OF tick] Cons.prems(2) by simp
    with Cons MonTick tick show ?thesis by (auto split: if_splits)
  qed (use Cons.prems in auto)
qed auto

text \<open>
  The monitor's log is truthful about transitions: whatever the connection does, losses and
  recoveries alternate, starting with a loss, and timeouts are reported only in between; the
  monitor returns at the shutdown or when the connection is closed.
\<close>

theorem monitor_log_alternates:
  assumes "startReconnectMonitor cl budget down es = Some logs"
  shows "\<exists>connected. fold log_step logs (Some True) = Some connected"
  using monitor_run_log [of cl budget down es True "[]" logs] assms by (simp add: startReconnectMonitor_def)

theorem monitor_log_alternates_witness:
  "let cl = (\<lambda>i. if i < 5 then Ready else if i < 20 then TransientFailure else Ready); logs = [LogLost, LogTimeout Ready, LogRestored] in
   startReconnectMonitor cl 10 100 [MonTick 3, MonTick 18, MonTick 30, MonDone] = Some logs \<and>
   (\<exists>connected. fold log_step logs (Some True) = Some connected)"
proof -
  let ?cl = "\<lambda>i::nat. if i < 5 then Ready else if i < 20 then TransientFailure else Ready"
  have missed: "waitForReconnect ?cl 29 19 = Some (False, 29)"
    by (subst waitForReconnect.simps) code_simp
  have run: "startReconnectMonitor ?cl 10 100 [MonTick 3, MonTick 18, MonTick 30, MonDone] = Some [LogLost, LogTimeout Ready, LogRestored]"
    by (simp add: startReconnectMonitor_def monitor_tick_def missed)
  from monitor_log_alternates [OF run] run show ?thesis by simp
qed

end
