(* ===== verification/MainProg.thy ===== *)
theory MainProg
  imports Config Reconnect
begin

text \<open>
  The main function of main.go: configuration, connecting to Xray, starting and stopping. The
  actions it takes on other components are recorded in order; what those do is in their theories
  (\<open>finalHandler\<close> of Server is the handler it serves). \<open>log.Fatalf\<close> exits without the deferred calls.
\<close>

record http_server =
  hs_addr :: gostring
  hs_readTimeout :: duration
  hs_writeTimeout :: duration
  hs_idleTimeout :: duration

datatype main_action =
    ActConnect
  | ActSleep duration
  | ActInitRateLimiter
  | ActStartMonitor
  | ActListen http_server
  | ActServerShutdown
  | ActHttpShutdown
  | ActHttpClose
  | ActStopCleanup
  | ActConnClose

datatype fatal = FatalPath path_error | FatalConfig load_error | FatalClient | FatalConnect | FatalServe

datatype main_result = Fatal fatal | Stopped

datatype stop_reason = ServerError | Signal

text \<open>
  The surroundings: the \<open>-config\<close> flag, the operating system, the YAML library and \<open>url.Parse\<close>,
  the gRPC client and its connection, the length of the connect timeout and of the pauses in
  instants, what ends the program, and whether the HTTP server shuts down in time.
\<close>

record main_env =
  me_configPath :: gostring
  me_wd :: "gostring option"
  me_executable :: "gostring option"
  me_unmarshal :: "gostring \<Rightarrow> config \<Rightarrow> config option"
  me_marshal :: "config \<Rightarrow> gostring option"
  me_url_parse :: "gostring \<Rightarrow> (gostring \<times> gostring) option"
  me_client_ok :: bool
  me_line :: conn_line
  me_budget :: nat
  me_pause :: "duration \<Rightarrow> nat"
  me_stop :: stop_reason
  me_http_ok :: bool

definition maxRetries :: nat where
  "maxRetries = 3"

text \<open>The tries left, the number of this one, and the instant; the result ends with the instant.\<close>

fun connect_loop :: "main_env \<Rightarrow> nat \<Rightarrow> nat \<Rightarrow> nat \<Rightarrow> (main_action list \<times> nat) option" where
  "connect_loop env 0 i t = Some ([], t)"
| "connect_loop env (Suc left) i t =
     (case waitForReady (me_line env) (t + me_budget env) t of
        None \<Rightarrow> None
      | Some (ready, t1) \<Rightarrow>
          if ready then Some ([ActConnect], t1)
          else
           (let backoff = 2 ^ i * second;
                (pause, t2) = (if i < maxRetries - 1 then ([ActSleep backoff], Suc t1 + me_pause env backoff)
                               else ([], Suc t1)) in
            case connect_loop env left (Suc i) t2 of
              None \<Rightarrow> None
            | Some (acts, t3) \<Rightarrow> Some (ActConnect # pause @ acts, t3)))"

definition httpServer :: "config \<Rightarrow> http_server" where
  "httpServer cfg =
     \<lparr>hs_addr = joinHostPort (Host (cfg_server cfg)) (Port (cfg_server cfg)), hs_readTimeout = 10 * second,
      hs_writeTimeout = 30 * second, hs_idleTimeout = 120 * second\<rparr>"

text \<open>From the first use of the connection to the end of the program.\<close>

definition serve_and_stop :: "main_env \<Rightarrow> config \<Rightarrow> main_result \<times> main_action list" where
  "serve_and_stop env cfg =
     (let start = [ActInitRateLimiter, ActStartMonitor, ActListen (httpServer cfg)] in
      case me_stop env of
        ServerError \<Rightarrow> (Fatal FatalServe, start)
      | Signal \<Rightarrow>
          (Stopped, start @ [ActServerShutdown, ActHttpShutdown]
             @ (if me_http_ok env then [] else [ActHttpClose]) @ [ActStopCleanup, ActConnClose]))"

definition main_run :: "main_env \<Rightarrow> file_system \<Rightarrow> ((main_result \<times> main_action list) \<times> file_system) option" where
  "main_run env fs =
     (case getConfigPath (me_wd env) (me_executable env) (me_configPath env) of
        Inl e \<Rightarrow> Some ((Fatal (FatalPath e), []), fs)
      | Inr path \<Rightarrow>
          (case loadConfig (me_unmarshal env) (me_marshal env) (me_url_parse env) path fs of
             ((cfg, Some e), fs1) \<Rightarrow> Some ((Fatal (FatalConfig e), []), fs1)
           | ((cfg, None), fs1) \<Rightarrow>
               if \<not> me_client_ok env then Some ((Fatal FatalClient, []), fs1)
               else (case connect_loop env maxRetries 0 0 of
                       None \<Rightarrow> None
                     | Some (acts, t) \<Rightarrow>
                         if me_line env t \<noteq> Ready then Some ((Fatal FatalConnect, acts), fs1)
                         else (case serve_and_stop env cfg of (res, acts1) \<Rightarrow> Some ((res, acts @ acts1), fs1)))))"

section \<open>Connecting\<close>

text \<open>One, two or three tries, with pauses of one and of two seconds between them.\<close>

definition try_sequences :: "main_action list set" where
  "try_sequences =
     {[ActConnect], [ActConnect, ActSleep second, ActConnect],
      [ActConnect, ActSleep second, ActConnect, ActSleep (2 * second), ActConnect]}"

lemma connect_loop_tries: "connect_loop env maxRetries 0 t = Some (acts, t') \<Longrightarrow> acts \<in> try_sequences"
  unfolding maxRetries_def try_sequences_def numeral_3_eq_3
  by (auto simp: maxRetries_def Let_def split: option.splits prod.splits if_splits)

lemma connect_loop_returns:
  assumes "\<And>i. n \<le> i \<Longrightarrow> me_line env i = me_line env n"
  shows "\<exists>acts t'. connect_loop env left i t = Some (acts, t')"
proof (induction "left" arbitrary: i t)
  case (Suc left)
  obtain b t1 where "waitForReady (me_line env) (t + me_budget env) t = Some (b, t1)"
    using wait_ready_total [of n "me_line env" "t + me_budget env" t] assms by blast
  moreover obtain a1 u1 where "connect_loop env left (Suc i) (Suc t1) = Some (a1, u1)" using Suc.IH by blast
  moreover obtain a2 u2 where "connect_loop env left (Suc i) (Suc t1 + me_pause env (2 ^ i * second)) = Some (a2, u2)"
    using Suc.IH by blast
  ultimately show ?case by (simp add: Let_def)
qed simp

lemma load_config_ok:
  "loadConfig unmarshal marshal url_parse path fs = ((cfg, None), fs1) \<Longrightarrow> config_ok url_parse cfg"
  using validate_config_iff [of url_parse] default_config_ok [of url_parse]
  by (auto simp: loadConfig_def Let_def split: read_result.splits option.splits)

text \<open>
  C22. The program listens only with a valid configuration and a connection to Xray that is ready
  after one to three tries. When it stops on a signal, streams are shut down before the HTTP
  server, which is forced if it is late, then the cleanup loops end and the connection is closed.
\<close>

theorem main_protocol:
  assumes run: "main_run env fs = Some ((res, acts), fs')" and listens: "ActListen hs \<in> set acts"
  shows "\<exists>cfg tries t later. config_ok (me_url_parse env) cfg \<and> hs = httpServer cfg \<and>
    tries \<in> try_sequences \<and> me_line env t = Ready \<and>
    acts = tries @ [ActInitRateLimiter, ActStartMonitor, ActListen hs] @ later \<and>
    (if me_stop env = Signal
     then res = Stopped \<and> later = [ActServerShutdown, ActHttpShutdown] @
       (if me_http_ok env then [] else [ActHttpClose]) @ [ActStopCleanup, ActConnClose]
     else res = Fatal FatalServe \<and> later = [])"
proof -
  obtain path where path: "getConfigPath (me_wd env) (me_executable env) (me_configPath env) = Inr path"
    using run listens by (auto simp: main_run_def split: sum.splits)
  obtain cfg err fs1 where load: "loadConfig (me_unmarshal env) (me_marshal env) (me_url_parse env) path fs = ((cfg, err), fs1)"
    by (metis prod.exhaust)
  have ok: "err = None" "me_client_ok env"
    using run listens by (auto simp: main_run_def path load split: option.splits if_splits)
  obtain tries t where tries: "connect_loop env maxRetries 0 0 = Some (tries, t)"
    using run by (auto simp: main_run_def path load ok split: option.splits)
  have shape: "tries \<in> try_sequences" using tries by (rule connect_loop_tries)
  then have quiet: "ActListen hs \<notin> set tries" by (auto simp: try_sequences_def)
  have ready: "me_line env t = Ready"
    using run listens quiet by (auto simp: main_run_def path load ok tries split: if_splits)
  obtain more where more: "serve_and_stop env cfg = (res, more)" "acts = tries @ more"
    using run ready by (auto simp: main_run_def path load ok tries split: prod.splits)
  with listens quiet have "ActListen hs \<in> set more" by auto
  then have hs: "hs = httpServer cfg"
    using more(1) by (auto simp: serve_and_stop_def Let_def split: stop_reason.splits if_splits)
  have "config_ok (me_url_parse env) cfg" using load unfolding ok(1) by (rule load_config_ok)
  moreover have "\<exists>later. more = [ActInitRateLimiter, ActStartMonitor, ActListen hs] @ later \<and>
    (if me_stop env = Signal
     then res = Stopped \<and> later = [ActServerShutdown, ActHttpShutdown] @
       (if me_http_ok env then [] else [ActHttpClose]) @ [ActStopCleanup, ActConnClose]
     else res = Fatal FatalServe \<and> later = [])"
    using more(1) by (cases "me_stop env") (auto simp: serve_and_stop_def Let_def hs)
  ultimately show ?thesis using hs shape ready more(2) by blast
qed

definition sample_main :: main_env where
  "sample_main = \<lparr>me_configPath = [], me_wd = None, me_executable = Some ''/srv/xray/manager'',
     me_unmarshal = (\<lambda>_ c. Some c), me_marshal = (\<lambda>_. Some []), me_url_parse = (\<lambda>_. None), me_client_ok = True,
     me_line = (\<lambda>i. if i = 0 then TransientFailure else Ready), me_budget = 50, me_pause = (\<lambda>_. 4),
     me_stop = Signal, me_http_ok = False\<rparr>"

lemma sample_main_sel [simp]:
  "me_configPath sample_main = []" "me_executable sample_main = Some ''/srv/xray/manager''"
  "me_unmarshal sample_main = (\<lambda>_ c. Some c)" "me_marshal sample_main = (\<lambda>_. Some [])"
  "me_client_ok sample_main" "me_budget sample_main = 50" "me_pause sample_main = (\<lambda>_. 4)"
  "me_stop sample_main = Signal" "\<not> me_http_ok sample_main"
  "me_line sample_main i = (if i = 0 then TransientFailure else Ready)"
  by (simp_all add: sample_main_def)

lemma sample_connects: "connect_loop sample_main maxRetries 0 0 = Some ([ActConnect, ActSleep second, ActConnect], 7)"
proof -
  have "waitForReady (me_line sample_main) 50 0 = Some (False, 1)" "waitForReady (me_line sample_main) 56 6 = Some (True, 7)"
    by (subst waitForReady.simps, simp)+
  then show ?thesis by (simp add: maxRetries_def numeral_3_eq_3)
qed

lemma sample_main_runs:
  "\<exists>fs'. main_run sample_main empty_fs = Some ((Stopped,
     [ActConnect, ActSleep second, ActConnect, ActInitRateLimiter, ActStartMonitor, ActListen (httpServer newDefaultConfig),
      ActServerShutdown, ActHttpShutdown, ActHttpClose, ActStopCleanup, ActConnClose]), fs')"
  by (simp add: main_run_def getConfigPath_def loadConfig_def readFile_def empty_fs_def sample_connects
      serve_and_stop_def Let_def)

theorem main_protocol_witness:
  "\<exists>cfg tries t later. config_ok (me_url_parse sample_main) cfg \<and> httpServer newDefaultConfig = httpServer cfg \<and>
    tries \<in> try_sequences \<and> me_line sample_main t = Ready \<and>
    [ActConnect, ActSleep second, ActConnect, ActInitRateLimiter, ActStartMonitor, ActListen (httpServer newDefaultConfig),
      ActServerShutdown, ActHttpShutdown, ActHttpClose, ActStopCleanup, ActConnClose] =
      tries @ [ActInitRateLimiter, ActStartMonitor, ActListen (httpServer newDefaultConfig)] @ later \<and>
    (if me_stop sample_main = Signal
     then Stopped = Stopped \<and> later = [ActServerShutdown, ActHttpShutdown] @
       (if me_http_ok sample_main then [] else [ActHttpClose]) @ [ActStopCleanup, ActConnClose]
     else Stopped = Fatal FatalServe \<and> later = [])"
proof -
  obtain fs' where "main_run sample_main empty_fs = Some ((Stopped,
     [ActConnect, ActSleep second, ActConnect, ActInitRateLimiter, ActStartMonitor, ActListen (httpServer newDefaultConfig),
      ActServerShutdown, ActHttpShutdown, ActHttpClose, ActStopCleanup, ActConnClose]), fs')"
    using sample_main_runs by blast
  then show ?thesis by (rule main_protocol) simp
qed

text \<open>
  C36. The start-up never hangs: if the connection settles at some instant, \<open>main\<close> reaches its end,
  whatever the configuration file, the flags and the connection are.
\<close>

theorem main_returns:
  assumes "\<And>i. n \<le> i \<Longrightarrow> me_line env i = me_line env n"
  shows "\<exists>res fs'. main_run env fs = Some (res, fs')"
proof -
  obtain tries t where "connect_loop env maxRetries 0 0 = Some (tries, t)"
    using connect_loop_returns [of n env] assms by blast
  then show ?thesis by (auto simp: main_run_def split: sum.split prod.split option.split)
qed

theorem main_returns_witness: "\<exists>res fs'. main_run sample_main empty_fs = Some (res, fs')"
  by (rule main_returns [of 1]) simp

end
