(* ===== verification/Flight.thy ===== *)
theory Flight
  imports ServerState
begin

text \<open>
  A cache that is refreshed through \<open>singleflight\<close>, under concurrent requests: the pattern of
  \<open>getAllOutboundStatuses\<close> and \<open>buildExcludedTags\<close> of server/handleroutbound.go. Each request reads
  the cache, then joins the refresh in flight or starts one, then reads the cache again; the cache
  can be dropped at any point. \<open>singleflight\<close> (a library) is what its documentation says: one
  execution at a time for a key, and later callers wait for it. A copy of a value is the value.
\<close>

section \<open>The system\<close>

text \<open>
  What differs between the two functions: how the cache is read and written, its time to live, what
  the refresh stores for a reply, what a request gets when the cache is stale even after the
  refresh, and whether a fresh cache holding nil answers a request.
\<close>

record ('c, 'd, 'r) coalesced =
  fc_stored :: "'c \<Rightarrow> 'd option"
  fc_stamp :: "'c \<Rightarrow> time"
  fc_put :: "'d option \<Rightarrow> time \<Rightarrow> 'c"
  fc_empty :: 'c
  fc_ttl :: duration
  fc_answer :: "'r \<Rightarrow> 'd"
  fc_default :: 'd
  fc_nil_hits :: bool

text \<open>Where the refresh is: none, waiting for Xray, its answer not yet stored, or stored.\<close>

datatype 'd flight_call = NoCall | Asking | Replied 'd | Stored

text \<open>
  Where a request is: it missed the cache, waits for the refresh, may read the cache again, or has
  its result.
\<close>

datatype 'd flight_client = MustAsk | Waiting | MayRead | Served "'d option"

record ('c, 'd) flight_sys =
  fl_cache :: 'c
  fl_now :: time
  fl_call :: "'d flight_call"
  fl_clients :: "nat \<Rightarrow> 'd flight_client option"
  fl_started :: nat

datatype 'r flight_event =
    Clock time
  | Arrive nat
  | Ask nat
  | Reply 'r
  | Store
  | Return
  | Read nat
  | Invalidate

definition fresh :: "('c, 'd, 'r) coalesced \<Rightarrow> ('c, 'd) flight_sys \<Rightarrow> bool" where
  "fresh c s = (time_sub (fl_now s) (fc_stamp c (fl_cache s)) < fc_ttl c)"

definition hits :: "('c, 'd, 'r) coalesced \<Rightarrow> ('c, 'd) flight_sys \<Rightarrow> bool" where
  "hits c s = (fresh c s \<and> (fc_nil_hits c \<or> fc_stored c (fl_cache s) \<noteq> None))"

definition put_client :: "nat \<Rightarrow> 'd flight_client \<Rightarrow> ('c, 'd) flight_sys \<Rightarrow> ('c, 'd) flight_sys" where
  "put_client r k s = s\<lparr>fl_clients := (fl_clients s)(r \<mapsto> k)\<rparr>"

text \<open>What the end of the refresh does to the requests that wait.\<close>

definition wake :: "'d flight_client \<Rightarrow> 'd flight_client" where
  "wake k = (if k = Waiting then MayRead else k)"

text \<open>The second reading: a snapshot that is not nil, else the default.\<close>

definition second_reading :: "('c, 'd, 'r) coalesced \<Rightarrow> ('c, 'd) flight_sys \<Rightarrow> 'd" where
  "second_reading c s =
     (case cache_get (fc_stored c) (fc_stamp c) (fc_ttl c) (fl_now s) (fl_cache s) of
        Some d \<Rightarrow> d
      | None \<Rightarrow> fc_default c)"

inductive flight_step ::
  "('c, 'd, 'r) coalesced \<Rightarrow> ('c, 'd) flight_sys \<Rightarrow> 'r flight_event \<Rightarrow> ('c, 'd) flight_sys \<Rightarrow> bool" for c where
  clock: "fl_now s \<le> t \<Longrightarrow> flight_step c s (Clock t) (s\<lparr>fl_now := t\<rparr>)"
| hit: "fl_clients s r = None \<Longrightarrow> hits c s \<Longrightarrow>
    flight_step c s (Arrive r) (put_client r (Served (fc_stored c (fl_cache s))) s)"
| miss: "fl_clients s r = None \<Longrightarrow> \<not> hits c s \<Longrightarrow> flight_step c s (Arrive r) (put_client r MustAsk s)"
| ask: "fl_clients s r = Some MustAsk \<Longrightarrow> fl_call s = NoCall \<Longrightarrow>
    flight_step c s (Ask r) ((put_client r Waiting s)\<lparr>fl_call := Asking, fl_started := Suc (fl_started s)\<rparr>)"
| join: "fl_clients s r = Some MustAsk \<Longrightarrow> fl_call s \<noteq> NoCall \<Longrightarrow>
    flight_step c s (Ask r) (put_client r Waiting s)"
| reply: "fl_call s = Asking \<Longrightarrow> flight_step c s (Reply res) (s\<lparr>fl_call := Replied (fc_answer c res)\<rparr>)"
| store: "fl_call s = Replied d \<Longrightarrow>
    flight_step c s Store (s\<lparr>fl_cache := fc_put c (Some d) (fl_now s), fl_call := Stored\<rparr>)"
| return: "fl_call s = Stored \<Longrightarrow>
    flight_step c s Return (s\<lparr>fl_call := NoCall, fl_clients := map_option wake \<circ> fl_clients s\<rparr>)"
| read: "fl_clients s r = Some MayRead \<Longrightarrow>
    flight_step c s (Read r) (put_client r (Served (Some (second_reading c s))) s)"
| invalidate: "flight_step c s Invalidate (s\<lparr>fl_cache := fc_empty c\<rparr>)"

inductive_cases flight_stepE:
  "flight_step c s (Clock t) s'" "flight_step c s (Arrive r) s'" "flight_step c s (Ask r) s'"
  "flight_step c s (Reply res) s'" "flight_step c s Store s'" "flight_step c s Return s'"
  "flight_step c s (Read r) s'" "flight_step c s Invalidate s'"

text \<open>An empty cache, with no refresh in flight and the clock in this era.\<close>

definition quiet :: "('c, 'd, 'r) coalesced \<Rightarrow> ('c, 'd) flight_sys \<Rightarrow> bool" where
  "quiet c s = (fl_cache s = fc_empty c \<and> fl_call s = NoCall \<and> this_era (fl_now s) \<and>
     (\<forall>r. fl_clients s r \<noteq> Some Waiting))"

lemma put_client_sel [simp]:
  "fl_cache (put_client r k s) = fl_cache s" "fl_now (put_client r k s) = fl_now s"
  "fl_call (put_client r k s) = fl_call s" "fl_started (put_client r k s) = fl_started s"
  "fl_clients (put_client r k s) = (fl_clients s)(r \<mapsto> k)"
  by (simp_all add: put_client_def)

lemma wake_served [simp]: "wake k = Served v \<longleftrightarrow> k = Served v"
  by (simp add: wake_def)

section \<open>One refresh at a time\<close>

text \<open>
  As many refreshes were started as have ended, and one more while one is in flight; and nobody
  waits without a refresh in flight.
\<close>

definition flight_inv :: "nat \<Rightarrow> 'r flight_event list \<Rightarrow> ('c, 'd) flight_sys \<Rightarrow> bool" where
  "flight_inv n es s =
     (fl_started s = n + count_list es Return + (if fl_call s = NoCall then 0 else 1) \<and>
      (\<forall>r. fl_clients s r = Some Waiting \<longrightarrow> fl_call s \<noteq> NoCall))"

lemma flight_inv_step: "flight_inv n es s \<Longrightarrow> flight_step c s e s' \<Longrightarrow> flight_inv n (es @ [e]) s'"
  by (cases e) (auto elim!: flight_stepE simp: flight_inv_def wake_def split: if_splits)

interpretation flight: labelled "flight_step c" "\<lambda>s. quiet c s \<and> fl_started s = n" "flight_inv n"
  for c :: "('c, 'd, 'r) coalesced" and n
  by unfold_locales (auto simp: flight_inv_step, simp add: flight_inv_def quiet_def)

section \<open>What requests are answered with\<close>

text \<open>The answers the replies so far allow.\<close>

definition replied_in :: "('c, 'd, 'r) coalesced \<Rightarrow> 'r flight_event list \<Rightarrow> 'd \<Rightarrow> bool" where
  "replied_in c es d = (\<exists>res. Reply res \<in> set es \<and> d = fc_answer c res)"

definition answerable :: "('c, 'd, 'r) coalesced \<Rightarrow> 'r flight_event list \<Rightarrow> 'd option \<Rightarrow> bool" where
  "answerable c es v = (v = Some (fc_default c) \<or> (\<exists>d. v = Some d \<and> replied_in c es d))"

lemma replied_snoc: "replied_in c es d \<Longrightarrow> replied_in c (es @ [e]) d"
  by (auto simp: replied_in_def)

lemma replied_now: "replied_in c (es @ [Reply res]) (fc_answer c res)"
  unfolding replied_in_def by (rule exI [of _ res]) simp

lemma answerable_snoc: "answerable c es v \<Longrightarrow> answerable c (es @ [e]) v"
  using replied_snoc [of c es _ e] by (auto simp: answerable_def)

definition answers_inv ::
  "('c, 'd, 'r) coalesced \<Rightarrow> ('c, 'd) flight_sys \<Rightarrow> 'r flight_event list \<Rightarrow> ('c, 'd) flight_sys \<Rightarrow> bool" where
  "answers_inv c s0 es s =
     (this_era (fl_now s) \<and>
      (\<forall>d. fl_call s = Replied d \<longrightarrow> replied_in c es d) \<and>
      (fl_cache s = fc_empty c \<or>
       (\<exists>d t. fl_cache s = fc_put c (Some d) t \<and> replied_in c es d \<and> t \<le> fl_now s)) \<and>
      (\<forall>r v. fl_clients s r = Some (Served v) \<longrightarrow> fl_clients s0 r = Some (Served v) \<or> answerable c es v))"

lemma answers_now:
  assumes "answers_inv c s0 es s"
  shows "this_era (fl_now s)"
    and "fl_call s = Replied d \<Longrightarrow> replied_in c (es @ [e]) d"
    and "fl_cache s = fc_empty c \<or>
       (\<exists>d t. fl_cache s = fc_put c (Some d) t \<and> replied_in c (es @ [e]) d \<and> t \<le> fl_now s)"
    and "fl_clients s r = Some (Served v) \<Longrightarrow> fl_clients s0 r = Some (Served v) \<or> answerable c (es @ [e]) v"
  using assms replied_snoc [of c es _ e] answerable_snoc [of c es _ e] unfolding answers_inv_def by blast+

lemma answers_client:
  assumes "answers_inv c s0 es s" and "\<And>v. k = Served v \<Longrightarrow> answerable c es v"
  shows "answers_inv c s0 (es @ [e]) (put_client r k s)"
  using answers_now(1) [OF assms(1)] answers_now(2-4) [OF assms(1), where e = e] assms(2)
    answerable_snoc [of c es _ e] by (simp add: answers_inv_def)

text \<open>The laws of a cache with a time stamp, for the cache of \<open>c\<close>.\<close>

locale flight_cache = ttl_cache "fc_stored c" "fc_stamp c" "fc_put c" "fc_empty c" "fc_ttl c"
  for c :: "('c, 'd, 'r) coalesced"
begin

lemma empty_stale: "this_era (fl_now s) \<Longrightarrow> fl_cache s = fc_empty c \<Longrightarrow> \<not> fresh c s"
  using ttl_max by (auto simp: fresh_def stamp_empty time_sub_def this_era_def min_duration_def)

lemma second_fresh: "second_reading c s =
    (if fresh c s then (case fc_stored c (fl_cache s) of Some d \<Rightarrow> d | None \<Rightarrow> fc_default c) else fc_default c)"
  by (simp add: second_reading_def cache_get_def fresh_def)

lemma reading_replied:
  assumes "answers_inv c s0 es s"
  shows "fresh c s \<Longrightarrow> answerable c es (fc_stored c (fl_cache s))"
    and "answerable c es (Some (second_reading c s))"
proof -
  show reading: "answerable c es (fc_stored c (fl_cache s))" if "fresh c s"
    using assms that empty_stale [of s] by (auto simp: answers_inv_def stored_put answerable_def)
  show "answerable c es (Some (second_reading c s))"
    using reading by (cases "fresh c s") (auto simp: second_fresh answerable_def split: option.splits)
qed

lemma answers_inv_step:
  assumes inv: "answers_inv c s0 es s" and step: "flight_step c s e s'"
  shows "answers_inv c s0 (es @ [e]) s'"
proof -
  note now = answers_now(1) [OF inv] answers_now(2-4) [OF inv, where e = e]
  from step show ?thesis
  proof cases
    case (clock t)
    with now show ?thesis unfolding answers_inv_def this_era_def by fastforce
  next
    case (hit r)
    then show ?thesis using reading_replied(1) [OF inv]
        answers_client [OF inv, of "Served (fc_stored c (fl_cache s))" e r] by (simp add: hits_def)
  next
    case (miss r)
    with answers_client [OF inv, of MustAsk e r] show ?thesis by simp
  next
    case (ask r)
    with answers_client [OF inv, of Waiting e r] show ?thesis by (simp add: answers_inv_def)
  next
    case (join r)
    with answers_client [OF inv, of Waiting e r] show ?thesis by simp
  next
    case (reply res)
    with now replied_now [of c es res] show ?thesis by (simp add: answers_inv_def)
  next
    case (store d)
    with now have "replied_in c (es @ [e]) d" by blast
    with store now show ?thesis by (auto simp: answers_inv_def)
  next
    case return
    with now show ?thesis by (auto simp: answers_inv_def)
  next
    case (read r)
    then show ?thesis using reading_replied(2) [OF inv]
        answers_client [OF inv, of "Served (Some (second_reading c s))" e r] by simp
  next
    case invalidate
    with now show ?thesis by (simp add: answers_inv_def)
  qed
qed

end

sublocale flight_cache \<subseteq> answers: labelled "flight_step c" "\<lambda>s. quiet c s \<and> s = s0" "answers_inv c s0" for s0
  by unfold_locales (auto simp: answers_inv_step, simp add: answers_inv_def quiet_def)

context flight_cache begin

lemma answer_current:
  assumes "quiet c s" and "runs (flight_step c) s es s'"
    and "fl_clients s' r = Some (Served v)" and "fl_clients s r \<noteq> Some (Served v)"
  shows "answerable c es v"
  using answers.inv_runs [OF assms(2), of s] assms unfolding answers_inv_def by blast

end

section \<open>Runs\<close>

text \<open>From a state with a refresh in flight, the steps that end it, and what they leave to those who wait.\<close>

definition released :: "('c, 'd) flight_sys \<Rightarrow> ('c, 'd) flight_sys \<Rightarrow> bool" where
  "released s s' = (\<forall>r. fl_clients s r = Some Waiting \<longrightarrow> fl_clients s' r = Some MayRead)"

lemma finish_stored:
  assumes "fl_call s = Stored"
  shows "\<exists>s'. runs (flight_step c) s [Return] s' \<and> released s s'"
  using runs_one [of "flight_step c", OF return [OF assms]] by (intro exI conjI) (auto simp: wake_def released_def)

lemma finish_replied:
  assumes "fl_call s = Replied d"
  shows "\<exists>s'. runs (flight_step c) s [Store, Return] s' \<and> released s s'"
proof -
  let ?s = "s\<lparr>fl_cache := fc_put c (Some d) (fl_now s), fl_call := Stored\<rparr>"
  have "fl_call ?s = Stored" by simp
  from finish_stored [OF this, of c] runs_cons [of "flight_step c", OF store [OF assms]]
  show ?thesis by (auto simp: released_def)
qed

lemma finish_asking:
  assumes "fl_call s = Asking"
  shows "\<exists>s'. runs (flight_step c) s [Reply res, Store, Return] s' \<and> released s s'"
proof -
  let ?s = "s\<lparr>fl_call := Replied (fc_answer c res)\<rparr>"
  have "fl_call ?s = Replied (fc_answer c res)" by simp
  from finish_replied [OF this, of c] runs_cons [of "flight_step c", OF reply [OF assms, of c res]]
  show ?thesis by (auto simp: released_def)
qed

lemma finish_flight:
  assumes "fl_call s \<noteq> NoCall"
  shows "\<exists>fs s'. suffix fs [Reply res, Store, Return] \<and> runs (flight_step c) s fs s' \<and> released s s'"
proof (cases "fl_call s")
  case Asking
  from finish_asking [OF this, of c res] show ?thesis by (intro exI [of _ "[Reply res, Store, Return]"]) simp
next
  case (Replied d)
  from finish_replied [OF this, of c] show ?thesis
    by (intro exI [of _ "[Store, Return]"]) (simp add: suffix_Cons)
next
  case Stored
  from finish_stored [OF this, of c] show ?thesis by (intro exI [of _ "[Return]"]) (simp add: suffix_Cons)
qed (simp add: assms)

text \<open>A request that is alone and finds the cache stale; the clock moves to \<open>t1\<close> and \<open>t2\<close>.\<close>

definition alone_events :: "nat \<Rightarrow> 'r \<Rightarrow> time \<Rightarrow> time \<Rightarrow> 'r flight_event list" where
  "alone_events r res t1 t2 = [Arrive r, Ask r, Reply res, Clock t1, Store, Return, Clock t2, Read r]"

lemma alone_run:
  assumes new: "fl_clients s r = None" and idle: "fl_call s = NoCall" and stale: "\<not> hits c s"
    and clock: "fl_now s \<le> t1" "t1 \<le> t2"
  shows "\<exists>s'. runs (flight_step c) s (alone_events r res t1 t2) s' \<and>
    fl_started s' = Suc (fl_started s) \<and> fl_cache s' = fc_put c (Some (fc_answer c res)) t1 \<and>
    fl_clients s' r = Some (Served (Some
      (case cache_get (fc_stored c) (fc_stamp c) (fc_ttl c) t2 (fc_put c (Some (fc_answer c res)) t1) of
         Some d \<Rightarrow> d | None \<Rightarrow> fc_default c)))"
proof -
  let ?d = "fc_answer c res"
  let ?a = "put_client r MustAsk s"
  let ?b = "(put_client r Waiting ?a)\<lparr>fl_call := Asking, fl_started := Suc (fl_started ?a)\<rparr>"
  let ?c = "?b\<lparr>fl_call := Replied ?d\<rparr>"
  let ?d1 = "?c\<lparr>fl_now := t1\<rparr>"
  let ?e = "?d1\<lparr>fl_cache := fc_put c (Some ?d) (fl_now ?d1), fl_call := Stored\<rparr>"
  let ?f = "?e\<lparr>fl_call := NoCall, fl_clients := map_option wake \<circ> fl_clients ?e\<rparr>"
  let ?g = "?f\<lparr>fl_now := t2\<rparr>"
  let ?h = "put_client r (Served (Some (second_reading c ?g))) ?g"
  have "flight_step c s (Arrive r) ?a" by (rule miss [OF new stale])
  moreover have "flight_step c ?a (Ask r) ?b" using idle by (intro ask) simp_all
  moreover have "flight_step c ?b (Reply res) ?c" by (rule reply) simp
  moreover have "flight_step c ?c (Clock t1) ?d1" using clock by (intro flight_step.clock) simp
  moreover have "flight_step c ?d1 Store ?e" by (rule store) simp
  moreover have "flight_step c ?e Return ?f" by (rule return) simp
  moreover have "flight_step c ?f (Clock t2) ?g" using clock by (intro flight_step.clock) simp
  moreover have "flight_step c ?g (Read r) ?h" by (rule read) (simp add: wake_def)
  ultimately have "runs (flight_step c) s (alone_events r res t1 t2) ?h"
    unfolding alone_events_def by (meson runs_cons runs_nil)
  then show ?thesis by (intro exI [of _ ?h]) (simp add: second_reading_def)
qed

section \<open>Two races\<close>

context flight_cache begin

lemma quiet_misses: "quiet c s \<Longrightarrow> \<not> hits c s"
  using empty_stale [of s] by (simp add: quiet_def hits_def)

lemma put_fresh: "fl_cache s = fc_put c v (fl_now s) \<Longrightarrow> fresh c s"
  using ttl_pos by (simp add: fresh_def stamp_put time_sub_def max_duration_def min_duration_def)

text \<open>
  A reply that came before the cache was dropped is stored after it, and answers the next request.
\<close>

lemma invalidation_overtaken:
  assumes quiet: "quiet c s" and new: "fl_clients s r = None" "fl_clients s q = None" "r \<noteq> q"
  shows "\<exists>s'. runs (flight_step c) s [Arrive r, Ask r, Reply res, Invalidate, Store, Arrive q] s' \<and>
    fl_clients s' q = Some (Served (Some (fc_answer c res)))"
proof -
  let ?d = "fc_answer c res"
  let ?a = "put_client r MustAsk s"
  let ?b = "(put_client r Waiting ?a)\<lparr>fl_call := Asking, fl_started := Suc (fl_started ?a)\<rparr>"
  let ?c = "?b\<lparr>fl_call := Replied ?d\<rparr>"
  let ?i = "?c\<lparr>fl_cache := fc_empty c\<rparr>"
  let ?e = "?i\<lparr>fl_cache := fc_put c (Some ?d) (fl_now ?i), fl_call := Stored\<rparr>"
  let ?f = "put_client q (Served (fc_stored c (fl_cache ?e))) ?e"
  have "hits c ?e" using put_fresh [of ?e "Some ?d"] by (simp add: hits_def stored_put)
  then have "flight_step c ?e (Arrive q) ?f" using new by (intro hit) simp_all
  moreover have "flight_step c s (Arrive r) ?a" by (rule miss [OF new(1) quiet_misses [OF quiet]])
  moreover have "flight_step c ?a (Ask r) ?b" using quiet by (intro ask) (simp_all add: quiet_def)
  moreover have "flight_step c ?b (Reply res) ?c" by (rule reply) simp
  moreover have "flight_step c ?c Invalidate ?i" by (rule invalidate)
  moreover have "flight_step c ?i Store ?e" by (rule store) simp
  ultimately have "runs (flight_step c) s [Arrive r, Ask r, Reply res, Invalidate, Store, Arrive q] ?f"
    by (meson runs_cons runs_nil)
  then show ?thesis by (intro exI [of _ ?f]) (simp add: stored_put)
qed

text \<open>
  A request that missed the cache before a refresh may ask after it, and starts another refresh
  while the cache is fresh.
\<close>

lemma refresh_while_fresh:
  assumes quiet: "quiet c s" and new: "fl_clients s r = None" "fl_clients s q = None" "r \<noteq> q"
  shows "\<exists>s' s''. runs (flight_step c) s [Arrive r, Arrive q, Ask r, Reply res, Store, Return] s' \<and>
    fresh c s' \<and> flight_step c s' (Ask q) s'' \<and> fl_call s'' = Asking"
proof -
  let ?d = "fc_answer c res"
  let ?a = "put_client r MustAsk s"
  let ?q = "put_client q MustAsk ?a"
  let ?b = "(put_client r Waiting ?q)\<lparr>fl_call := Asking, fl_started := Suc (fl_started ?q)\<rparr>"
  let ?c = "?b\<lparr>fl_call := Replied ?d\<rparr>"
  let ?e = "?c\<lparr>fl_cache := fc_put c (Some ?d) (fl_now ?c), fl_call := Stored\<rparr>"
  let ?f = "?e\<lparr>fl_call := NoCall, fl_clients := map_option wake \<circ> fl_clients ?e\<rparr>"
  let ?g = "(put_client q Waiting ?f)\<lparr>fl_call := Asking, fl_started := Suc (fl_started ?f)\<rparr>"
  have "quiet c ?a" using quiet by (simp add: quiet_def)
  note missed = quiet_misses [OF quiet] quiet_misses [OF this]
  have "flight_step c s (Arrive r) ?a" by (rule miss [OF new(1) missed(1)])
  moreover have "flight_step c ?a (Arrive q) ?q" using new missed(2) by (intro miss) simp_all
  moreover have "flight_step c ?q (Ask r) ?b" using quiet new by (intro ask) (simp_all add: quiet_def)
  moreover have "flight_step c ?b (Reply res) ?c" by (rule reply) simp
  moreover have "flight_step c ?c Store ?e" by (rule store) simp
  moreover have "flight_step c ?e Return ?f" by (rule return) simp
  ultimately have "runs (flight_step c) s [Arrive r, Arrive q, Ask r, Reply res, Store, Return] ?f"
    by (meson runs_cons runs_nil)
  moreover have "flight_step c ?f (Ask q) ?g" using new by (intro ask) (simp_all add: wake_def)
  moreover have "fresh c ?f" by (rule put_fresh) simp
  ultimately show ?thesis by (intro exI [of _ ?f] exI [of _ ?g]) simp
qed

end

end
