(* ===== verification/OutboundsFlight.thy ===== *)
theory OutboundsFlight
  imports Flight OutboundsProps
begin

text \<open>
  The two refreshed caches of server/handleroutbound.go as instances of \<^const>\<open>flight_step\<close>: the node
  statuses (\<open>getAllOutboundStatuses\<close>) and the excluded tags (\<open>buildExcludedTags\<close>). What requests are
  answered with under any interleaving, and the sequential functions as the runs of a lone request.
  Without an observatory client \<open>getAllOutboundStatuses\<close> returns the empty list at once, so the
  statuses are those of a server that has one; \<open>NewServer\<close> always sets it.
\<close>

section \<open>The two caches\<close>

definition obs_flight :: "(cached_observatory, out_status list, get_outbound_status_response rpc_result) coalesced" where
  "obs_flight =
     \<lparr>fc_stored = co_data, fc_stamp = co_timestamp, fc_put = put_observatory, fc_empty = zero_observatory,
      fc_ttl = observatoryCacheTTL, fc_answer = answered_statuses, fc_default = [], fc_nil_hits = True\<rparr>"

text \<open>The set the refresh stores; without a client (None) no call is made.\<close>

definition answered_tags :: "(rune \<Rightarrow> rune) \<Rightarrow> list_outbounds_response rpc_result option \<Rightarrow> tag_set" where
  "answered_tags uni_lower res =
     (case res of
        Some (Some resp, None) \<Rightarrow> excluded_of uni_lower (lo_Outbounds resp)
      | _ \<Rightarrow> [])"

definition excl_flight ::
  "(rune \<Rightarrow> rune) \<Rightarrow> (cached_excluded, tag_set, list_outbounds_response rpc_result option) coalesced" where
  "excl_flight uni_lower =
     \<lparr>fc_stored = ce_tags, fc_stamp = ce_timestamp, fc_put = put_excluded, fc_empty = zero_excluded,
      fc_ttl = observatoryCacheTTL, fc_answer = answered_tags uni_lower, fc_default = [], fc_nil_hits = False\<rparr>"

lemma obs_flight_sel [simp]:
  "fc_stored obs_flight = co_data" "fc_stamp obs_flight = co_timestamp" "fc_put obs_flight = put_observatory"
  "fc_empty obs_flight = zero_observatory" "fc_ttl obs_flight = observatoryCacheTTL"
  "fc_answer obs_flight = answered_statuses" "fc_default obs_flight = []" "fc_nil_hits obs_flight"
  by (simp_all add: obs_flight_def)

lemma excl_flight_sel [simp]:
  "fc_stored (excl_flight ul) = ce_tags" "fc_stamp (excl_flight ul) = ce_timestamp"
  "fc_put (excl_flight ul) = put_excluded" "fc_empty (excl_flight ul) = zero_excluded"
  "fc_ttl (excl_flight ul) = observatoryCacheTTL" "fc_answer (excl_flight ul) = answered_tags ul"
  "fc_default (excl_flight ul) = []" "\<not> fc_nil_hits (excl_flight ul)"
  by (simp_all add: excl_flight_def)

interpretation obs_fl: flight_cache obs_flight
  unfolding flight_cache_def obs_flight_sel by (rule obs_cache.ttl_cache_axioms)

interpretation excl_fl: flight_cache "excl_flight ul" for ul
  unfolding flight_cache_def excl_flight_sel by (rule excl_cache.ttl_cache_axioms)

section \<open>Every interleaving\<close>

text \<open>
  Refreshes never overlap: in every interleaving of requests, replies, switches and the clock,
  one refresh was started for each that ended, and one more only while one is in flight; and
  nobody waits without a refresh in flight.
\<close>

theorem refreshes_never_overlap:
  assumes "quiet c s" and "runs (flight_step c) s es s'"
  shows "fl_started s' = fl_started s + count_list es Return + (if fl_call s' = NoCall then 0 else 1) \<and>
    (\<forall>r. fl_clients s' r = Some Waiting \<longrightarrow> fl_call s' \<noteq> NoCall)"
  using flight.inv_runs [OF assms(2), of "fl_started s"] assms(1) by (simp add: flight_inv_def)

text \<open>
  C27. The node statuses are current: from a moment on at which the cache is empty (at the start, or
  after a switch) and no refresh is in flight, every list a request is answered with, in whatever
  interleaving, is empty or is what Xray replied after that moment.
\<close>

theorem statuses_current:
  assumes quiet: "quiet obs_flight s" and run: "runs (flight_step obs_flight) s es s'"
    and served: "fl_clients s' r = Some (Served v)" "fl_clients s r \<noteq> Some (Served v)"
  shows "v = Some [] \<or> (\<exists>res. Reply res \<in> set es \<and> v = Some (answered_statuses res))"
  using obs_fl.answer_current [OF assms] unfolding answerable_def replied_in_def by simp blast

text \<open>The same for the excluded tags.\<close>

lemma excluded_current:
  assumes "quiet (excl_flight ul) s" and "runs (flight_step (excl_flight ul)) s es s'"
    and "fl_clients s' r = Some (Served v)" "fl_clients s r \<noteq> Some (Served v)"
  shows "v = Some [] \<or> (\<exists>res. Reply res \<in> set es \<and> v = Some (answered_tags ul res))"
  using excl_fl.answer_current [OF assms] unfolding answerable_def replied_in_def by simp blast

text \<open>
  C35. Nobody waits for ever: in every reachable state, a request that waits is answered after the
  steps left of the refresh in flight, whatever Xray replies, and its own reading.
\<close>

theorem waiting_answered:
  assumes "quiet c s0" and "runs (flight_step c) s0 es s" and "fl_clients s r = Some Waiting"
  shows "\<forall>res. \<exists>fs s' d. suffix fs [Reply res, Store, Return] \<and> runs (flight_step c) s (fs @ [Read r]) s' \<and>
    fl_clients s' r = Some (Served (Some d))"
proof
  fix res
  have "fl_call s \<noteq> NoCall"
    using flight.inv_runs [OF assms(2), of "fl_started s0"] assms(1,3) by (auto simp: flight_inv_def)
  from finish_flight [OF this, of res c] obtain fs s' where
    fs: "suffix fs [Reply res, Store, Return]" "runs (flight_step c) s fs s'" "released s s'" by (elim exE conjE)
  then have may: "fl_clients s' r = Some MayRead" using assms(3) by (simp add: released_def)
  from runs_snoc [OF fs(2) read [OF may]] fs(1)
  show "\<exists>fs s' d. suffix fs [Reply res, Store, Return] \<and> runs (flight_step c) s (fs @ [Read r]) s' \<and>
    fl_clients s' r = Some (Served (Some d))"
    by (intro exI [of _ fs] exI [of _ "put_client r (Served (Some (second_reading c s'))) s'"]) simp
qed

section \<open>The sequential functions\<close>

text \<open>The server of the sequential model, as these systems see it before a request arrives.\<close>

definition flight_of :: "'c \<Rightarrow> 'a srv_world_scheme \<Rightarrow> ('c, 'd) flight_sys" where
  "flight_of cache w = \<lparr>fl_cache = cache, fl_now = time_now w, fl_call = NoCall, fl_clients = (\<lambda>_. None), fl_started = 0\<rparr>"

lemma flight_of_sel [simp]:
  "fl_cache (flight_of cache w) = cache" "fl_now (flight_of cache w) = time_now w"
  "fl_call (flight_of cache w) = NoCall" "fl_clients (flight_of cache w) r = None" "fl_started (flight_of cache w) = 0"
  by (simp_all add: flight_of_def)

lemma hit_run:
  fixes c :: "('c, 'd, 'r) coalesced"
  assumes "hits c (flight_of cache w)"
  shows "\<exists>es s'. runs (flight_step c) (flight_of cache w) es s' \<and>
    fl_clients s' 0 = Some (Served (fc_stored c cache)) \<and> fl_cache s' = cache \<and> fl_started s' = 0"
proof -
  let ?s = "flight_of cache w :: ('c, 'd) flight_sys"
  have "runs (flight_step c) ?s [Arrive 0] (put_client 0 (Served (fc_stored c (fl_cache ?s))) ?s)"
    by (rule runs_one, rule hit [OF _ assms]) simp
  then show ?thesis by (intro exI conjI) (assumption, simp_all)
qed

text \<open>
  C32. The sequential function implements the concurrent system: what
  \<^const>\<open>getAllOutboundStatuses\<close> returns, leaves in the cache and asks of Xray is what a run of the
  system with this one request ends in.
\<close>

theorem statuses_refine_flight:
  assumes client: "s_observatoryClient w" and wall: "wall_ok w"
  shows "\<exists>es s'. runs (flight_step obs_flight) (flight_of (s_obs w) w) es s' \<and>
    fl_clients s' 0 = Some (Served (fst (getAllOutboundStatuses w))) \<and>
    fl_cache s' = s_obs (snd (getAllOutboundStatuses w)) \<and>
    length (s_calls (snd (getAllOutboundStatuses w))) = length (s_calls w) + fl_started s'"
proof (cases "hits obs_flight (flight_of (s_obs w) w)")
  case True
  then have "time_sub (time_now w) (co_timestamp (s_obs w)) < observatoryCacheTTL"
    by (simp add: hits_def fresh_def)
  with hit_run [OF True] getAll_fresh [OF client this] show ?thesis by auto
next
  case False
  let ?res = "getOutboundStatus (s_conn w) (call_no w)"
  let ?t1 = "w_clk w (Suc (w_ticks w))" and ?t2 = "w_clk w (Suc (Suc (w_ticks w)))"
  have times: "time_now w \<le> ?t1" "?t1 \<le> ?t2" using wall by (simp_all add: wall_ok_def time_now_def)
  from False have stale: "observatoryCacheTTL \<le> time_sub (time_now w) (co_timestamp (s_obs w))"
    by (simp add: hits_def fresh_def)
  from getAll_stale [OF client stale refl refl times(2) refl] obtain w1 where w1:
    "getAllOutboundStatuses w = (Some (if ?t2 - ?t1 < observatoryCacheTTL then answered_statuses ?res else []), w1)"
    "s_calls w1 = s_calls w @ [(getOutboundStatus_name, MGetOutboundStatus)]"
    "s_obs w1 = put_observatory (Some (answered_statuses ?res)) ?t1" by blast
  from alone_run [OF _ _ False, of 0 ?t1 ?t2 ?res] times obtain s' where
    "runs (flight_step obs_flight) (flight_of (s_obs w) w) (alone_events 0 ?res ?t1 ?t2) s'" "fl_started s' = 1"
    "fl_cache s' = put_observatory (Some (answered_statuses ?res)) ?t1"
    "fl_clients s' 0 = Some (Served (Some (if ?t2 - ?t1 < observatoryCacheTTL then answered_statuses ?res else [])))"
    by (auto simp: obs_cache.get_put)
  with w1 show ?thesis by (intro exI [of _ "alone_events 0 ?res ?t1 ?t2"] exI [of _ s']) simp
qed

theorem statuses_refine_flight_witness:
  "\<exists>es s'. runs (flight_step obs_flight) (flight_of (s_obs sample_server) sample_server) es s' \<and>
    fl_clients s' 0 = Some (Served (fst (getAllOutboundStatuses sample_server))) \<and>
    fl_cache s' = s_obs (snd (getAllOutboundStatuses sample_server)) \<and>
    length (s_calls (snd (getAllOutboundStatuses sample_server))) = length (s_calls sample_server) + fl_started s'"
  by (rule statuses_refine_flight) (simp_all add: sample_server_wall)

text \<open>The excluded tags: what the refresh stores, and the sequential function.\<close>

definition tags_ok :: "'a srv_world_scheme \<Rightarrow> bool" where
  "tags_ok w = (case ce_tags (s_excl w) of None \<Rightarrow> True | Some m \<Rightarrow> gm_wf m)"

lemma answered_tags_wf: "gm_wf (answered_tags ul res)"
proof -
  have "gm_wf acc \<Longrightarrow> gm_wf (fold (\<lambda>ob excluded. if P ob then AList.update (f ob) () excluded else excluded) obs acc)"
    for P :: "outbound_handler_config \<Rightarrow> bool" and f :: "outbound_handler_config \<Rightarrow> gostring" and acc obs
    by (induction obs arbitrary: acc) (simp_all add: gm_wf_update)
  then show ?thesis by (auto simp: answered_tags_def excluded_of_def split: option.split)
qed

definition tags_reply :: "'a srv_world_scheme \<Rightarrow> list_outbounds_response rpc_result option" where
  "tags_reply w = (if s_handlerClient w then Some (listOutbounds (s_conn w) (call_no w)) else None)"

lemma excludedSnapshot_get:
  "tags_ok w \<Longrightarrow> excludedTagsSnapshot w =
     (cache_get ce_tags ce_timestamp observatoryCacheTTL (time_now w) (s_excl w), tick w)"
  by (simp add: excludedTagsSnapshot_def cache_get_def tags_ok_def cloneMap_id)

lemma refresh_excluded_sel:
  "s_excl (refresh_excluded ul w) = put_excluded (Some (answered_tags ul (tags_reply w))) (time_now w)"
  "w_clk (refresh_excluded ul w) = w_clk w" "w_ticks (refresh_excluded ul w) = Suc (w_ticks w)"
  "length (s_calls (refresh_excluded ul w)) = length (s_calls w) + (if s_handlerClient w then 1 else 0)"
proof -
  have clone: "cloneMap (Some (answered_tags ul (tags_reply w))) = Some (answered_tags ul (tags_reply w))"
    using answered_tags_wf by (intro cloneMap_id) simp
  obtain resp err where res: "listOutbounds (s_conn w) (call_no w) = (resp, err)" by fastforce
  show "s_excl (refresh_excluded ul w) = put_excluded (Some (answered_tags ul (tags_reply w))) (time_now w)"
    using clone by (cases resp; cases err)
      (auto simp: refresh_excluded_def updateExcludedTagsCache_def answered_tags_def tags_reply_def put_excluded_def
        time_now_def Let_def res)
  show "w_clk (refresh_excluded ul w) = w_clk w" "w_ticks (refresh_excluded ul w) = Suc (w_ticks w)"
    "length (s_calls (refresh_excluded ul w)) = length (s_calls w) + (if s_handlerClient w then 1 else 0)"
    by (cases resp; cases err; auto simp: refresh_excluded_def updateExcludedTagsCache_def Let_def res)+
qed

text \<open>
  Also \<^const>\<open>buildExcludedTags\<close> implements the concurrent system: the set it returns, leaves in
  the cache and asks for is what the run of a lone request ends in.
\<close>

theorem excluded_refine_flight:
  assumes ok: "tags_ok w" and wall: "wall_ok w"
  shows "\<exists>es s'. runs (flight_step (excl_flight ul)) (flight_of (s_excl w) w) es s' \<and>
    fl_clients s' 0 = Some (Served (Some (fst (buildExcludedTags ul w)))) \<and>
    fl_cache s' = s_excl (snd (buildExcludedTags ul w)) \<and>
    length (s_calls (snd (buildExcludedTags ul w))) =
      length (s_calls w) + (if s_handlerClient w then fl_started s' else 0)"
proof (cases "hits (excl_flight ul) (flight_of (s_excl w) w)")
  case True
  then obtain m where "ce_tags (s_excl w) = Some m"
    and "time_sub (time_now w) (ce_timestamp (s_excl w)) < observatoryCacheTTL" by (auto simp: hits_def fresh_def)
  with ok have "buildExcludedTags ul w = (m, tick w)"
    by (simp add: buildExcludedTags_def excludedSnapshot_get cache_get_def)
  with hit_run [OF True] \<open>ce_tags (s_excl w) = Some m\<close> show ?thesis by auto
next
  case False
  let ?t1 = "w_clk w (Suc (w_ticks w))" and ?t2 = "w_clk w (Suc (Suc (w_ticks w)))"
  let ?v = "refresh_excluded ul (tick w)"
  let ?tags = "answered_tags ul (tags_reply w)"
  let ?got = "cache_get ce_tags ce_timestamp observatoryCacheTTL ?t2 (put_excluded (Some ?tags) ?t1)"
  have times: "time_now w \<le> ?t1" "?t1 \<le> ?t2" using wall by (simp_all add: wall_ok_def time_now_def)
  have miss: "cache_get ce_tags ce_timestamp observatoryCacheTTL (time_now w) (s_excl w) = None"
    using False by (simp add: hits_def fresh_def cache_get_def)
  have reply: "tags_reply (tick w) = tags_reply w" by (simp add: tags_reply_def)
  have v: "s_excl ?v = put_excluded (Some ?tags) ?t1" "time_now ?v = ?t2"
    "length (s_calls ?v) = length (s_calls w) + (if s_handlerClient w then 1 else 0)"
    by (simp_all add: refresh_excluded_sel reply time_now_def)
  have "tags_ok ?v" using answered_tags_wf by (simp add: tags_ok_def v put_excluded_def)
  then have seq: "buildExcludedTags ul w = (case ?got of Some d \<Rightarrow> d | None \<Rightarrow> [], tick ?v)"
    using ok miss by (simp add: buildExcludedTags_def excludedSnapshot_get v split: option.split)
  from alone_run [OF _ _ False, of 0 ?t1 ?t2 "tags_reply w", unfolded excl_flight_sel] times obtain s' where
    "runs (flight_step (excl_flight ul)) (flight_of (s_excl w) w) (alone_events 0 (tags_reply w) ?t1 ?t2) s'"
    "fl_started s' = 1" "fl_cache s' = put_excluded (Some ?tags) ?t1"
    "fl_clients s' 0 = Some (Served (Some (case ?got of Some d \<Rightarrow> d | None \<Rightarrow> [])))" by auto
  with seq v show ?thesis
    by (intro exI [of _ "alone_events 0 (tags_reply w) ?t1 ?t2"] exI [of _ s']) simp
qed

theorem excluded_refine_flight_witness:
  "\<exists>es s'. runs (flight_step (excl_flight id)) (flight_of (s_excl sample_server) sample_server) es s' \<and>
    fl_clients s' 0 = Some (Served (Some (fst (buildExcludedTags id sample_server)))) \<and>
    fl_cache s' = s_excl (snd (buildExcludedTags id sample_server)) \<and>
    length (s_calls (snd (buildExcludedTags id sample_server))) =
      length (s_calls sample_server) + (if s_handlerClient sample_server then fl_started s' else 0)"
  by (rule excluded_refine_flight) (simp_all add: sample_server_wall tags_ok_def zero_excluded_def)

section \<open>Witnesses and races\<close>

definition quiet_sys :: "(cached_observatory, out_status list) flight_sys" where
  "quiet_sys = flight_of zero_observatory sample_server"

lemma quiet_sys_ok: "quiet obs_flight quiet_sys"
  and quiet_sys_new: "fl_clients quiet_sys r = None"
  by (simp_all add: quiet_sys_def quiet_def time_now_def this_era_def max_duration_def)

definition lost_call :: "get_outbound_status_response rpc_result" where
  "lost_call = (None, Some RpcFailed)"

text \<open>
  Without the assumption that no refresh is in flight the statuses need not be current: Xray's
  reply may come before a switch drops the cache and be stored after it, and the next request is
  answered with it.
\<close>

theorem switch_overtaken:
  assumes "quiet obs_flight s" and "fl_clients s r = None" and "fl_clients s q = None" and "r \<noteq> q"
  shows "\<exists>s'. runs (flight_step obs_flight) s [Arrive r, Ask r, Reply res, Invalidate, Store, Arrive q] s' \<and>
    fl_clients s' q = Some (Served (Some (answered_statuses res)))"
  using obs_fl.invalidation_overtaken [OF assms, of res] by simp

theorem switch_overtaken_witness:
  "\<exists>s'. runs (flight_step obs_flight) quiet_sys [Arrive 0, Ask 0, Reply lost_call, Invalidate, Store, Arrive 1] s' \<and>
    fl_clients s' 1 = Some (Served (Some (answered_statuses lost_call)))"
  by (rule switch_overtaken [OF quiet_sys_ok]) (simp_all add: quiet_sys_new)

theorem statuses_current_witness:
  "\<exists>s v. runs (flight_step obs_flight) quiet_sys (alone_events 0 lost_call (2 ^ 63) (2 ^ 63)) s \<and>
     fl_clients s 0 = Some (Served v) \<and>
     (v = Some [] \<or> (\<exists>res. Reply res \<in> set (alone_events 0 lost_call (2 ^ 63) (2 ^ 63)) \<and> v = Some (answered_statuses res)))"
proof -
  have "fl_call quiet_sys = NoCall" "fl_now quiet_sys \<le> 2 ^ 63" by (simp_all add: quiet_sys_def time_now_def)
  from alone_run [OF quiet_sys_new this(1) obs_fl.quiet_misses [OF quiet_sys_ok] this(2) order_refl, of 0 lost_call]
  obtain s v where run: "runs (flight_step obs_flight) quiet_sys (alone_events 0 lost_call (2 ^ 63) (2 ^ 63)) s"
    and served: "fl_clients s 0 = Some (Served v)" by blast
  have "fl_clients quiet_sys 0 \<noteq> Some (Served v)" by (simp add: quiet_sys_new)
  from statuses_current [OF quiet_sys_ok run served this] run served show ?thesis by blast
qed

text \<open>A request that found the cache empty and waits for its own refresh.\<close>

lemma one_waits:
  "\<exists>s. runs (flight_step obs_flight) quiet_sys [Arrive 0, Ask 0] s \<and> fl_clients s 0 = Some Waiting"
proof -
  let ?a = "put_client 0 MustAsk quiet_sys"
  have "flight_step obs_flight quiet_sys (Arrive 0) ?a"
    by (rule miss [OF quiet_sys_new obs_fl.quiet_misses [OF quiet_sys_ok]])
  moreover have "flight_step obs_flight ?a (Ask 0) ((put_client 0 Waiting ?a)\<lparr>fl_call := Asking, fl_started := Suc (fl_started ?a)\<rparr>)"
    by (rule ask) (simp_all add: quiet_sys_def)
  ultimately show ?thesis by (intro exI conjI) (rule runs_cons, assumption, erule runs_one, simp)
qed

theorem refreshes_never_overlap_witness:
  "\<exists>s. runs (flight_step obs_flight) quiet_sys [Arrive 0, Ask 0] s \<and>
     fl_started s = fl_started quiet_sys + count_list [Arrive 0, Ask 0 :: get_outbound_status_response rpc_result flight_event] Return +
       (if fl_call s = NoCall then 0 else 1) \<and>
     (\<forall>r. fl_clients s r = Some Waiting \<longrightarrow> fl_call s \<noteq> NoCall)"
  using one_waits refreshes_never_overlap [OF quiet_sys_ok] by blast

theorem waiting_answered_witness:
  "\<exists>s. runs (flight_step obs_flight) quiet_sys [Arrive 0, Ask 0] s \<and>
     (\<forall>res. \<exists>fs s' d. suffix fs [Reply res, Store, Return] \<and> runs (flight_step obs_flight) s (fs @ [Read 0]) s' \<and>
       fl_clients s' 0 = Some (Served (Some d)))"
  using one_waits waiting_answered [OF quiet_sys_ok] by blast

text \<open>A refresh may start while the cache is fresh.\<close>

lemma redundant_refresh:
  "\<exists>s' s''. runs (flight_step obs_flight) quiet_sys [Arrive 0, Arrive 1, Ask 0, Reply res, Store, Return] s' \<and>
    fresh obs_flight s' \<and> flight_step obs_flight s' (Ask 1) s'' \<and> fl_call s'' = Asking"
  by (rule obs_fl.refresh_while_fresh [OF quiet_sys_ok]) (simp_all add: quiet_sys_new)

end
