(* ===== verification/HealthFlight.thy ===== *)
theory HealthFlight
  imports Health
begin

text \<open>
  \<open>handleHealthCheck\<close> of server/handlerhealth.go under concurrent requests. A request that finds the
  cache expired joins the group; the function of the group reads the cache again and asks Xray only
  if it is still expired; the result goes to every request that waits, and each of them stores it
  in the cache by itself. A switch drops the cache at any point.
\<close>

section \<open>The system\<close>

text \<open>The status and the error the function of the group returns for a reply.\<close>

definition probe_result :: "sys_stats_response rpc_result \<Rightarrow> gostring \<times> rpc_error option" where
  "probe_result res =
     (case res of
        (_, Some e) \<Rightarrow> (''disconnected'', Some e)
      | (_, None) \<Rightarrow> (''connected'', None))"

text \<open>Where the function of the group is.\<close>

datatype health_call = NoProbe | Rereading | Probing | Finished "gostring \<times> rpc_error option"

text \<open>Where a request is: it missed the cache, waits in the group, has a result to store, or is answered.\<close>

datatype health_client = MustProbe | InGroup | Storing "gostring \<times> rpc_error option" | Reported gostring

record health_sys =
  hs_cache :: cached_health
  hs_now :: time
  hs_call :: health_call
  hs_clients :: "nat \<Rightarrow> health_client option"
  hs_probes :: nat

datatype health_event =
    HClock time
  | HArrive nat
  | HAsk nat
  | HReuse
  | HProbe
  | HReply "sys_stats_response rpc_result"
  | HReturn
  | HStore nat
  | HInvalidate

definition put_check :: "nat \<Rightarrow> health_client \<Rightarrow> health_sys \<Rightarrow> health_sys" where
  "put_check r k s = s\<lparr>hs_clients := (hs_clients s)(r \<mapsto> k)\<rparr>"

definition share :: "gostring \<times> rpc_error option \<Rightarrow> health_client \<Rightarrow> health_client" where
  "share x k = (if k = InGroup then Storing x else k)"

definition stored_health :: "gostring \<times> rpc_error option \<Rightarrow> time \<Rightarrow> cached_health" where
  "stored_health x now =
     \<lparr>ch_status = fst x, ch_timestamp = now, ch_stale = False,
      ch_ttl = (case snd x of None \<Rightarrow> healthCacheTTL | Some _ \<Rightarrow> healthCacheFailTTL)\<rparr>"

abbreviation cache_expired :: "health_sys \<Rightarrow> bool" where
  "cache_expired s \<equiv> health_expired (hs_cache s) (hs_now s)"

inductive health_step :: "health_sys \<Rightarrow> health_event \<Rightarrow> health_sys \<Rightarrow> bool" where
  clock: "hs_now s \<le> t \<Longrightarrow> health_step s (HClock t) (s\<lparr>hs_now := t\<rparr>)"
| hit: "hs_clients s r = None \<Longrightarrow> \<not> cache_expired s \<Longrightarrow>
    health_step s (HArrive r) (put_check r (Reported (ch_status (hs_cache s))) s)"
| miss: "hs_clients s r = None \<Longrightarrow> cache_expired s \<Longrightarrow> health_step s (HArrive r) (put_check r MustProbe s)"
| ask: "hs_clients s r = Some MustProbe \<Longrightarrow> hs_call s = NoProbe \<Longrightarrow>
    health_step s (HAsk r) ((put_check r InGroup s)\<lparr>hs_call := Rereading\<rparr>)"
| join: "hs_clients s r = Some MustProbe \<Longrightarrow> hs_call s \<noteq> NoProbe \<Longrightarrow>
    health_step s (HAsk r) (put_check r InGroup s)"
| reuse: "hs_call s = Rereading \<Longrightarrow> \<not> cache_expired s \<Longrightarrow>
    health_step s HReuse (s\<lparr>hs_call := Finished (ch_status (hs_cache s), None)\<rparr>)"
| probe: "hs_call s = Rereading \<Longrightarrow> cache_expired s \<Longrightarrow>
    health_step s HProbe (s\<lparr>hs_call := Probing, hs_probes := Suc (hs_probes s)\<rparr>)"
| reply: "hs_call s = Probing \<Longrightarrow> health_step s (HReply res) (s\<lparr>hs_call := Finished (probe_result res)\<rparr>)"
| return: "hs_call s = Finished x \<Longrightarrow>
    health_step s HReturn (s\<lparr>hs_call := NoProbe, hs_clients := map_option (share x) \<circ> hs_clients s\<rparr>)"
| store: "hs_clients s r = Some (Storing x) \<Longrightarrow>
    health_step s (HStore r) ((put_check r (Reported (fst x)) s)\<lparr>hs_cache := stored_health x (hs_now s)\<rparr>)"
| invalidate: "health_step s HInvalidate (s\<lparr>hs_cache := zero_health\<lparr>ch_stale := True\<rparr>\<rparr>)"

lemma put_check_sel [simp]:
  "hs_cache (put_check r k s) = hs_cache s" "hs_now (put_check r k s) = hs_now s"
  "hs_call (put_check r k s) = hs_call s" "hs_probes (put_check r k s) = hs_probes s"
  "hs_clients (put_check r k s) = (hs_clients s)(r \<mapsto> k)"
  by (simp_all add: put_check_def)

lemma share_reported [simp]: "share x k = Reported st \<longleftrightarrow> k = Reported st"
  by (simp add: share_def)

lemma stored_health_sel [simp]:
  "ch_status (stored_health x t) = fst x" "ch_timestamp (stored_health x t) = t" "\<not> ch_stale (stored_health x t)"
  by (simp_all add: stored_health_def)

lemma healthCacheTTLs: "0 < healthCacheFailTTL" "healthCacheFailTTL \<le> healthCacheTTL" "healthCacheTTL \<le> max_duration"
  by (simp_all add: healthCacheFailTTL_def healthCacheTTL_def second_def max_duration_def)

text \<open>An entry is fresh for at least the shorter time to live.\<close>

lemma stored_fresh:
  "t \<le> now \<Longrightarrow> now - t \<le> healthCacheFailTTL \<Longrightarrow> \<not> health_expired (stored_health x t) now"
  using healthCacheTTLs
  by (auto simp: health_expired_def stored_health_def time_sub_def min_duration_def max_duration_def split: option.split)

text \<open>
  A cache that was never written, or was dropped, with no request on its way through the group and
  the clock in this era.
\<close>

definition health_quiet :: "health_sys \<Rightarrow> bool" where
  "health_quiet s =
     ((hs_cache s = zero_health \<or> ch_stale (hs_cache s)) \<and> hs_call s = NoProbe \<and> this_era (hs_now s) \<and>
      (\<forall>r x. hs_clients s r \<noteq> Some InGroup \<and> hs_clients s r \<noteq> Some (Storing x)))"

lemma empty_expired: "this_era now \<Longrightarrow> c = zero_health \<or> ch_stale c \<Longrightarrow> health_expired c now"
  by (auto simp: health_expired_def zero_health_def this_era_def time_sub_def min_duration_def max_duration_def)

section \<open>What a check reports\<close>

definition told :: "health_event list \<Rightarrow> gostring \<Rightarrow> bool" where
  "told es st = (\<exists>res. HReply res \<in> set es \<and> st = fst (probe_result res))"

definition health_inv :: "health_sys \<Rightarrow> health_event list \<Rightarrow> health_sys \<Rightarrow> bool" where
  "health_inv s0 es s =
     (this_era (hs_now s) \<and>
      (hs_cache s = zero_health \<or> ch_stale (hs_cache s) \<or> told es (ch_status (hs_cache s))) \<and>
      (\<forall>x. hs_call s = Finished x \<longrightarrow> told es (fst x)) \<and>
      (\<forall>r x. hs_clients s r = Some (Storing x) \<longrightarrow> told es (fst x)) \<and>
      (\<forall>r st. hs_clients s r = Some (Reported st) \<longrightarrow> hs_clients s0 r = Some (Reported st) \<or> told es st))"

lemma told_snoc: "told es st \<Longrightarrow> told (es @ [e]) st"
  by (auto simp: told_def)

lemma told_now: "told (es @ [HReply res]) (fst (probe_result res))"
  unfolding told_def by (rule exI [of _ res]) simp

lemma health_inv_later: "health_inv s0 es s \<Longrightarrow> health_inv s0 (es @ [e]) s"
  unfolding health_inv_def using told_snoc [of es _ e] by blast

lemma health_inv_client:
  assumes "health_inv s0 es s" and "\<And>x. k = Storing x \<Longrightarrow> told es (fst x)" and "\<And>st. k = Reported st \<Longrightarrow> told es st"
  shows "health_inv s0 es (put_check r k s)"
  using assms by (cases k) (auto simp: health_inv_def)

lemma fresh_told:
  assumes "health_inv s0 es s" and "\<not> cache_expired s"
  shows "told es (ch_status (hs_cache s))"
  using assms empty_expired [of "hs_now s" "hs_cache s"] by (auto simp: health_inv_def)

lemma health_inv_step:
  assumes inv0: "health_inv s0 es s" and step: "health_step s e s'"
  shows "health_inv s0 (es @ [e]) s'"
proof -
  note inv = health_inv_later [OF inv0, of e]
  from step show ?thesis
  proof cases
    case (clock t)
    with inv show ?thesis by (simp add: health_inv_def this_era_def)
  next
    case (hit r)
    with fresh_told [OF inv] show ?thesis by (auto intro: health_inv_client [OF inv, unfolded hit])
  next
    case (miss r)
    then show ?thesis by (auto intro: health_inv_client [OF inv, unfolded miss])
  next
    case (ask r)
    have "health_inv s0 (es @ [e]) (put_check r InGroup s)" by (intro health_inv_client [OF inv]) simp_all
    with ask(2) show ?thesis by (simp add: health_inv_def)
  next
    case (join r)
    then show ?thesis by (auto intro: health_inv_client [OF inv, unfolded join])
  next
    case reuse
    with inv fresh_told [OF inv] show ?thesis by (simp add: health_inv_def)
  next
    case probe
    with inv show ?thesis by (simp add: health_inv_def)
  next
    case (reply res)
    with inv told_now [of es res] show ?thesis by (simp add: health_inv_def)
  next
    case (return x)
    with inv have "told (es @ [e]) (fst x)" unfolding health_inv_def by blast
    with return inv show ?thesis by (auto simp: health_inv_def share_def split: if_splits)
  next
    case (store r x)
    with inv have x: "told (es @ [e]) (fst x)" unfolding health_inv_def by blast
    then have "health_inv s0 (es @ [e]) (put_check r (Reported (fst x)) s)"
      by (intro health_inv_client [OF inv]) simp_all
    with x store(2) show ?thesis by (simp add: health_inv_def)
  next
    case invalidate
    with inv show ?thesis by (simp add: health_inv_def)
  qed
qed

interpretation health: labelled health_step "\<lambda>s. health_quiet s \<and> s = s0" "health_inv s0" for s0
  by unfold_locales (auto simp: health_inv_step, auto simp: health_inv_def health_quiet_def)

text \<open>
  C29. A health check reports the truth, if an old one: in every interleaving of checks, switches,
  probes and the clock, from a moment on at which the cache is empty and nobody is in the group,
  a check reports "connected" only if Xray answered a probe since, and "disconnected" only if a
  probe failed since.
\<close>

theorem health_reports_probes:
  assumes quiet: "health_quiet s" and run: "runs health_step s es s'"
    and reported: "hs_clients s' r = Some (Reported st)" "hs_clients s r \<noteq> Some (Reported st)"
  shows "\<exists>resp err. HReply (resp, err) \<in> set es \<and> st = (if err = None then ''connected'' else ''disconnected'')"
proof -
  have "health_inv s es s'" using health.inv_runs [OF run, of s] quiet by blast
  with reported have "told es st" unfolding health_inv_def by blast
  then obtain res where "HReply res \<in> set es" "st = fst (probe_result res)" unfolding told_def by blast
  then show ?thesis by (cases res; cases "snd res") (auto simp: probe_result_def)
qed

section \<open>Runs\<close>

text \<open>What a run leaves to the requests that have not joined the group.\<close>

definition others_kept :: "nat \<Rightarrow> health_sys \<Rightarrow> health_sys \<Rightarrow> bool" where
  "others_kept r s s' = (\<forall>q k. q \<noteq> r \<longrightarrow> hs_clients s q = k \<longrightarrow> k \<in> {None, Some MustProbe} \<longrightarrow> hs_clients s' q = k)"

lemma probing_run:
  assumes must: "hs_clients s r = Some MustProbe" and idle: "hs_call s = NoProbe" and expired: "cache_expired s"
    and clock: "hs_now s \<le> t"
  shows "\<exists>s'. runs health_step s [HAsk r, HProbe, HReply res, HReturn, HClock t, HStore r] s' \<and> hs_now s' = t \<and>
    hs_call s' = NoProbe \<and> hs_probes s' = Suc (hs_probes s) \<and> hs_cache s' = stored_health (probe_result res) t \<and>
    hs_clients s' r = Some (Reported (fst (probe_result res))) \<and> others_kept r s s'"
proof -
  let ?x = "probe_result res"
  let ?a = "(put_check r InGroup s)\<lparr>hs_call := Rereading\<rparr>"
  let ?b = "?a\<lparr>hs_call := Probing, hs_probes := Suc (hs_probes ?a)\<rparr>"
  let ?c = "?b\<lparr>hs_call := Finished ?x\<rparr>"
  let ?d = "?c\<lparr>hs_call := NoProbe, hs_clients := map_option (share ?x) \<circ> hs_clients ?c\<rparr>"
  let ?e = "?d\<lparr>hs_now := t\<rparr>"
  let ?f = "(put_check r (Reported (fst ?x)) ?e)\<lparr>hs_cache := stored_health ?x (hs_now ?e)\<rparr>"
  have "health_step s (HAsk r) ?a" by (rule ask [OF must idle])
  moreover have "health_step ?a HProbe ?b" using expired by (intro probe) simp_all
  moreover have "health_step ?b (HReply res) ?c" by (rule reply) simp
  moreover have "health_step ?c HReturn ?d" by (rule return) simp
  moreover have "health_step ?d (HClock t) ?e" using clock by (intro health_step.clock) simp
  moreover have "health_step ?e (HStore r) ?f" by (rule store) (simp add: share_def)
  ultimately have "runs health_step s [HAsk r, HProbe, HReply res, HReturn, HClock t, HStore r] ?f"
    by (meson runs_cons runs_nil)
  then show ?thesis by (intro exI [of _ ?f]) (auto simp: others_kept_def share_def)
qed

text \<open>A request that missed the cache joins the group after another has stored, and stores the entry anew.\<close>

lemma renewing_run:
  assumes must: "hs_clients s r = Some MustProbe" and idle: "hs_call s = NoProbe"
    and stored: "hs_cache s = stored_health x (hs_now s)"
  shows "\<exists>es s'. runs health_step s es s' \<and> hs_now s' = hs_now s + healthCacheFailTTL \<and>
    hs_call s' = NoProbe \<and> hs_probes s' = hs_probes s \<and> hs_cache s' = stored_health (fst x, None) (hs_now s') \<and>
    others_kept r s s'"
proof -
  let ?t = "hs_now s + healthCacheFailTTL"
  let ?x = "(fst x, None :: rpc_error option)"
  let ?a = "s\<lparr>hs_now := ?t\<rparr>"
  let ?b = "(put_check r InGroup ?a)\<lparr>hs_call := Rereading\<rparr>"
  let ?c = "?b\<lparr>hs_call := Finished (ch_status (hs_cache ?b), None)\<rparr>"
  let ?d = "?c\<lparr>hs_call := NoProbe, hs_clients := map_option (share ?x) \<circ> hs_clients ?c\<rparr>"
  let ?e = "(put_check r (Reported (fst ?x)) ?d)\<lparr>hs_cache := stored_health ?x (hs_now ?d)\<rparr>"
  have fresh: "\<not> cache_expired ?b" using stored_fresh [of "hs_now s" ?t x] healthCacheTTLs by (simp add: stored)
  have "health_step s (HClock ?t) ?a" using healthCacheTTLs by (intro clock) simp
  moreover have "health_step ?a (HAsk r) ?b" using must idle by (intro ask) simp_all
  moreover have "health_step ?b HReuse ?c" using fresh by (intro reuse) simp_all
  moreover have "health_step ?c HReturn ?d" by (rule return) (simp add: stored)
  moreover have "health_step ?d (HStore r) ?e" by (rule store) (simp add: share_def)
  ultimately have "runs health_step s [HClock ?t, HAsk r, HReuse, HReturn, HStore r] ?e"
    by (meson runs_cons runs_nil)
  then show ?thesis by (intro exI conjI) (assumption, auto simp: others_kept_def share_def)
qed

lemma arrivals_run:
  assumes new: "\<forall>r. hs_clients s r = None" and expired: "cache_expired s"
  shows "\<exists>s'. runs health_step s (map HArrive [0..<n]) s' \<and> hs_cache s' = hs_cache s \<and> hs_now s' = hs_now s \<and>
    hs_call s' = hs_call s \<and> hs_probes s' = hs_probes s \<and>
    (\<forall>r. hs_clients s' r = (if r < n then Some MustProbe else None))"
proof (induction n)
  case 0
  show ?case using new by (intro exI [of _ s]) (simp add: runs_nil)
next
  case (Suc n)
  then obtain s' where s': "runs health_step s (map HArrive [0..<n]) s'" "hs_cache s' = hs_cache s" "hs_now s' = hs_now s"
    "hs_call s' = hs_call s" "hs_probes s' = hs_probes s" "\<forall>r. hs_clients s' r = (if r < n then Some MustProbe else None)"
    by blast
  have "health_step s' (HArrive n) (put_check n MustProbe s')" using s' expired by (intro miss) simp_all
  from runs_snoc [OF s'(1) this] s' show ?case
    by (intro exI [of _ "put_check n MustProbe s'"]) auto
qed

lemma renewals_run:
  assumes "hs_call s = NoProbe" and "hs_cache s = stored_health x (hs_now s)"
    and "\<forall>r<n. hs_clients s r = Some MustProbe" and "hs_clients s z = None" and "n \<le> z"
  shows "\<exists>es s'. runs health_step s es s' \<and> hs_now s' = hs_now s + int n * healthCacheFailTTL \<and>
    hs_probes s' = hs_probes s \<and> hs_clients s' z = None \<and> ch_status (hs_cache s') = fst x \<and> \<not> cache_expired s'"
  using assms
proof (induction n arbitrary: s x)
  case 0
  have "\<not> cache_expired s" using stored_fresh [of "hs_now s" "hs_now s" x] healthCacheTTLs 0 by simp
  then show ?case using 0 by (intro exI [of _ "[]"] exI [of _ s]) (simp add: runs_nil)
next
  case (Suc n)
  have "hs_clients s n = Some MustProbe" using Suc.prems(3) by simp
  from renewing_run [OF this Suc.prems(1,2)] obtain es s1 where s1: "runs health_step s es s1"
    "hs_now s1 = hs_now s + healthCacheFailTTL" "hs_call s1 = NoProbe" "hs_probes s1 = hs_probes s"
    "hs_cache s1 = stored_health (fst x, None) (hs_now s1)" "others_kept n s s1" by blast
  have "\<forall>r<n. hs_clients s1 r = Some MustProbe" "hs_clients s1 z = None"
    using s1(6) Suc.prems(3-5) by (auto simp: others_kept_def)
  with Suc.IH [OF s1(3,5)] Suc.prems(5) obtain fs s' where s': "runs health_step s1 fs s'"
    "hs_now s' = hs_now s1 + int n * healthCacheFailTTL" "hs_probes s' = hs_probes s1" "hs_clients s' z = None"
    "ch_status (hs_cache s') = fst x" "\<not> cache_expired s'" by auto
  show ?case using runs_append [OF s'(1) s1(1)] s' s1(2,4)
    by (intro exI [of _ "es @ fs"] exI [of _ s']) (simp add: algebra_simps)
qed

text \<open>
  C40. A status can be reported however old it is: requests that missed the cache, but enter the group
  one after the other, each take the entry over and store it with a new time stamp. For every
  \<open>n\<close> there is a run with a single probe at the end of which, \<open>n\<close> times three seconds later, a
  request that just arrives is told the status of that probe.
\<close>

theorem health_status_arbitrarily_old:
  assumes quiet: "health_quiet s" and new: "\<forall>r. hs_clients s r = None"
  shows "\<exists>es s' r. runs health_step s (es @ [HArrive r]) s' \<and> hs_probes s' = Suc (hs_probes s) \<and>
    hs_now s' = hs_now s + int n * healthCacheFailTTL \<and> hs_clients s' r = Some (Reported (fst (probe_result res)))"
proof -
  have idle: "hs_call s = NoProbe" and expired: "cache_expired s"
    using quiet empty_expired by (simp_all add: health_quiet_def)
  from arrivals_run [OF new expired, of "Suc n"] obtain s1 where s1: "runs health_step s (map HArrive [0..<Suc n]) s1"
    "hs_cache s1 = hs_cache s" "hs_now s1 = hs_now s" "hs_call s1 = NoProbe" "hs_probes s1 = hs_probes s"
    "\<forall>r. hs_clients s1 r = (if r < Suc n then Some MustProbe else None)" using idle by auto
  from probing_run [of s1 n "hs_now s1" res] s1 expired obtain s2 where s2:
    "runs health_step s1 [HAsk n, HProbe, HReply res, HReturn, HClock (hs_now s1), HStore n] s2" "hs_now s2 = hs_now s"
    "hs_call s2 = NoProbe" "hs_probes s2 = Suc (hs_probes s)" "hs_cache s2 = stored_health (probe_result res) (hs_now s2)"
    "others_kept n s1 s2" by auto
  have "\<forall>r<n. hs_clients s2 r = Some MustProbe" "hs_clients s2 (Suc n) = None"
    using s2(6) s1(6) by (auto simp: others_kept_def)
  from renewals_run [OF s2(3,5) this] obtain fs s3 where s3: "runs health_step s2 fs s3"
    "hs_now s3 = hs_now s2 + int n * healthCacheFailTTL" "hs_probes s3 = hs_probes s2" "hs_clients s3 (Suc n) = None"
    "ch_status (hs_cache s3) = fst (probe_result res)" "\<not> cache_expired s3" by auto
  note run = runs_append [OF runs_append [OF s3(1) s2(1)] s1(1)]
  from runs_snoc [OF run hit [OF s3(4,6)]] s3 s2(2,4) show ?thesis
    by (intro exI [of _ "map HArrive [0..<Suc n] @ [HAsk n, HProbe, HReply res, HReturn, HClock (hs_now s1), HStore n] @ fs"]
        exI [of _ "put_check (Suc n) (Reported (ch_status (hs_cache s3))) s3"] exI [of _ "Suc n"]) simp
qed

text \<open>The server of the sequential model, as this system sees it before a check.\<close>

definition health_of :: "'a srv_world_scheme \<Rightarrow> health_sys" where
  "health_of w = \<lparr>hs_cache = s_health w, hs_now = time_now w, hs_call = NoProbe, hs_clients = (\<lambda>_. None), hs_probes = 0\<rparr>"

lemma health_of_sel [simp]:
  "hs_cache (health_of w) = s_health w" "hs_now (health_of w) = time_now w" "hs_call (health_of w) = NoProbe"
  "hs_clients (health_of w) r = None" "hs_probes (health_of w) = 0"
  by (simp_all add: health_of_def)

definition sample_health :: health_sys where
  "sample_health = health_of sample_server"

lemma sample_health_quiet: "health_quiet sample_health"
  by (simp add: sample_health_def health_quiet_def time_now_def this_era_def max_duration_def)

lemma sample_health_sel [simp]: "hs_clients sample_health r = None" "hs_probes sample_health = 0"
  by (simp_all add: sample_health_def)

theorem health_status_arbitrarily_old_witness:
  "\<exists>es s' r. runs health_step sample_health (es @ [HArrive r]) s' \<and> hs_probes s' = Suc (hs_probes sample_health) \<and>
    hs_now s' = hs_now sample_health + int 100000 * healthCacheFailTTL \<and>
    hs_clients s' r = Some (Reported (fst (probe_result (None, Some RpcFailed))))"
  by (rule health_status_arbitrarily_old [OF sample_health_quiet]) simp

section \<open>The sequential handler\<close>

text \<open>The handler where the cache has expired: one probe, stored at a later instant.\<close>

lemma health_expired_later: "health_expired c t \<Longrightarrow> t \<le> t' \<Longrightarrow> health_expired c t'"
  using time_sub_mono [of t t' "ch_timestamp c"] by (auto simp: health_expired_def)

lemma health_probe_expired:
  assumes "health_expired (s_health w) (time_now w)"
  shows "\<exists>w2. health_probe w = (probe_result (getSysStats (s_conn w) (call_no w)), w2) \<and>
    s_calls w2 = s_calls w @ [(getSysStats_name, MSysStats)] \<and> w_clk w2 = w_clk w \<and> w_ticks w \<le> w_ticks w2 \<and>
    s_config w2 = s_config w \<and> w_rw w2 = w_rw w"
proof -
  obtain resp err where res: "getSysStats (s_conn w) (call_no w) = (resp, err)" by fastforce
  show ?thesis using assms res
    by (cases err) (auto simp: health_probe_def probe_result_def health_expired_def Let_def)
qed

text \<open>What the answer of a check says.\<close>

definition health_answer :: "gostring \<Rightarrow> 'a srv_world_scheme \<Rightarrow> 'a srv_world_scheme \<Rightarrow> bool" where
  "health_answer st w w' = (\<exists>conns uptime ts. rw_body (w_rw w') = rw_body (w_rw w) @
     [EncodeChunk (health_json (if st = ''connected'' then ''healthy'' else ''degraded'') st conns uptime
       (BalancerTag (cfg_xray (s_config w))) ts)])"

lemma health_respond_answer:
  "w_rw v = w_rw w \<Longrightarrow> s_config v = s_config w \<Longrightarrow> health_answer st w (health_respond st v)"
  by (simp add: health_answer_def health_respond_def Let_def, blast)

lemma clock_mono: "wall_ok w \<Longrightarrow> i \<le> j \<Longrightarrow> w_clk w i \<le> w_clk w j"
  by (rule lift_Suc_mono_le [of "w_clk w"]) (simp_all add: wall_ok_def)

text \<open>
  The handler implements the concurrent system: the status a check reports, the cache it leaves
  and whether it asked Xray are those of a run of the system with this one check.
\<close>

theorem health_refines_flight:
  assumes wall: "wall_ok w"
  shows "\<exists>es s' st w'. runs health_step (health_of w) es s' \<and> handleHealthCheck r w = Done w' \<and>
    hs_clients s' 0 = Some (Reported st) \<and> health_answer st w w' \<and> hs_cache s' = s_health w' \<and>
    length (s_calls w') = length (s_calls w) + hs_probes s'"
proof (cases "cache_expired (health_of w)")
  case False
  then have fresh: "\<not> health_expired (s_health w) (time_now w)" and "\<not> ch_stale (s_health w)"
    by (simp_all add: health_expired_def)
  then have "handleHealthCheck r w = Done (health_respond (ch_status (s_health w)) (tick w))"
    by (simp add: handleHealthCheck_def health_read_def Let_def)
  moreover have "runs health_step (health_of w) [HArrive 0] (put_check 0 (Reported (ch_status (hs_cache (health_of w)))) (health_of w))"
    using False by (intro runs_one hit) simp_all
  ultimately show ?thesis
    by (intro exI conjI) (assumption, assumption, simp, rule health_respond_answer, simp_all)
next
  case True
  let ?v = "if ch_stale (s_health w) then w else tick w"
  let ?res = "getSysStats (s_conn w) (call_no w)"
  have read: "health_read w = ((s_health w, True), ?v)" using True by (auto simp: health_read_def health_expired_def Let_def)
  have "time_now w \<le> time_now ?v" using clock_mono [OF wall, of "w_ticks w"] by (simp add: time_now_def)
  from health_expired_later [OF _ this] True have "health_expired (s_health w) (time_now ?v)" by simp
  moreover have "s_health ?v = s_health w" by simp
  ultimately have "health_expired (s_health ?v) (time_now ?v)" by (simp only:)
  from health_probe_expired [OF this] obtain w2 where w2: "health_probe ?v = (probe_result ?res, w2)"
    "s_calls w2 = s_calls w @ [(getSysStats_name, MSysStats)]" "w_clk w2 = w_clk w" "w_ticks w \<le> w_ticks w2"
    "s_config w2 = s_config w" "w_rw w2 = w_rw w" by (auto split: if_splits)
  let ?w' = "health_respond (fst (probe_result ?res)) (health_store (probe_result ?res) w2)"
  have handler: "handleHealthCheck r w = Done ?w'" by (simp add: handleHealthCheck_def read w2(1) del: split_paired_Ex)
  have later: "time_now w \<le> time_now w2" using clock_mono [OF wall w2(4)] w2(3) by (simp add: time_now_def)
  have arrive: "health_step (health_of w) (HArrive 0) (put_check 0 MustProbe (health_of w))"
    using True by (intro miss) simp_all
  from probing_run [of "put_check 0 MustProbe (health_of w)" 0 "time_now w2" ?res] True later obtain s' where
    run: "runs health_step (put_check 0 MustProbe (health_of w))
       [HAsk 0, HProbe, HReply ?res, HReturn, HClock (time_now w2), HStore 0] s'" and s':
    "hs_probes s' = 1" "hs_cache s' = stored_health (probe_result ?res) (time_now w2)"
    "hs_clients s' 0 = Some (Reported (fst (probe_result ?res)))" by auto
  note runs_cons [of health_step, OF arrive run]
  moreover have "health_answer (fst (probe_result ?res)) w ?w'" using w2 by (intro health_respond_answer) simp_all
  moreover have "s_health ?w' = stored_health (probe_result ?res) (time_now w2)"
    by (cases "probe_result ?res") (simp add: health_store_health stored_health_def)
  ultimately show ?thesis using handler s' w2(2) by (intro exI conjI) (assumption+, simp_all)
qed

theorem health_refines_flight_witness:
  "\<exists>es s' st w'. runs health_step (health_of sample_server) es s' \<and> handleHealthCheck switch_request sample_server = Done w' \<and>
    hs_clients s' 0 = Some (Reported st) \<and> health_answer st sample_server w' \<and> hs_cache s' = s_health w' \<and>
    length (s_calls w') = length (s_calls sample_server) + hs_probes s'"
  by (rule health_refines_flight [OF sample_server_wall])

theorem health_reports_probes_witness:
  "\<exists>es s st. runs health_step sample_health es s \<and> hs_clients s 0 = Some (Reported st) \<and>
     (\<exists>resp err. HReply (resp, err) \<in> set es \<and> st = (if err = None then ''connected'' else ''disconnected''))"
proof -
  let ?lost = "(None, Some RpcFailed) :: sys_stats_response rpc_result"
  let ?es = "[HAsk 0, HProbe, HReply ?lost, HReturn, HClock (hs_now sample_health), HStore 0]"
  have expired: "cache_expired sample_health" using sample_health_quiet empty_expired by (simp add: health_quiet_def)
  then have arrive: "health_step sample_health (HArrive 0) (put_check 0 MustProbe sample_health)"
    by (intro miss) simp_all
  from expired probing_run [of "put_check 0 MustProbe sample_health" 0 "hs_now sample_health" ?lost]
  obtain s where s: "runs health_step (put_check 0 MustProbe sample_health) ?es s"
    and st: "hs_clients s 0 = Some (Reported (fst (probe_result ?lost)))" by (auto simp: sample_health_def)
  note run = runs_cons [of health_step, OF arrive s]
  have "hs_clients sample_health 0 \<noteq> Some (Reported (fst (probe_result ?lost)))" by simp
  from health_reports_probes [OF sample_health_quiet run st this] run st show ?thesis
    by (metis (no_types, lifting))
qed

end
