(* ===== verification/Writers.thy ===== *)
theory Writers
  imports StatsProps
begin

text \<open>
  The writer a handler gets: the writer of the HTTP server wrapped by \<open>loggingResponseWriter\<close> of
  middleware/logger.go, whose \<open>Flush\<close>, \<open>Unwrap\<close> and \<open>Hijack\<close> pass through to it, and the
  event stream of server/handlerstats.go on such a writer, with its flushes and its write deadline.
  The responses of the other theories are a view of these writers.
\<close>

section \<open>Writers\<close>

text \<open>
  The server's writer: its response, the optional interfaces it has, how many chunks of the body
  left its buffer, and whether a write deadline is set.
\<close>

record conn_writer =
  cw_response :: response
  cw_flusher :: bool
  cw_hijacker :: bool
  cw_deadliner :: bool
  cw_flushed :: nat
  cw_deadline :: bool
  cw_hijacked :: bool

datatype writer = Conn conn_writer | Logging nat writer

definition newLogging :: "writer \<Rightarrow> writer" where
  "newLogging w = Logging 200 w"

fun w_response :: "(response \<Rightarrow> response) \<Rightarrow> writer \<Rightarrow> writer" where
  "w_response f (Conn c) = Conn (c\<lparr>cw_response := f (cw_response c)\<rparr>)"
| "w_response f (Logging code w) = Logging code (w_response f w)"

fun w_writeHeader :: "nat \<Rightarrow> writer \<Rightarrow> writer" where
  "w_writeHeader code (Conn c) = Conn (c\<lparr>cw_response := send_status code (cw_response c)\<rparr>)"
| "w_writeHeader code (Logging _ w) = Logging code (w_writeHeader code w)"

text \<open>\<open>Write\<close>, which the wrapper inherits; a write that fails has sent the status line.\<close>

definition w_write :: "bool \<Rightarrow> chunk \<Rightarrow> writer \<Rightarrow> writer" where
  "w_write ok c = w_response (if ok then write_chunk c else send_status 200)"

text \<open>The type assertions to \<open>http.Flusher\<close> and \<open>http.Hijacker\<close>: the wrapper has both methods.\<close>

fun isFlusher :: "writer \<Rightarrow> bool" where
  "isFlusher (Conn c) = cw_flusher c"
| "isFlusher (Logging _ _) = True"

fun isHijacker :: "writer \<Rightarrow> bool" where
  "isHijacker (Conn c) = cw_hijacker c"
| "isHijacker (Logging _ _) = True"

fun flushWriter :: "writer \<Rightarrow> writer" where
  "flushWriter (Conn c) =
     (let rw = send_status 200 (cw_response c) in
      Conn (c\<lparr>cw_response := rw, cw_flushed := length (rw_body rw)\<rparr>))"
| "flushWriter (Logging code w) = Logging code (if isFlusher w then flushWriter w else w)"

fun unwrap :: "writer \<Rightarrow> writer option" where
  "unwrap (Conn _) = None"
| "unwrap (Logging _ w) = Some w"

text \<open>None is the error "underlying ResponseWriter does not support hijacking".\<close>

fun hijack :: "writer \<Rightarrow> writer option" where
  "hijack (Conn c) = Some (Conn (c\<lparr>cw_hijacked := True\<rparr>))"
| "hijack (Logging code w) = (if isHijacker w then map_option (Logging code) (hijack w) else None)"

text \<open>
  \<open>ResponseController.SetWriteDeadline\<close>: the first writer with that method along \<open>Unwrap\<close>, else an error.
\<close>

fun setWriteDeadline :: "bool \<Rightarrow> writer \<Rightarrow> writer option" where
  "setWriteDeadline b (Conn c) = (if cw_deadliner c then Some (Conn (c\<lparr>cw_deadline := b\<rparr>)) else None)"
| "setWriteDeadline b (Logging code w) = map_option (Logging code) (setWriteDeadline b w)"

section \<open>The stream on a writer\<close>

text \<open>
  How the handler prepares the writer: it removes the write deadline, going on if that fails, and
  needs a flusher, else it answers that event streams are not supported.
\<close>

definition prepare_writer :: "writer \<Rightarrow> writer option" where
  "prepare_writer w =
     (let w1 = (case setWriteDeadline False w of Some w1 \<Rightarrow> w1 | None \<Rightarrow> w) in
      if isFlusher w1 then Some w1 else None)"

type_synonym wstream = "nat \<times> writer"

definition ws_write :: "sse_env \<Rightarrow> chunk \<Rightarrow> wstream \<Rightarrow> bool \<times> wstream" where
  "ws_write env c st = (case st of (k, w) \<Rightarrow> (se_write_ok env k, (Suc k, w_write (se_write_ok env k) c w)))"

definition ws_flush :: "bool \<times> wstream \<Rightarrow> bool \<times> wstream" where
  "ws_flush res = (case res of (ok, k, w) \<Rightarrow> (ok, k, if ok then flushWriter w else w))"

definition ws_event :: "sse_env \<Rightarrow> json \<Rightarrow> wstream \<Rightarrow> bool \<times> wstream" where
  "ws_event env j st =
     (case ws_write env (RawChunk sseEventPrefix) st of
        (False, st1) \<Rightarrow> (False, st1)
      | (True, st1) \<Rightarrow>
          (case ws_write env (MarshalChunk j) st1 of
             (False, st2) \<Rightarrow> (False, st2)
           | (True, st2) \<Rightarrow> ws_flush (ws_write env (RawChunk sseEventSuffix) st2)))"

fun ws_loop :: "sse_env \<Rightarrow> sse_event list \<Rightarrow> wstream \<Rightarrow> wstream" where
  "ws_loop env [] st = st"
| "ws_loop env (ConnDone # es) st = st"
| "ws_loop env (LifetimeOver # es) st = st"
| "ws_loop env (HeartbeatTick # es) st =
     (case ws_flush (ws_write env (RawChunk heartbeatBytes) st) of
        (True, st1) \<Rightarrow> ws_loop env es st1
      | (False, st1) \<Rightarrow> st1)"
| "ws_loop env (Payload d # es) st =
     (case marshal_stats d of
        None \<Rightarrow> ws_loop env es st
      | Some j \<Rightarrow>
          (case ws_event env j st of
             (True, st1) \<Rightarrow> ws_loop env es st1
           | (False, st1) \<Rightarrow> st1))"
| "ws_loop env (ChannelClosed # es) st = st"

definition ws_run :: "sse_env \<Rightarrow> json option \<Rightarrow> wstream \<Rightarrow> wstream" where
  "ws_run env first st =
     (case first of
        None \<Rightarrow> ws_loop env (se_events env) st
      | Some j \<Rightarrow>
          (case ws_event env j st of
             (True, st1) \<Rightarrow> ws_loop env (se_events env) st1
           | (False, st1) \<Rightarrow> st1))"

section \<open>The view of the other theories\<close>

fun view :: "writer \<Rightarrow> response" where
  "view (Conn c) = (cw_response c)\<lparr>rw_lrw := None\<rparr>"
| "view (Logging code w) = (view w)\<lparr>rw_lrw := Some code\<rparr>"

text \<open>Whether the server's writer can flush and be hijacked, and the chunks still in its buffer.\<close>

fun server_writer :: "writer \<Rightarrow> conn_writer" where
  "server_writer (Conn c) = c"
| "server_writer (Logging _ w) = server_writer w"

definition unflushed :: "writer \<Rightarrow> chunk list" where
  "unflushed w = drop (cw_flushed (server_writer w)) (rw_body (cw_response (server_writer w)))"

lemma send_status_lrw: "send_status c (rw\<lparr>rw_lrw := l\<rparr>) = (send_status c rw)\<lparr>rw_lrw := l\<rparr>"
  by (simp add: send_status_def split: option.split)

lemma write_chunk_lrw: "write_chunk c (rw\<lparr>rw_lrw := l\<rparr>) = (write_chunk c rw)\<lparr>rw_lrw := l\<rparr>"
  by (simp add: write_chunk_def Let_def send_status_lrw)

lemma set_header_lrw: "set_header k v (rw\<lparr>rw_lrw := l\<rparr>) = (set_header k v rw)\<lparr>rw_lrw := l\<rparr>"
  by (simp add: set_header_def)

lemma view_response:
  assumes "\<And>rw l. f (rw\<lparr>rw_lrw := l\<rparr>) = (f rw)\<lparr>rw_lrw := l\<rparr>"
  shows "view (w_response f w) = f (view w)"
  by (induction w) (simp_all add: assms)

lemma view_write [simp]: "view (w_write ok c w) = (if ok then write_chunk c (view w) else send_status 200 (view w))"
  by (simp add: w_write_def view_response write_chunk_lrw send_status_lrw)

lemma server_writer_ops [simp]:
  "server_writer (w_response f w) = (server_writer w)\<lparr>cw_response := f (cw_response (server_writer w))\<rparr>"
  "server_writer (w_writeHeader code w) =
     (server_writer w)\<lparr>cw_response := send_status code (cw_response (server_writer w))\<rparr>"
  by (induction w) simp_all

lemma view_body [simp]: "rw_body (view w) = rw_body (cw_response (server_writer w))"
  and view_status [simp]: "rw_status (view w) = rw_status (cw_response (server_writer w))"
  by (induction w) simp_all

text \<open>
  The responses of the model are a view of the writers: wrapping by the logger, header
  changes, \<open>WriteHeader\<close> and \<open>Write\<close> through any number of wrappers do to the view what the
  operations on responses do.
\<close>

theorem response_ops_refined:
  "view (newLogging w) = (view w)\<lparr>rw_lrw := Some 200\<rparr> \<and>
   view (w_response (set_header k v) w) = set_header k v (view w) \<and>
   view (w_writeHeader code w) = writeHeader code (view w) \<and>
   view (w_write True c w) = write_chunk c (view w)"
proof -
  have "view (w_writeHeader code w) = writeHeader code (view w)"
    by (induction w) (auto simp: writeHeader_def send_status_lrw split: option.splits)
  then show ?thesis by (simp add: newLogging_def view_response set_header_lrw)
qed

section \<open>Flushing\<close>

lemma view_flush:
  assumes "rw_status (view w) \<noteq> None"
  shows "view (flushWriter w) = view w"
  using assms by (induction w) (auto simp: Let_def send_status_def)

lemma flusher_through: "cw_flusher (server_writer w) \<Longrightarrow> isFlusher w"
  by (cases w) simp_all

lemma flush_server:
  "cw_flusher (server_writer w) \<Longrightarrow> server_writer (flushWriter w) =
     (let c = server_writer w; rw = send_status 200 (cw_response c) in
      c\<lparr>cw_response := rw, cw_flushed := length (rw_body rw)\<rparr>)"
  by (induction w) (simp_all add: Let_def flusher_through)

lemma write_unflushed:
  assumes "cw_flushed (server_writer w) \<le> length (rw_body (view w))"
  shows "unflushed (w_write ok c w) = unflushed w @ (if ok then [c] else [])"
    and "cw_flushed (server_writer (w_write ok c w)) \<le> length (rw_body (view (w_write ok c w)))"
  using assms by (auto simp: unflushed_def w_write_def send_status_def split: option.splits)

section \<open>The stream\<close>

abbreviation see :: "bool \<times> wstream \<Rightarrow> bool \<times> stream" where
  "see \<equiv> map_prod id (map_prod id view)"

lemma ws_write_view: "stream_write env c (k, view w) = see (ws_write env c (k, w))"
  by (simp add: stream_write_def ws_write_def)

lemma ws_flush_view: "see (ws_flush (ws_write env c st)) = see (ws_write env c st)"
  by (cases st) (simp add: ws_flush_def ws_write_def view_flush split: option.split)

lemma ws_event_view: "sseWriteEvent env j (k, view w) = see (ws_event env j (k, w))"
  by (auto simp: sseWriteEvent_def ws_event_def ws_write_view ws_flush_view split: prod.splits bool.splits)

lemma ws_loop_view: "sse_loop env es (k, view w) = map_prod id view (ws_loop env es (k, w))"
proof (induction es arbitrary: k w)
  case (Cons e es)
  show ?case
  proof (cases e)
    case HeartbeatTick
    obtain ok k1 w1 where st: "ws_flush (ws_write env (RawChunk heartbeatBytes) (k, w)) = (ok, k1, w1)"
      by (metis prod.exhaust)
    have "stream_write env (RawChunk heartbeatBytes) (k, view w) = (ok, k1, view w1)"
      by (simp add: ws_write_view ws_flush_view [symmetric] st)
    then show ?thesis using HeartbeatTick Cons.IH by (simp add: st split: bool.split)
  next
    case (Payload d)
    show ?thesis
    proof (cases "marshal_stats d")
      case (Some j)
      obtain ok k1 w1 where st: "ws_event env j (k, w) = (ok, k1, w1)" by (metis prod.exhaust)
      then have "sseWriteEvent env j (k, view w) = (ok, k1, view w1)" by (simp add: ws_event_view)
      then show ?thesis using Payload Some Cons.IH by (simp add: st split: bool.split)
    qed (simp add: Payload Cons.IH)
  qed simp_all
qed simp

lemma ws_run_view: "stream_run env first (k, view w) = map_prod id view (ws_run env first (k, w))"
proof (cases first)
  case (Some j)
  obtain ok k1 w1 where st: "ws_event env j (k, w) = (ok, k1, w1)" by (metis prod.exhaust)
  then show ?thesis using Some by (simp add: stream_run_def ws_run_def ws_event_view ws_loop_view split: bool.split)
qed (simp add: stream_run_def ws_run_def ws_loop_view)

text \<open>A writer that flushes, with at most \<open>n\<close> chunks in its buffer.\<close>

definition buffered :: "nat \<Rightarrow> writer \<Rightarrow> bool" where
  "buffered n w = (cw_flusher (server_writer w) \<and> length (unflushed w) \<le> n \<and>
     cw_flushed (server_writer w) \<le> length (rw_body (view w)))"

lemma buffered_write: "buffered n w \<Longrightarrow> buffered (Suc n) (w_write ok c w)"
  and buffered_failed: "buffered n w \<Longrightarrow> buffered n (w_write False c w)"
  by (auto simp: buffered_def write_unflushed) (simp_all add: w_write_def)

lemma buffered_flush: "buffered n w \<Longrightarrow> buffered 0 (flushWriter w)"
  by (simp add: buffered_def unflushed_def flush_server Let_def)

lemma buffered_mono: "buffered n w \<Longrightarrow> n \<le> m \<Longrightarrow> buffered m w"
  by (simp add: buffered_def)

text \<open>What an operation on the stream leaves: nothing in the buffer if it succeeded, else at most two chunks.\<close>

definition left :: "sse_env \<Rightarrow> bool \<Rightarrow> writer \<Rightarrow> bool" where
  "left env ok w = (if ok then buffered 0 w else buffered 2 w \<and> \<not> (\<forall>i. se_write_ok env i))"

lemma heartbeat_left:
  "buffered 0 w \<Longrightarrow> ws_flush (ws_write env c (k, w)) = (ok, k1, w1) \<Longrightarrow> left env ok w1"
  by (auto simp: ws_flush_def ws_write_def left_def buffered_flush buffered_write
      intro: buffered_flush [OF buffered_write] buffered_mono [OF buffered_failed])

lemma event_left:
  assumes "buffered 0 w" and "ws_event env j (k, w) = (ok, k1, w1)"
  shows "left env ok w1"
proof -
  let ?w1 = "w_write True (RawChunk sseEventPrefix) w"
  let ?w2 = "w_write True (MarshalChunk j) ?w1"
  have b: "buffered 1 ?w1" "buffered 2 ?w2" "buffered 3 (w_write True c ?w2)" for c
    using assms(1) buffered_write by (simp_all add: numeral_2_eq_2 numeral_3_eq_3)
  have f: "buffered 2 (w_write False c w)" "buffered 2 (w_write False c ?w1)" "buffered 2 (w_write False c ?w2)" for c
    using assms(1) b by (auto intro: buffered_mono [OF buffered_failed])
  show ?thesis using assms(2) buffered_flush [OF b(3)] f
    by (auto simp: ws_event_def ws_flush_def ws_write_def left_def split: bool.splits if_splits)
qed

lemma loop_left: "buffered 0 w \<Longrightarrow> \<exists>ok. left env ok (snd (ws_loop env es (k, w)))"
proof (induction es arbitrary: k w)
  case Nil
  then show ?case by (intro exI [of _ True]) (simp add: left_def)
next
  case (Cons e es)
  show ?case
  proof (cases e)
    case HeartbeatTick
    obtain ok k1 w1 where st: "ws_flush (ws_write env (RawChunk heartbeatBytes) (k, w)) = (ok, k1, w1)"
      by (metis prod.exhaust)
    note heartbeat_left [OF Cons.prems st]
    then show ?thesis using HeartbeatTick Cons.IH [of w1 k1] by (cases ok) (auto simp: st left_def)
  next
    case (Payload d)
    show ?thesis
    proof (cases "marshal_stats d")
      case None
      then show ?thesis using Payload Cons by simp
    next
      case (Some j)
      obtain ok k1 w1 where st: "ws_event env j (k, w) = (ok, k1, w1)" by (metis prod.exhaust)
      note event_left [OF Cons.prems st]
      then show ?thesis using Payload Some Cons.IH [of w1 k1] by (cases ok) (auto simp: st left_def)
    qed
  qed (use Cons.prems in \<open>auto simp: left_def intro: exI [of _ True]\<close>)
qed

lemma run_left: "buffered 0 w \<Longrightarrow> \<exists>ok. left env ok (snd (ws_run env first (k, w)))"
proof (cases first)
  case (Some j)
  assume b: "buffered 0 w"
  obtain ok k1 w1 where st: "ws_event env j (k, w) = (ok, k1, w1)" by (metis prod.exhaust)
  note event_left [OF b st]
  then show ?thesis using Some loop_left [of w1 env "se_events env" k1] by (cases ok) (auto simp: ws_run_def st left_def)
qed (simp add: ws_run_def loop_left)

text \<open>
  C30. The stream on a real writer, behind any number of wrappers: the response is the one of the
  model, and nothing is held back in the server's buffer: all of it has been flushed when every
  write succeeds, and all but the beginning of one event when a write fails.
\<close>

theorem stream_refines_and_flushes:
  assumes flusher: "cw_flusher (server_writer w)"
    and fresh: "cw_flushed (server_writer w) = length (rw_body (view w))"
    and run: "ws_run env first (k, w) = (k', w')"
  shows "stream_run env first (k, view w) = (k', view w') \<and> length (unflushed w') \<le> 2 \<and>
    ((\<forall>i. se_write_ok env i) \<longrightarrow> unflushed w' = [])"
proof -
  have "buffered 0 w" using flusher fresh by (simp add: buffered_def unflushed_def)
  from run_left [OF this, of env first k] run obtain ok where "left env ok w'" by auto
  then show ?thesis using run by (auto simp: ws_run_view left_def buffered_def split: if_splits)
qed

definition sample_writer :: writer where
  "sample_writer = newLogging (Conn \<lparr>cw_response = empty_response, cw_flusher = True, cw_hijacker = True,
     cw_deadliner = True, cw_flushed = 0, cw_deadline = True, cw_hijacked = False\<rparr>)"

theorem stream_refines_and_flushes_witness:
  "\<exists>k w. ws_run sample_stream (Some JNull) (0, sample_writer) = (k, w) \<and>
     stream_run sample_stream (Some JNull) (0, view sample_writer) = (k, view w) \<and> length (unflushed w) \<le> 2 \<and>
     ((\<forall>i. se_write_ok sample_stream i) \<longrightarrow> unflushed w = [])"
proof -
  obtain k w where run: "ws_run sample_stream (Some JNull) (0, sample_writer) = (k, w)" by (rule prod.exhaust)
  have "cw_flusher (server_writer sample_writer)"
    "cw_flushed (server_writer sample_writer) = length (rw_body (view sample_writer))"
    by (simp_all add: sample_writer_def newLogging_def empty_response_def)
  from stream_refines_and_flushes [OF this run] run show ?thesis by blast
qed

section \<open>Preparing the writer\<close>

lemma setWriteDeadline_server:
  "setWriteDeadline b w \<noteq> None \<longleftrightarrow> cw_deadliner (server_writer w)"
  "setWriteDeadline b w = Some w1 \<Longrightarrow> server_writer w1 = (server_writer w)\<lparr>cw_deadline := b\<rparr> \<and> view w1 = view w"
  by (induction w arbitrary: w1) (auto split: if_splits)

text \<open>
  Behind the logger the handler never answers that streams are not supported, whatever the server's
  writer is; and the write deadline is gone exactly if that writer has deadlines to set.
\<close>

lemma prepare_logged:
  "\<exists>w1. prepare_writer (newLogging w) = Some w1 \<and> view w1 = view (newLogging w) \<and>
     (cw_deadliner (server_writer w) \<longrightarrow> \<not> cw_deadline (server_writer w1))"
proof (cases "setWriteDeadline False w")
  case None
  then show ?thesis using setWriteDeadline_server(1) [of False w] by (auto simp: prepare_writer_def newLogging_def)
next
  case (Some v)
  then show ?thesis using setWriteDeadline_server(2) [of False w v] by (simp add: prepare_writer_def newLogging_def)
qed

text \<open>Hijacking succeeds exactly if the server's writer can be hijacked, through any wrappers.\<close>

lemma hijack_server:
  assumes "isHijacker w"
  shows "hijack w \<noteq> None \<longleftrightarrow> cw_hijacker (server_writer w)"
  using assms
proof (induction w)
  case (Logging code w)
  then show ?case by (cases w) auto
qed simp

text \<open>Unwrapping any number of times keeps the server's writer.\<close>

lemma unwrap_server: "unwrap w = Some v \<Longrightarrow> server_writer v = server_writer w"
  by (cases w) simp_all

end
