(* ===== verification/StreamSystem.thy ===== *)
theory StreamSystem
  imports BroadcasterDelivery Writers
begin

text \<open>
  The way of a statistic from the polling loop to the client: the broadcaster of
  sse/broadcaster.go, the stream of server/handlerstats.go that takes payloads from its channel, and
  the writer it writes to, put together.
\<close>

section \<open>The data of a stream\<close>

text \<open>The payloads among the events of a stream, up to the one that ends it.\<close>

fun stream_payloads :: "sse_event list \<Rightarrow> stats_data list" where
  "stream_payloads [] = []"
| "stream_payloads (HeartbeatTick # es) = stream_payloads es"
| "stream_payloads (Payload d # es) = d # stream_payloads es"
| "stream_payloads (_ # es) = []"

text \<open>The JSON values in a body.\<close>

definition json_chunks :: "chunk list \<Rightarrow> json list" where
  "json_chunks cs = concat (map (\<lambda>c. case c of MarshalChunk j \<Rightarrow> [j] | _ \<Rightarrow> []) cs)"

lemma json_chunks_simps [simp]:
  "json_chunks [] = []" "json_chunks (cs @ ds) = json_chunks cs @ json_chunks ds"
  "json_chunks (MarshalChunk j # cs) = j # json_chunks cs" "json_chunks (RawChunk x # cs) = json_chunks cs"
  "json_chunks (frame j) = [j]"
  by (simp_all add: json_chunks_def frame_def)

lemma json_event_chunks: "json_chunks (event_chunks es) = map stats_json (stream_payloads es)"
  by (induction es rule: event_chunks.induct) simp_all

lemma json_prefix: "prefix cs ds \<Longrightarrow> prefix (json_chunks cs) (json_chunks ds)"
  by (auto simp: prefix_def)

text \<open>What a stream has written on a writer, whatever ended it.\<close>

lemma stream_json:
  assumes "ws_run env (Some j) (k, w) = (k', w')"
  shows "\<exists>cs. rw_body (view w') = rw_body (view w) @ cs \<and>
    prefix (json_chunks cs) (j # map stats_json (stream_payloads (se_events env))) \<and>
    ((\<forall>i. se_write_ok env i) \<longrightarrow> json_chunks cs = j # map stats_json (stream_payloads (se_events env)))"
proof -
  have "stream_run env (Some j) (k, view w) = (k', view w')" using ws_run_view [of env "Some j" k w] assms by simp
  with wrote_run [of env "(k, view w)" j] obtain cs where cs: "rw_body (view w') = rw_body (view w) @ cs"
    "prefix cs (frame j @ event_chunks (se_events env))"
    "(\<forall>i. se_write_ok env i) \<longrightarrow> cs = frame j @ event_chunks (se_events env)" by (auto simp: wrote_def)
  from json_prefix [OF cs(2)] cs(1,3) show ?thesis by (intro exI [of _ cs]) (auto simp: json_event_chunks)
qed

section \<open>From the loop to the client\<close>

text \<open>
  C34. What the browser sees: while a stream takes its payloads from its channel, the client is sent
  the first frame and then payloads the polling loop emitted, in that order and none twice, in
  every interleaving and with writes that fail. With no failed write, a buffer that has room and the
  subscription kept, nothing is missing but what is still in the buffer or in the loop's hand.
\<close>

theorem browser_sees_emitted:
  assumes before: "bc_run fns es1 newBroadcaster = Some b1" and run: "bc_run fns es b1 = Some b2"
    and takes: "stream_payloads (se_events env) = receives fns c es b1"
    and stream: "ws_run env (Some j) (k, w) = (k', w')"
  shows "\<exists>cs ps. rw_body (view w') = rw_body (view w) @ cs \<and> prefix (json_chunks cs) (j # map stats_json ps) \<and>
    subseq ps (buffers b1 c @ pending c b1 @ emits fns es b1) \<and>
    ((\<forall>i. se_write_ok env i) \<and> c \<in> set (subscribers b1) \<and> \<not> stopped b2 \<and> EUnsubscribe c \<notin> set es \<and>
     (\<forall>(p, room)\<in>set (offers fns c es b1). room) \<longrightarrow>
       json_chunks cs @ map stats_json (buffers b2 c @ pending c b2) =
         j # map stats_json (buffers b1 c @ pending c b1 @ emits fns es b1))"
proof -
  have inv: "tidy_inv b1" using before by (rule deliv.inv_reached)
  let ?ps = "receives fns c es b1"
  from stream_json [OF stream] obtain cs where cs: "rw_body (view w') = rw_body (view w) @ cs"
    "prefix (json_chunks cs) (j # map stats_json ?ps)"
    "(\<forall>i. se_write_ok env i) \<longrightarrow> json_chunks cs = j # map stats_json ?ps" unfolding takes by blast
  have "subseq ?ps (buffers b1 c @ pending c b1 @ emits fns es b1)"
    by (rule subseq_order.trans [OF _ delivered_subseq [OF inv run, of c]]) (rule prefix_imp_subseq, simp)
  moreover have "json_chunks cs @ map stats_json (buffers b2 c @ pending c b2) =
      j # map stats_json (buffers b1 c @ pending c b1 @ emits fns es b1)"
    if "\<forall>i. se_write_ok env i" "c \<in> set (subscribers b1)" "\<not> stopped b2" "EUnsubscribe c \<notin> set es"
      "\<forall>(p, room)\<in>set (offers fns c es b1). room"
    using delivered_all [OF inv run that(2-5), symmetric] cs(3) that(1) by simp
  ultimately show ?thesis using cs(1,2) by blast
qed

text \<open>One client, one tick.\<close>

definition plain_fns :: "(stats_data, json) bc_fns" where
  "plain_fns = \<lparr>marshal = marshal_stats, enrichFn = None, zero_payload = zero_stats\<rparr>"

definition one_tick :: "stats_data bc_event list" where
  "one_tick = [ETick 0 (1, Fetched zero_stats, None), ESnapshot 0 [0], ESend 0, ESend 0, EReceive 0]"

definition one_payload :: sse_env where
  "one_payload = sample_stream\<lparr>se_events := [HeartbeatTick, Payload zero_stats, ConnDone], se_write_ok := (\<lambda>_. True)\<rparr>"

theorem browser_sees_emitted_witness:
  "\<exists>b1 b2 k w cs. bc_run plain_fns [ESubscribe] newBroadcaster = Some b1 \<and> bc_run plain_fns one_tick b1 = Some b2 \<and>
     ws_run one_payload (Some JNull) (0, sample_writer) = (k, w) \<and>
     rw_body (view w) = rw_body (view sample_writer) @ cs \<and>
     (\<exists>ps. prefix (json_chunks cs) (JNull # map stats_json ps) \<and>
       subseq ps (buffers b1 0 @ pending 0 b1 @ emits plain_fns one_tick b1))"
proof -
  let ?b1 = "the (bc_run plain_fns [ESubscribe] newBroadcaster)"
  let ?b2 = "the (bc_run plain_fns one_tick ?b1)"
  note run_simps = bc_run_simps one_tick_def tick_step_def loop_tick_def enrich_and_send_def put_loop_def
    send_step_def send_done_def pending_def plain_fns_def marshal_stats_def
  have run: "bc_run plain_fns [ESubscribe] newBroadcaster = Some ?b1" "bc_run plain_fns one_tick ?b1 = Some ?b2"
    by (simp_all add: run_simps)
  have takes: "stream_payloads (se_events one_payload) = receives plain_fns 0 one_tick ?b1"
    by (simp add: run_simps one_payload_def)
  obtain k w where ws: "ws_run one_payload (Some JNull) (0, sample_writer) = (k, w)" by (rule prod.exhaust)
  from browser_sees_emitted [OF run takes ws] run ws show ?thesis by blast
qed

end
