(* ===== verification/StatsFlight.thy ===== *)
theory StatsFlight
  imports StatsProps
begin

text \<open>
  \<open>getCombinedStats\<close> of server/handlerstats.go under concurrent callers: the polling loop of the
  broadcaster and every stream that has no payload yet call it. \<open>singleflight\<close> runs one execution at a
  time and later callers wait for it; an execution starts three goroutines, each writes its own
  variable, and ends when all of them have.
\<close>

section \<open>The system\<close>

datatype stats_answer =
    QueryAnswer "query_stats_response rpc_result"
  | SysAnswer "sys_stats_response rpc_result"
  | OutboundAnswer "out_status list option"

fun source_of :: "stats_answer \<Rightarrow> stats_source" where
  "source_of (QueryAnswer a) = QuerySource"
| "source_of (SysAnswer a) = SysSource"
| "source_of (OutboundAnswer a) = OutboundSource"

fun put_answer :: "stats_answer \<Rightarrow> stats_fetch \<Rightarrow> stats_fetch" where
  "put_answer (QueryAnswer a) f = f\<lparr>sf_query := a\<rparr>"
| "put_answer (SysAnswer a) f = f\<lparr>sf_sys := a\<rparr>"
| "put_answer (OutboundAnswer a) f = f\<lparr>sf_outbounds := a\<rparr>"

datatype stats_client = StatsWaiting | StatsServed "stats_error + stats_data"

text \<open>The execution in flight, with the goroutines that have not ended, and the callers.\<close>

record stats_group =
  sg_call :: "(stats_source set \<times> stats_fetch) option"
  sg_clients :: "nat \<Rightarrow> stats_client option"

definition stats_idle :: stats_group where
  "stats_idle = \<lparr>sg_call = None, sg_clients = (\<lambda>_. None)\<rparr>"

definition serve_stats :: "stats_error + stats_data \<Rightarrow> stats_client \<Rightarrow> stats_client" where
  "serve_stats v k = (if k = StatsWaiting then StatsServed v else k)"

datatype stats_event = SCall nat | SAnswer stats_answer | SReturn

inductive stats_step :: "stats_group \<Rightarrow> stats_event \<Rightarrow> stats_group \<Rightarrow> bool" where
  sstart: "sg_clients s r = None \<Longrightarrow> sg_call s = None \<Longrightarrow>
    stats_step s (SCall r) (s\<lparr>sg_call := Some ({QuerySource, SysSource, OutboundSource}, no_fetch),
      sg_clients := (sg_clients s)(r \<mapsto> StatsWaiting)\<rparr>)"
| sjoin: "sg_clients s r = None \<Longrightarrow> sg_call s = Some (P, f) \<Longrightarrow>
    stats_step s (SCall r) (s\<lparr>sg_clients := (sg_clients s)(r \<mapsto> StatsWaiting)\<rparr>)"
| sanswer: "sg_call s = Some (P, f) \<Longrightarrow> source_of a \<in> P \<Longrightarrow>
    stats_step s (SAnswer a) (s\<lparr>sg_call := Some (P - {source_of a}, put_answer a f)\<rparr>)"
| sreturn: "sg_call s = Some ({}, f) \<Longrightarrow>
    stats_step s SReturn (s\<lparr>sg_call := None,
      sg_clients := map_option (serve_stats (combine_stats f)) \<circ> sg_clients s\<rparr>)"

inductive_cases stats_stepE:
  "stats_step s (SCall r) s'" "stats_step s (SAnswer a) s'" "stats_step s SReturn s'"

section \<open>What a caller is told\<close>

text \<open>The sources that answered since the last return, and what they answered.\<close>

fun track :: "stats_event \<Rightarrow> stats_source set \<times> stats_fetch \<Rightarrow> stats_source set \<times> stats_fetch" where
  "track (SCall r) p = p"
| "track (SAnswer a) (D, f) = (insert (source_of a) D, put_answer a f)"
| "track SReturn p = ({}, no_fetch)"

definition execution :: "stats_event list \<Rightarrow> stats_source set \<times> stats_fetch" where
  "execution es = fold track es ({}, no_fetch)"

lemma execution_simps [simp]:
  "execution [] = ({}, no_fetch)" "execution (es @ [SCall r]) = execution es"
  "execution (es @ [SReturn]) = ({}, no_fetch)"
  "execution (es @ [SAnswer a]) = (insert (source_of a) (fst (execution es)), put_answer a (snd (execution es)))"
  by (simp_all add: execution_def) (cases "fold track es ({}, no_fetch)", simp)

text \<open>A call that has not returned, and one answered by the first return after it.\<close>

definition open_call :: "stats_event list \<Rightarrow> nat \<Rightarrow> bool" where
  "open_call es r = (\<exists>pre mid. es = pre @ SCall r # mid \<and> SReturn \<notin> set mid)"

definition answered_call :: "stats_event list \<Rightarrow> nat \<Rightarrow> stats_error + stats_data \<Rightarrow> bool" where
  "answered_call es r v =
     (\<exists>es1 es2. es = es1 @ SReturn # es2 \<and> open_call es1 r \<and> fst (execution es1) = UNIV \<and>
        v = combine_stats (snd (execution es1)))"

lemma open_call_snoc [simp]:
  "open_call (es @ [e]) r \<longleftrightarrow> e = SCall r \<or> e \<noteq> SReturn \<and> open_call es r"
proof
  assume "open_call (es @ [e]) r"
  then obtain pre mid where split: "es @ [e] = pre @ SCall r # mid" and mid: "SReturn \<notin> set mid"
    by (auto simp: open_call_def)
  show "e = SCall r \<or> e \<noteq> SReturn \<and> open_call es r"
  proof (cases mid rule: rev_cases)
    case Nil
    with split show ?thesis by simp
  next
    case (snoc ms m)
    with split mid have "es = pre @ SCall r # ms" "e = m" "SReturn \<notin> set ms" "m \<noteq> SReturn" by auto
    then show ?thesis unfolding open_call_def by blast
  qed
next
  assume "e = SCall r \<or> e \<noteq> SReturn \<and> open_call es r"
  then show "open_call (es @ [e]) r"
  proof
    assume "e = SCall r"
    then show ?thesis unfolding open_call_def by (intro exI [of _ es] exI [of _ "[]"]) simp
  next
    assume "e \<noteq> SReturn \<and> open_call es r"
    then obtain pre mid where "es @ [e] = pre @ SCall r # (mid @ [e])" "SReturn \<notin> set (mid @ [e])"
      unfolding open_call_def by auto
    then show ?thesis unfolding open_call_def by blast
  qed
qed

lemma answered_call_snoc [simp]:
  "answered_call (es @ [e]) r v \<longleftrightarrow> answered_call es r v \<or>
     e = SReturn \<and> open_call es r \<and> fst (execution es) = UNIV \<and> v = combine_stats (snd (execution es))"
proof
  assume "answered_call (es @ [e]) r v"
  then obtain es1 es2 where split: "es @ [e] = es1 @ SReturn # es2" and es1: "open_call es1 r"
    "fst (execution es1) = UNIV" "v = combine_stats (snd (execution es1))" unfolding answered_call_def by blast
  show "answered_call es r v \<or> e = SReturn \<and> open_call es r \<and> fst (execution es) = UNIV \<and> v = combine_stats (snd (execution es))"
  proof (cases es2 rule: rev_cases)
    case Nil
    with split es1 show ?thesis by simp
  next
    case (snoc ms m)
    with split have "es = es1 @ SReturn # ms" by simp
    with es1 show ?thesis unfolding answered_call_def by blast
  qed
next
  assume "answered_call es r v \<or> e = SReturn \<and> open_call es r \<and> fst (execution es) = UNIV \<and> v = combine_stats (snd (execution es))"
  then show "answered_call (es @ [e]) r v"
    unfolding answered_call_def by (metis append_Cons append_assoc append_Nil2 append_Nil)
qed

lemma calls_empty [simp]: "\<not> open_call [] r" "\<not> answered_call [] r v"
  by (simp_all add: open_call_def answered_call_def)

text \<open>The trace determines the execution in flight and what every caller has.\<close>

definition stats_inv :: "stats_event list \<Rightarrow> stats_group \<Rightarrow> bool" where
  "stats_inv es s =
     ((case sg_call s of
         None \<Rightarrow> execution es = ({}, no_fetch) \<and> (\<forall>r. sg_clients s r \<noteq> Some StatsWaiting)
       | Some (P, f) \<Rightarrow> P = - fst (execution es) \<and> f = snd (execution es)) \<and>
      (\<forall>r. sg_clients s r = Some StatsWaiting \<longleftrightarrow> open_call es r) \<and>
      (\<forall>r v. sg_clients s r = Some (StatsServed v) \<longleftrightarrow> answered_call es r v))"

lemma all_sources: "UNIV = {QuerySource, SysSource, OutboundSource}"
  using stats_source.exhaust by auto

lemma serve_stats_simps [simp]:
  "map_option (serve_stats v) x \<noteq> Some StatsWaiting"
  "map_option (serve_stats v) x = Some (StatsServed u) \<longleftrightarrow> x = Some (StatsServed u) \<or> x = Some StatsWaiting \<and> u = v"
  by (cases x; auto simp: serve_stats_def)+

lemma stats_inv_step:
  assumes "stats_inv es s" and "stats_step s e s'"
  shows "stats_inv (es @ [e]) s'"
  using assms(2)
proof cases
  case (sstart r)
  have "\<not> open_call es r" "\<not> answered_call es r v" for v
    using assms(1) sstart(3) unfolding stats_inv_def by (metis option.distinct(1))+
  with sstart assms(1) show ?thesis by (auto simp: stats_inv_def all_sources [symmetric])
next
  case (sjoin r P f)
  have "\<not> open_call es r" "\<not> answered_call es r v" for v
    using assms(1) sjoin(3) unfolding stats_inv_def by (metis option.distinct(1))+
  with sjoin assms(1) show ?thesis by (auto simp: stats_inv_def)
next
  case (sanswer P f a)
  with assms(1) show ?thesis by (auto simp: stats_inv_def)
next
  case (sreturn f)
  with assms(1) have "fst (execution es) = UNIV" "f = snd (execution es)" by (auto simp: stats_inv_def)
  with sreturn assms(1) show ?thesis by (simp add: stats_inv_def del: map_option_eq_Some)
qed

interpretation combined: labelled stats_step "\<lambda>s. s = stats_idle" stats_inv
proof
  show "stats_inv [] s" if "s = stats_idle" for s using that by (simp add: stats_inv_def stats_idle_def)
qed (use stats_inv_step in blast)

section \<open>The sequential function is a run\<close>

fun answer_of :: "stats_source \<Rightarrow> 'a srv_world_scheme \<Rightarrow> stats_answer" where
  "answer_of QuerySource w = QueryAnswer (queryStats (s_conn w) (call_no w) inbound_query)"
| "answer_of SysSource w = SysAnswer (getSysStats (s_conn w) (call_no w))"
| "answer_of OutboundSource w = OutboundAnswer (fst (getAllOutboundStatuses w))"

lemma source_of_answer [simp]: "source_of (answer_of src w) = src"
  by (cases src) auto

lemma fetch_source_answer: "fst (fetch_source src (f, w)) = put_answer (answer_of src w) f"
  by (cases src) (auto split: prod.split)

lemma fetch_all_answers:
  "\<exists>as. map source_of as = sched \<and> fst (fold fetch_source sched (f, w)) = fold put_answer as f"
proof (induction sched arbitrary: f w)
  case Nil
  then show ?case by simp
next
  case (Cons src sched)
  obtain f1 w1 where first: "fetch_source src (f, w) = (f1, w1)" by fastforce
  then have "f1 = put_answer (answer_of src w) f" using fetch_source_answer [of src f w] by simp
  moreover obtain as where "map source_of as = sched" "fst (fold fetch_source sched (f1, w1)) = fold put_answer as f1"
    using Cons.IH by blast
  ultimately show ?case using first by (intro exI [of _ "answer_of src w # as"]) simp
qed

text \<open>The goroutines left end in any order, with any answers.\<close>

lemma answers_run:
  assumes "sg_call s = Some (P, f)" and "distinct (map source_of as)" and "set (map source_of as) = P"
  shows "runs stats_step s (map SAnswer as) (s\<lparr>sg_call := Some ({}, fold put_answer as f)\<rparr>)"
  using assms
proof (induction as arbitrary: s P f)
  case Nil
  then have "s\<lparr>sg_call := Some ({}, f)\<rparr> = s" by (cases s) simp
  then show ?case using runs_nil [of stats_step s] by simp
next
  case (Cons a as)
  let ?s = "s\<lparr>sg_call := Some (P - {source_of a}, put_answer a f)\<rparr>"
  have "stats_step s (SAnswer a) ?s" using Cons.prems by (intro sanswer) auto
  moreover have "runs stats_step ?s (map SAnswer as) (?s\<lparr>sg_call := Some ({}, fold put_answer as (put_answer a f))\<rparr>)"
    using Cons.prems by (intro Cons.IH [where P = "P - {source_of a}"]) (auto simp del: set_map)
  ultimately show ?case using runs_cons [of stats_step s "SAnswer a" ?s] by simp
qed

lemma execution_run:
  assumes "sg_call s = Some (P, f)" and "distinct (map source_of as)" and "set (map source_of as) = P"
  shows "runs stats_step s (map SAnswer as @ [SReturn]) (s\<lparr>sg_call := None,
    sg_clients := map_option (serve_stats (combine_stats (fold put_answer as f))) \<circ> sg_clients s\<rparr>)"
  using runs_snoc [OF answers_run [OF assms] sreturn] by simp

lemma combined_refines_group:
  assumes "distinct sched" and "set sched = {QuerySource, SysSource, OutboundSource}"
  shows "\<exists>es s'. runs stats_step stats_idle (SCall r # es @ [SReturn]) s' \<and> sg_call s' = None \<and>
    sg_clients s' = [r \<mapsto> StatsServed (fst (getCombinedStats sched w))]"
proof -
  obtain as where as: "map source_of as = sched" "fst (fold fetch_source sched (no_fetch, w)) = fold put_answer as no_fetch"
    using fetch_all_answers by blast
  then have res: "fst (getCombinedStats sched w) = combine_stats (fold put_answer as no_fetch)"
    by (simp add: getCombinedStats_def split_beta)
  let ?s = "stats_idle\<lparr>sg_call := Some ({QuerySource, SysSource, OutboundSource}, no_fetch),
    sg_clients := (sg_clients stats_idle)(r \<mapsto> StatsWaiting)\<rparr>"
  have "stats_step stats_idle (SCall r) ?s" by (rule sstart) (simp_all add: stats_idle_def)
  moreover have "runs stats_step ?s (map SAnswer as @ [SReturn]) (?s\<lparr>sg_call := None,
    sg_clients := map_option (serve_stats (combine_stats (fold put_answer as no_fetch))) \<circ> sg_clients ?s\<rparr>)"
    using assms as(1) by (intro execution_run [where P = "{QuerySource, SysSource, OutboundSource}"]) auto
  ultimately have "runs stats_step stats_idle (SCall r # map SAnswer as @ [SReturn]) (?s\<lparr>sg_call := None,
    sg_clients := map_option (serve_stats (combine_stats (fold put_answer as no_fetch))) \<circ> sg_clients ?s\<rparr>)"
    by (rule runs_cons)
  then show ?thesis
    by (intro exI conjI, assumption) (auto simp: res stats_idle_def serve_stats_def fun_eq_iff)
qed

section \<open>Properties\<close>

text \<open>
  C23. In every interleaving of callers and sources, a caller has the answer \<open>v\<close> exactly if, at the
  first return after its call, all three sources had answered within that execution, and \<open>v\<close>
  combines those answers; a caller without an answer waits exactly if nothing returned since its
  call. So all who wait together are told the same, and nobody is told an answer from before the
  execution it joined.
\<close>

theorem stats_answers_coalesced:
  assumes "runs stats_step stats_idle es s"
  shows "(sg_clients s r = Some (StatsServed v) \<longleftrightarrow>
      (\<exists>es1 es2. es = es1 @ SReturn # es2 \<and> open_call es1 r \<and> fst (execution es1) = UNIV \<and>
         v = combine_stats (snd (execution es1)))) \<and>
    (sg_clients s r = Some StatsWaiting \<longleftrightarrow> open_call es r)"
  using combined.inv_runs [OF assms refl] unfolding stats_inv_def answered_call_def by blast

text \<open>Two callers of one execution, with both statistics services failing.\<close>

definition sample_calls :: "stats_event list" where
  "sample_calls =
     [SCall 0, SAnswer (QueryAnswer (None, Some RpcFailed)), SCall 1, SAnswer (OutboundAnswer None),
      SAnswer (SysAnswer (None, Some RpcFailed))]"

lemma sample_calls_run: "\<exists>s. runs stats_step stats_idle (sample_calls @ [SReturn]) s"
proof -
  let ?q = "QueryAnswer (None, Some RpcFailed)"
  let ?as = "[OutboundAnswer None, SysAnswer (None, Some RpcFailed)]"
  let ?s1 = "\<lparr>sg_call = Some ({QuerySource, SysSource, OutboundSource}, no_fetch), sg_clients = [0 \<mapsto> StatsWaiting]\<rparr>"
  let ?P = "{QuerySource, SysSource, OutboundSource} - {source_of ?q}"
  let ?s2 = "\<lparr>sg_call = Some (?P, put_answer ?q no_fetch), sg_clients = [0 \<mapsto> StatsWaiting]\<rparr>"
  let ?s3 = "?s2\<lparr>sg_clients := [0 \<mapsto> StatsWaiting, 1 \<mapsto> StatsWaiting]\<rparr>"
  have "stats_step stats_idle (SCall 0) ?s1" using sstart [of stats_idle 0] by (simp add: stats_idle_def)
  moreover have "stats_step ?s1 (SAnswer ?q) ?s2" using sanswer [of ?s1 _ no_fetch ?q] by simp
  moreover have "stats_step ?s2 (SCall 1) ?s3" using sjoin [of ?s2 1] by simp
  moreover have "\<exists>s. runs stats_step ?s3 (map SAnswer ?as @ [SReturn]) s"
    by (rule exI, rule execution_run [of ?s3 ?P "put_answer ?q no_fetch" ?as]) auto
  ultimately show ?thesis unfolding sample_calls_def append_Cons append_Nil list.map by (meson runs_cons)
qed

lemma sample_calls_facts:
  "open_call sample_calls 0" "open_call sample_calls 1" "fst (execution sample_calls) = UNIV"
  "combine_stats (snd (execution sample_calls)) = Inl StatsFailed"
proof -
  show "open_call sample_calls 0" unfolding open_call_def sample_calls_def by (rule exI [of _ "[]"]) auto
  show "open_call sample_calls 1" unfolding open_call_def sample_calls_def
    by (rule exI [of _ "[SCall 0, SAnswer (QueryAnswer (None, Some RpcFailed))]"]) auto
qed (auto simp: execution_def sample_calls_def all_sources combine_stats_def use_query_def use_sys_def no_fetch_def)

theorem stats_answers_coalesced_witness:
  "\<exists>s. runs stats_step stats_idle (sample_calls @ [SReturn]) s \<and>
    sg_clients s 0 = Some (StatsServed (Inl StatsFailed)) \<and> sg_clients s 1 = Some (StatsServed (Inl StatsFailed))"
proof -
  obtain s where run: "runs stats_step stats_idle (sample_calls @ [SReturn]) s" using sample_calls_run ..
  have "sg_clients s r = Some (StatsServed (Inl StatsFailed))" if "open_call sample_calls r" for r
    using stats_answers_coalesced [OF run, of r "Inl StatsFailed"] that sample_calls_facts(3,4) by (metis append_Nil2)
  with run sample_calls_facts(1,2) show ?thesis by blast
qed

text \<open>
  From every reachable state a caller that waits is served once the sources left have answered,
  whatever the order and the answers.
\<close>

theorem stats_caller_served:
  assumes "runs stats_step stats_idle es s" and "sg_clients s r = Some StatsWaiting"
  shows "\<exists>P f. sg_call s = Some (P, f) \<and>
    (\<forall>as. distinct (map source_of as) \<and> set (map source_of as) = P \<longrightarrow>
      (\<exists>s'. runs stats_step s (map SAnswer as @ [SReturn]) s' \<and>
        sg_clients s' r = Some (StatsServed (combine_stats (fold put_answer as f)))))"
proof -
  have "stats_inv es s" by (rule combined.inv_runs [OF assms(1) refl])
  with assms(2) obtain P f where call: "sg_call s = Some (P, f)" by (cases "sg_call s") (auto simp: stats_inv_def)
  have "\<exists>s'. runs stats_step s (map SAnswer as @ [SReturn]) s' \<and>
      sg_clients s' r = Some (StatsServed (combine_stats (fold put_answer as f)))"
    if "distinct (map source_of as) \<and> set (map source_of as) = P" for as
    using execution_run [OF call, of as] that assms(2) by (intro exI conjI) (auto simp: serve_stats_def)
  with call show ?thesis by blast
qed

end
