(* ===== verification/Spec2Isabelle.thy ===== *)
theory Spec2Isabelle
  imports LoginRace CleanupLoop Config SseManager BroadcasterProps OutboundsProps Health LogsProps
    StatsProps BroadcasterDelivery ServerProps SystemProps MainProg OutboundsFlight HealthFlight StreamSystem StatsFlight
begin

text \<open>
  xray-web-manager is an HTTP server in Go that shows and switches the outbound nodes of a running
  Xray, which it reaches by gRPC. This development models its Go code and proves what the code is
  there for.

  \<^bold>\<open>The program.\<close> \<open>main\<close> (main.go) loads and validates the configuration (config/), connects to
  Xray and waits for the connection, builds the server (server/) and serves its handlers behind
  one chain of middlewares (middleware/):
  logger, panic recovery, security headers, basic authentication, origin check, request limit. The
  handlers list the outbounds, report their status and the current one, switch it, check health,
  read logs and stream statistics. The stream takes its data from one broadcaster (sse/), which
  polls Xray while somebody is subscribed. Background goroutines clean the tables of the limiters
  and report a lost connection. On a signal everything is stopped in order.

  \<^bold>\<open>The values.\<close> GoBase has Go's strings (byte lists), times and durations (integers, with the
  saturation of \<open>Sub\<close> at the int64 range), maps (association lists, with the iteration order as an
  argument) and the contracts the components share, as locales: \<open>machine\<close> and \<open>capped_machine\<close> (a
  step function with an invariant and a capacity), \<open>interleaving\<close> (partial steps of several
  goroutines, with observations) and \<open>labelled\<close> (a step relation with its traces). Each is
  interpreted on the components below. GoFloat has float64 as exact rationals rounded to 53 bits
  (locale \<open>rounding\<close>), GoUtf8 and GoStr the parts of \<open>unicode/utf8\<close>, \<open>strings\<close>, \<open>strconv\<close> and
  \<open>net\<close> the program calls, GoPath those of \<open>path/filepath\<close>, Http requests, responses, JSON values
  and the state a handler runs in (\<open>world\<close>: clock readings, iteration orders, the response, the
  access log). XrayProto has the protobuf messages of internal/xray-proto with their getters, and
  the client stubs; what the connection answers to the n-th call is an argument.

  \<^bold>\<open>The components.\<close>
  RateLimiter is middleware/ratelimit.go: \<open>checkAndRecord\<close>, \<open>cleanupStaleKeys\<close> and \<open>evictOldest\<close> on
  the record \<open>rate_limiter\<close>. It accepts a request only below the limit, its table is bounded, and
  its cleanup changes no decision.
  AuthLimiter is the lockout of middleware/auth.go (\<open>isAuthBlocked\<close>, \<open>recordAuthFailure\<close>,
  \<open>cleanupRateLimiter\<close>): a client is locked out exactly at the limit, until the window has passed.
  CleanupLoop is the life of the cleanup goroutines (\<open>startCleanupLoop\<close> in middleware.go and its
  callers), one live goroutine per limiter.
  Middleware has the middlewares as handler transformers (\<open>logger\<close>, \<open>recovery\<close>,
  \<open>securityHeaders\<close>, \<open>basicAuth\<close>, \<open>rateLimit\<close>, \<open>checkOrigin\<close>), MiddlewareProps what their chain
  admits and rejects. LoginRace interleaves the requests of \<open>basicAuth\<close>, which checks and records in
  two critical sections: a client with \<open>k\<close> connections gets exactly \<open>limit - 1 + k\<close> guesses within a
  block window, and the middleware is a run of that system.
  Writers is the \<open>loggingResponseWriter\<close> of middleware/logger.go around the writer of the HTTP
  server, with \<open>Flush\<close>, \<open>Unwrap\<close> and \<open>Hijack\<close>. The responses of the other theories are a view of
  these writers, and the event stream on them leaves nothing in the buffer.
  Config is config/config.go: defaults, path, loading, validation and the default file, on a record
  for the file system. What \<open>validateConfig\<close> accepts is \<open>config_ok\<close>, and the default file is read
  back as it was written.
  SseManager is sse/manager.go: connections as numbers, with the limit and the shutdown.
  Broadcaster is sse/broadcaster.go: the polling loop's tick as a function (\<open>loop_tick\<close>), and the
  concurrent object as a record \<open>bcast\<close> with one event of \<open>bc_step\<close> per lock or channel operation.
  BroadcasterProps shows, over all interleavings, one loop at a time, no send on a closed channel
  and a served subscriber; BroadcasterDelivery relates what a client receives to what the loops
  emit, and shows that \<open>Stop\<close> ends.
  ServerState is the struct \<open>Server\<close> of server/server.go and its caches (locale \<open>ttl_cache\<close>,
  interpreted on both).
  Outbounds and OutboundsProps are server/handleroutbound.go: the lists, the automatic choice and
  the switch, which is the one operation that changes Xray.
  Flight is the cache refreshed through \<open>singleflight\<close> under concurrent requests, a step relation
  with the locale \<open>flight_cache\<close>; OutboundsFlight interprets it on the node statuses and the
  excluded tags and shows that the sequential functions \<open>getAllOutboundStatuses\<close> and
  \<open>buildExcludedTags\<close> are runs of it.
  Health is server/handlerhealth.go, with its phases as separate definitions; HealthFlight
  interleaves them in a step relation: a check reports what a probe said since the cache was empty,
  the handler is a run of a lone check, and, against the time to live, a status can be renewed
  without a probe for ever.
  Logs and LogsProps are server/handlerlog.go and the three journal files: the ring buffer against
  the list of the last matching lines, and the byte limit.
  Stats and StatsProps are server/handlerstats.go: the three sources in any order, the rates, the
  throttled warnings under interleaving, and the stream (\<open>handleStatsSSE\<close>), whose events and failed
  writes are an argument. StatsFlight has \<open>getCombinedStats\<close> under concurrent callers, with its three
  goroutines: a caller is told what the sources answered within one execution.
  Reconnect is \<open>waitForReady\<close>, \<open>waitForReconnect\<close> and the reconnect monitor, on a connection that
  has a state per instant.
  Server and ServerProps are the routes, the frontend handler, \<open>Shutdown\<close> and the handler of \<open>main\<close>
  (\<open>finalHandler\<close>); MainProg is \<open>main\<close> with its actions in order.
  StreamSystem puts the broadcaster, the stream and the writer together: what a client is sent is
  what the polling loop emitted, in order.
  SystemProps composes the handlers: every request is answered once and logged with the status sent, and
  no sequence of requests and cleanups takes the tables out of their invariants.

  \<^bold>\<open>Loops and bounds.\<close> Loops over data are structural recursion. \<open>waitForReady\<close> and
  \<open>waitForReconnect\<close> may go on as long as the connection keeps changing its state, so they are
  partial functions into option; that they return is proved for a connection that settles, and
  \<open>main_returns\<close> carries this hypothesis to \<open>main\<close>. No definition takes fuel. The event lists of a
  stream, of the monitor and of the interleavings are finite prefixes of what happens, of any
  length. Integers are unbounded where the code bounds their values (entries of a table of at most
  10000, sizes of files, request counts); int64 shows where it matters: sums and differences of
  traffic counters and the seconds of warnings wrap (\<open>wrap64\<close>), \<open>Sub\<close> saturates, \<open>Atoi\<close> fails.

  \<^bold>\<open>Assumed of libraries\<close>, as arguments of the definitions: \<open>url.Parse\<close>, \<open>unicode.ToLower\<close>, the YAML
  decoder and encoder, the time format, \<open>http.FileServer\<close>, the answers of Xray, the operating
  system and the journal. \<open>sync\<close>, channels, timers, \<open>singleflight\<close> and \<open>http.ServeMux\<close> (literal
  patterns) are modelled as their documentation says.

  \<^bold>\<open>Not modelled.\<close> The user interface (frontend/, JavaScript). The generated descriptors, reflection
  tables and server side of internal/xray-proto. Bytes on the wire: the encoding of JSON and
  protobuf values, HTTP framing, gRPC with its keepalive and backoff parameters. Timeouts of request
  contexts show only as errors of the calls, and the duration of a comparison of credentials not at
  all. Log lines other than the access log and those of the reconnect monitor.
  Concurrent requests on the whole server: a
  handler runs as one step in SystemProps, and the places where the code leaves a lock in between
  (lockout, broadcaster, caches, statistics, health check, warnings, cleanup goroutines) have their interleavings in
  their own theories.
\<close>

end
